(* ===== verification/Prelude.thy ===== *)
theory Prelude
  imports Main "HOL-Library.Word" "HOL-Library.Char_ord" "HOL-Library.List_Lexorder"
    "HOL-Library.AList" "HOL-Library.Multiset"
begin

text \<open>
  Shared vocabulary of the development: the result type of fallible Go functions, byte strings
  and their order, ordered sets and maps kept as lists, insertion sort by a comparison function
  as Go's \<^verbatim>\<open>sort.Slice\<close> uses it, and the generic lemmas about them.

  Go strings are byte sequences, so they are HOL strings (lists of 8-bit characters) and their
  order is the lexicographic order of \<^theory_text>\<open>List_Lexorder\<close>. A Go map is an association list
  with distinct keys; its iteration order, which Go leaves open, is always a separate argument.
\<close>

named_theorems go_simps \<open>unfolding of small helpers of the Go model\<close>
named_theorems sorting \<open>facts about sorting by a comparison function\<close>

type_synonym byte = "8 word"
type_synonym 'a res = "string + 'a"
type_synonym ('k, 'v) gomap = "('k \<times> 'v) list"

subsection \<open>Ordered sets: a Go \<^verbatim>\<open>map[string]struct{}\<close> in insertion order\<close>

definition add_key :: "'a \<Rightarrow> 'a list \<Rightarrow> 'a list" where
  "add_key x xs = (if x \<in> set xs then xs else xs @ [x])"

lemma set_add_key [simp]: "set (add_key x xs) = insert x (set xs)"
  by (auto simp: add_key_def)

lemma distinct_add_key [simp]: "distinct (add_key x xs) = distinct xs"
  by (auto simp: add_key_def)

lemma add_key_ne [simp]: "add_key x xs \<noteq> []"
  by (auto simp: add_key_def)

lemma set_fold_add_key [simp]: "set (fold add_key ys xs) = set xs \<union> set ys"
  by (induction ys arbitrary: xs) auto

lemma distinct_fold_add_key [simp]: "distinct (fold add_key ys xs) = distinct xs"
  by (induction ys arbitrary: xs) auto

subsection \<open>Association lists\<close>

abbreviation keys :: "('k, 'v) gomap \<Rightarrow> 'k list" where
  "keys m \<equiv> map fst m"

definition get0 :: "('k, 'v list) gomap \<Rightarrow> 'k \<Rightarrow> 'v list" where
  \<comment> \<open>reading a missing key gives the zero value, here the empty string\<close>
  "get0 m k = (case map_of m k of None \<Rightarrow> [] | Some v \<Rightarrow> v)"

lemma get0_update:
  "get0 (AList.update k v m) k' = (if k' = k then v else get0 m k')"
  by (simp add: get0_def update_conv')

lemma set_keys_update [simp]: "fst ` set (AList.update k v m) = insert k (fst ` set m)"
  using dom_update [of k v m] by (simp add: image_Un)

lemma distinct_keys_update [simp]:
  "distinct (keys m) \<Longrightarrow> distinct (keys (AList.update k v m))"
  by (rule distinct_update)

lemma get0_notin: "k \<notin> set (keys m) \<Longrightarrow> get0 m k = []"
  by (simp add: get0_def map_of_eq_None_iff [THEN iffD2])

subsection \<open>Sorting by a comparison function\<close>

text \<open>
  Go's \<^verbatim>\<open>sort.Slice\<close> runs insertion sort on short slices: each element in turn moves left
  while it is less than its left neighbour. \<open>sort_slice\<close> is that loop; the sorted prefix is
  kept reversed, so the neighbour is the head. On longer slices Go switches to an algorithm that
  may order ties differently; the results about \<open>sort_slice\<close> that the development uses are
  therefore stated for any permutation sorted by the comparison, or where there are no ties.
\<close>

fun sift :: "('a \<Rightarrow> 'a \<Rightarrow> bool) \<Rightarrow> 'a \<Rightarrow> 'a list \<Rightarrow> 'a list" where
  "sift lt x [] = [x]"
| "sift lt x (y # ys) = (if lt x y then y # sift lt x ys else x # y # ys)"

definition sort_slice :: "('a \<Rightarrow> 'a \<Rightarrow> bool) \<Rightarrow> 'a list \<Rightarrow> 'a list" where
  "sort_slice lt xs = rev (foldl (\<lambda>acc x. sift lt x acc) [] xs)"

lemma mset_sift: "mset (sift lt x ys) = add_mset x (mset ys)"
  by (induction ys) auto

lemma set_sift [simp]: "set (sift lt x ys) = insert x (set ys)"
  by (metis mset_sift set_mset_add_mset_insert set_mset_mset)

lemma mset_foldl_sift: "mset (foldl (\<lambda>acc x. sift lt x acc) acc xs) = mset acc + mset xs"
  by (induction xs arbitrary: acc) (auto simp: mset_sift)

lemma mset_sort_slice [simp, sorting]: "mset (sort_slice lt xs) = mset xs"
  by (simp add: sort_slice_def mset_foldl_sift)

lemma set_sort_slice [simp, sorting]: "set (sort_slice lt xs) = set xs"
  by (metis mset_sort_slice set_mset_mset)

lemma length_sort_slice [simp, sorting]: "length (sort_slice lt xs) = length xs"
  by (metis mset_sort_slice size_mset)

lemma distinct_sort_slice [simp, sorting]: "distinct (sort_slice lt xs) = distinct xs"
  by (metis mset_sort_slice mset_eq_imp_distinct_iff)

text \<open>
  What \<^verbatim>\<open>sort.Slice\<close> asks of its argument: the comparison is the strict order of some key.
\<close>

locale slice_order =
  fixes lt :: "'a \<Rightarrow> 'a \<Rightarrow> bool"
    and key :: "'a \<Rightarrow> 'k::linorder"
  assumes less_key: "lt x y \<longleftrightarrow> key x < key y"
begin

lemma sift_sorted: "sorted (map key (rev ys)) \<Longrightarrow> sorted (map key (rev (sift lt x ys)))"
proof (induction ys)
  case Nil
  then show ?case by simp
next
  case (Cons y ys)
  then show ?case
    by (auto simp: less_key sorted_append not_less intro: less_imp_le)
qed

lemma foldl_sift_sorted:
  "sorted (map key (rev acc)) \<Longrightarrow>
     sorted (map key (rev (foldl (\<lambda>acc x. sift lt x acc) acc xs)))"
  by (induction xs arbitrary: acc) (auto simp: sift_sorted)

theorem sorted_sort_slice: "sorted (map key (sort_slice lt xs))"
  unfolding sort_slice_def by (rule foldl_sift_sorted) simp

lemma sorted_wrt_sort_slice: "sorted_wrt (\<lambda>x y. \<not> lt y x) (sort_slice lt xs)"
  using sorted_sort_slice [of xs] by (simp add: less_key sorted_map not_less)

text \<open>Without ties every correct sorting algorithm gives the same list.\<close>

theorem sort_slice_unique:
  assumes "mset ys = mset xs" and "sorted_wrt (\<lambda>x y. \<not> lt y x) ys" and "inj_on key (set xs)"
  shows "ys = sort_slice lt xs"
proof -
  have s: "sorted (map key ys)"
    using assms(2) by (simp add: less_key sorted_map not_less)
  have "mset (map key ys) = mset (map key (sort_slice lt xs))"
    using assms(1) by simp
  then have "map key ys = map key (sort_slice lt xs)"
    by (metis s sorted_sort_slice properties_for_sort)
  moreover have "set ys = set xs" using assms(1) by (metis set_mset_mset)
  ultimately show ?thesis
    using assms(3) by (intro map_inj_on [of key]) auto
qed

corollary sort_slice_perm:
  assumes "mset ys = mset xs" and "inj_on key (set xs)"
  shows "sort_slice lt ys = sort_slice lt xs"
  using sort_slice_unique [of "sort_slice lt ys" xs] assms sorted_wrt_sort_slice by simp

end

end
