(* ===== verification/Go_Strings.thy ===== *)
theory Go_Strings
  imports Prelude
begin

text \<open>
  The functions of Go's \<^verbatim>\<open>strings\<close> and \<^verbatim>\<open>strconv\<close> packages that the program calls, on
  byte strings: prefixes and suffixes, \<^verbatim>\<open>Split\<close>, \<^verbatim>\<open>Join\<close>, \<^verbatim>\<open>TrimSpace\<close> (white
  space in UTF-8 as \<^verbatim>\<open>unicode.IsSpace\<close> has it), \<^verbatim>\<open>ToLower\<close>, decimal printing.
  Each comes with the lemmas the components use.
\<close>

subsection \<open>Prefixes, suffixes, substrings\<close>

definition hasPrefix :: "string \<Rightarrow> string \<Rightarrow> bool" where
  "hasPrefix s p \<longleftrightarrow> take (length p) s = p"

definition hasSuffix :: "string \<Rightarrow> string \<Rightarrow> bool" where
  "hasSuffix s p \<longleftrightarrow> length p \<le> length s \<and> drop (length s - length p) s = p"

definition trimPrefix :: "string \<Rightarrow> string \<Rightarrow> string" where
  "trimPrefix s p = (if hasPrefix s p then drop (length p) s else s)"

definition trimSuffix :: "string \<Rightarrow> string \<Rightarrow> string" where
  "trimSuffix s p = (if hasSuffix s p then take (length s - length p) s else s)"

fun contains :: "string \<Rightarrow> string \<Rightarrow> bool" where
  "contains [] p \<longleftrightarrow> p = []"
| "contains (c # cs) p \<longleftrightarrow> hasPrefix (c # cs) p \<or> contains cs p"

lemma hasPrefix_Nil [simp]: "hasPrefix s []"
  by (simp add: hasPrefix_def)

lemma hasPrefix_Cons [simp]:
  "hasPrefix [] (p # ps) = False"
  "hasPrefix (c # cs) (p # ps) = (c = p \<and> hasPrefix cs ps)"
  by (auto simp: hasPrefix_def)

lemma hasPrefix_append [simp]: "hasPrefix (p @ s) p"
  by (simp add: hasPrefix_def)

lemma hasSuffix_singleton: "hasSuffix s [c] \<longleftrightarrow> s \<noteq> [] \<and> last s = c"
  by (cases s rule: rev_cases) (auto simp: hasSuffix_def)

lemma trimSuffix_singleton:
  "trimSuffix s [c] = (if s \<noteq> [] \<and> last s = c then butlast s else s)"
  by (auto simp: trimSuffix_def hasSuffix_singleton butlast_conv_take)

subsection \<open>Split and Join\<close>

text \<open>
  \<^verbatim>\<open>strings.Split\<close> with a non-empty separator: leftmost matches that do not overlap.
\<close>

function split_on :: "string \<Rightarrow> string \<Rightarrow> string list" where
  "split_on sep [] = [[]]"
| "split_on sep (c # cs) =
     (if hasPrefix (c # cs) sep then [] # split_on sep (drop (length sep - 1) cs)
      else case split_on sep cs of [] \<Rightarrow> [[c]] | p # ps \<Rightarrow> (c # p) # ps)"
  by pat_completeness auto
termination
  by (relation "measure (\<lambda>(sep, s). length s)") auto

fun join :: "string \<Rightarrow> string list \<Rightarrow> string" where
  "join sep [] = []"
| "join sep [x] = x"
| "join sep (x # y # ys) = x @ sep @ join sep (y # ys)"

lemma split_on_ne [simp]: "split_on sep s \<noteq> []"
  by (induction sep s rule: split_on.induct) (auto split: list.splits)

lemma join_Cons: "ys \<noteq> [] \<Longrightarrow> join sep (x # ys) = x @ sep @ join sep ys"
  by (cases ys) auto

text \<open>Joining the pieces gives the string back.\<close>

lemma join_split_on: "sep \<noteq> [] \<Longrightarrow> join sep (split_on sep s) = s"
proof (induction sep s rule: split_on.induct)
  case (1 sep)
  then show ?case by simp
next
  case (2 sep c cs)
  show ?case
  proof (cases "hasPrefix (c # cs) sep")
    case True
    then obtain d ds where sep: "sep = d # ds" using 2 by (cases sep) auto
    have "sep @ drop (length sep - 1) cs = c # cs"
      using True unfolding sep hasPrefix_def by (auto simp: take_Cons')
        (metis append_take_drop_id)
    with 2 True show ?thesis by (simp add: join_Cons)
  next
    case False
    with 2 have IH: "join sep (split_on sep cs) = cs" by simp
    obtain p ps where "split_on sep cs = p # ps" by (cases "split_on sep cs") auto
    with IH False show ?thesis by (cases ps) (auto simp: join_Cons)
  qed
qed

text \<open>
  A separator of one character, and the two-character separator \<^verbatim>\<open>", "\<close> of the source labels:
  a separator put between two strings is where the result is cut.
\<close>

lemma split_on_append1: "split_on [c] (s @ c # t) = split_on [c] s @ split_on [c] t"
proof (induction s)
  case Nil
  then show ?case by simp
next
  case (Cons a s)
  then show ?case by (cases "split_on [c] s") auto
qed

lemma split_on_append2:
  assumes "c \<noteq> d"
  shows "split_on [c, d] (s @ c # d # t) = split_on [c, d] s @ split_on [c, d] t"
proof (induction s rule: length_induct)
  case (1 s)
  show ?case
  proof (cases s)
    case Nil
    then show ?thesis by simp
  next
    case (Cons a s')
    show ?thesis
    proof (cases "hasPrefix s [c, d]")
      case True
      with Cons obtain s'' where s: "s = c # d # s''"
        by (cases s') auto
      with 1 have "split_on [c, d] (s'' @ c # d # t) = split_on [c, d] s'' @ split_on [c, d] t"
        by simp
      with s show ?thesis by simp
    next
      case False
      have "\<not> hasPrefix (s @ c # d # t) [c, d]"
        using False Cons assms by (cases s') auto
      moreover have "split_on [c, d] (s' @ c # d # t) = split_on [c, d] s' @ split_on [c, d] t"
        using 1 Cons by simp
      ultimately show ?thesis
        using False Cons by (cases "split_on [c, d] s'") auto
    qed
  qed
qed

lemma split_on_single: "c \<notin> set s \<Longrightarrow> split_on [c] s = [s]"
  by (induction s) auto

lemma split_on_pieces: "p \<in> set (split_on [c] s) \<Longrightarrow> c \<notin> set p"
proof (induction s arbitrary: p)
  case Nil
  then show ?case by simp
next
  case (Cons a s)
  then show ?case by (cases "split_on [c] s") (auto split: if_splits)
qed

subsection \<open>White space\<close>

text \<open>
  \<open>space_len s\<close> is the length of the encoding of a white space character that \<open>s\<close> starts
  with, 0 if there is none. The characters of \<^verbatim>\<open>unicode.IsSpace\<close> are
  U+0009 to U+000D, U+0020, U+0085, U+00A0, U+1680, U+2000 to U+200A, U+2028, U+2029, U+202F,
  U+205F and U+3000; all others decode to something else, as malformed UTF-8 does.
\<close>

definition space1 :: "char \<Rightarrow> bool" where
  "space1 a \<longleftrightarrow> (let x = (of_char a :: nat) in (9 \<le> x \<and> x \<le> 13) \<or> x = 32)"

definition space2 :: "char \<Rightarrow> char \<Rightarrow> bool" where
  "space2 a b \<longleftrightarrow> (of_char a :: nat) = 194 \<and> (let y = (of_char b :: nat) in y = 133 \<or> y = 160)"

definition space3 :: "char \<Rightarrow> char \<Rightarrow> char \<Rightarrow> bool" where
  "space3 a b c \<longleftrightarrow> (let x = (of_char a :: nat); y = (of_char b :: nat); z = (of_char c :: nat) in
     (x = 225 \<and> y = 154 \<and> z = 128) \<or>
     (x = 226 \<and> y = 128 \<and> ((128 \<le> z \<and> z \<le> 138) \<or> z = 168 \<or> z = 169 \<or> z = 175)) \<or>
     (x = 226 \<and> y = 129 \<and> z = 159) \<or>
     (x = 227 \<and> y = 128 \<and> z = 128))"

fun space_len :: "string \<Rightarrow> nat" where
  "space_len [] = 0"
| "space_len [a] = (if space1 a then 1 else 0)"
| "space_len [a, b] = (if space1 a then 1 else if space2 a b then 2 else 0)"
| "space_len (a # b # c # cs) =
     (if space1 a then 1 else if space2 a b then 2 else if space3 a b c then 3 else 0)"

text \<open>The same at the end of a string, given reversed.\<close>

fun space_len_rev :: "string \<Rightarrow> nat" where
  "space_len_rev [] = 0"
| "space_len_rev [a] = (if space1 a then 1 else 0)"
| "space_len_rev [b, a] = (if space1 b then 1 else if space2 a b then 2 else 0)"
| "space_len_rev (c # b # a # cs) =
     (if space1 c then 1 else if space2 b c then 2 else if space3 a b c then 3 else 0)"

function trim_with :: "(string \<Rightarrow> nat) \<Rightarrow> string \<Rightarrow> string" where
  "trim_with f s = (if f s = 0 \<or> s = [] then s else trim_with f (drop (f s) s))"
  by pat_completeness auto
termination
  by (relation "measure (\<lambda>(f, s). length s)") auto

declare trim_with.simps [simp del]

definition trimSpace :: "string \<Rightarrow> string" where
  "trimSpace s = rev (trim_with space_len_rev (rev (trim_with space_len s)))"

lemma trim_with_stop: "f (trim_with f s) = 0 \<or> trim_with f s = []"
  by (induction f s rule: trim_with.induct) (subst (1 2) trim_with.simps, auto)

lemma trim_with_id: "f s = 0 \<Longrightarrow> trim_with f s = s"
  by (subst trim_with.simps) simp

lemma trim_with_drop: "\<exists>n. trim_with f s = drop n s"
proof (induction f s rule: trim_with.induct)
  case (1 f s)
  show ?case
  proof (cases "f s = 0 \<or> s = []")
    case True
    then show ?thesis by (subst trim_with.simps) (auto intro: exI [of _ 0])
  next
    case False
    with 1 obtain n where "trim_with f (drop (f s) s) = drop n (drop (f s) s)" by blast
    with False show ?thesis by (subst trim_with.simps) auto
  qed
qed

lemma space_len_Nil_iff [simp]: "f = space_len \<or> f = space_len_rev \<Longrightarrow> f [] = 0"
  by auto

lemma space_len_take: "space_len s = 0 \<Longrightarrow> space_len (take n s) = 0"
proof (induction s rule: space_len.induct)
  case (2 a)
  then show ?case by (cases n) auto
next
  case (3 a b)
  then show ?case by (cases n; cases "n - 1") (auto split: if_splits)
next
  case (4 a b c cs)
  consider "n = 0" | "n = 1" | "n = 2" | m where "n = Suc (Suc (Suc m))"
    by (metis One_nat_def Suc_1 old.nat.exhaust)
  then show ?case using 4 by cases (auto split: if_splits simp: numeral_2_eq_2)
qed auto

lemma trimSpace_sub: "set (trimSpace s) \<subseteq> set s"
proof -
  obtain n m where "trim_with space_len s = drop n s"
    and "trim_with space_len_rev (rev (trim_with space_len s)) =
           drop m (rev (trim_with space_len s))"
    using trim_with_drop by metis
  then have "set (trimSpace s) \<subseteq> set (drop n s)"
    unfolding trimSpace_def by (metis set_drop_subset set_rev)
  then show ?thesis using set_drop_subset by (rule subset_trans)
qed

text \<open>A trimmed string: no white space character at either end.\<close>

definition trimmed :: "string \<Rightarrow> bool" where
  "trimmed s \<longleftrightarrow> space_len s = 0 \<and> space_len_rev (rev s) = 0"

lemma trimmed_trimSpace [simp]: "trimmed (trimSpace s)"
proof -
  let ?l = "trim_with space_len s"
  obtain m where m: "trim_with space_len_rev (rev ?l) = drop m (rev ?l)"
    using trim_with_drop by metis
  then have t: "trimSpace s = take (length ?l - m) ?l"
    by (simp add: trimSpace_def rev_drop)
  have "space_len ?l = 0" using trim_with_stop [of space_len s] by auto
  then have "space_len (trimSpace s) = 0" unfolding t by (rule space_len_take)
  moreover have "space_len_rev (rev (trimSpace s)) = 0"
    using trim_with_stop [of space_len_rev "rev ?l"] by (auto simp: trimSpace_def)
  ultimately show ?thesis by (simp add: trimmed_def)
qed

lemma trimSpace_trimmed: "trimmed s \<Longrightarrow> trimSpace s = s"
  by (simp add: trimmed_def trimSpace_def trim_with_id)

lemma trimSpace_idem [simp]: "trimSpace (trimSpace s) = trimSpace s"
  by (rule trimSpace_trimmed) simp

lemma trimSpace_Nil [simp]: "trimSpace [] = []"
  by (simp add: trimSpace_def trim_with_id)

subsection \<open>Case and decimal numbers\<close>

definition code :: "char \<Rightarrow> nat" where
  "code c = of_char c"

definition is_ascii :: "string \<Rightarrow> bool" where
  "is_ascii s \<longleftrightarrow> (\<forall>c \<in> set s. code c < 128)"

definition lower_char :: "char \<Rightarrow> char" where
  "lower_char c = (if 65 \<le> code c \<and> code c \<le> 90 then char_of (code c + 32) else c)"

text \<open>
  \<^verbatim>\<open>strings.ToLower\<close>: byte-wise on ASCII. On other strings it maps code points by the
  Unicode tables, which are the argument \<open>ulower\<close>.
\<close>

definition toLower :: "(string \<Rightarrow> string) \<Rightarrow> string \<Rightarrow> string" where
  "toLower ulower s = (if is_ascii s then map lower_char s else ulower s)"

lemma code_char_of [simp]: "n < 256 \<Longrightarrow> code (char_of n) = n"
  by (simp add: code_def)

lemma code_less [simp]: "code c < 256"
  by (simp add: code_def)

lemma code_inject: "code c = code d \<longleftrightarrow> c = d"
  by (simp add: code_def)

lemma lower_char_idem [simp]: "lower_char (lower_char c) = lower_char c"
  by (auto simp: lower_char_def)

lemma code_lower: "code c < 128 \<Longrightarrow> code (lower_char c) < 128"
  by (auto simp: lower_char_def)

lemma toLower_idem_ascii: "is_ascii s \<Longrightarrow> toLower u (toLower u s) = toLower u s"
  by (auto simp: toLower_def is_ascii_def code_lower)

definition is_digit :: "char \<Rightarrow> bool" where
  "is_digit c \<longleftrightarrow> 48 \<le> code c \<and> code c \<le> 57"

definition digit_val :: "char \<Rightarrow> nat" where
  "digit_val c = code c - 48"

definition digit_char :: "nat \<Rightarrow> char" where
  "digit_char d = char_of (48 + d)"

fun itoa :: "nat \<Rightarrow> string" where
  "itoa n = (if n < 10 then [digit_char n] else itoa (n div 10) @ [digit_char (n mod 10)])"

declare itoa.simps [simp del]

definition itoa_int :: "int \<Rightarrow> string" where
  "itoa_int i = (if i < 0 then CHR ''-'' # itoa (nat (- i)) else itoa (nat i))"

lemma is_digit_char [simp]: "d < 10 \<Longrightarrow> is_digit (digit_char d)"
  by (simp add: is_digit_def digit_char_def)

lemma digit_val_char [simp]: "d < 10 \<Longrightarrow> digit_val (digit_char d) = d"
  by (simp add: digit_val_def digit_char_def)

lemma digit_char_val [simp]: "is_digit c \<Longrightarrow> digit_char (digit_val c) = c"
  by (simp add: is_digit_def digit_char_def digit_val_def) (simp add: code_def)

lemma digit_val_less: "is_digit c \<Longrightarrow> digit_val c < 10"
  by (auto simp: is_digit_def digit_val_def)

lemma itoa_ne [simp]: "itoa n \<noteq> []"
  by (subst itoa.simps) simp

lemma itoa_digits: "c \<in> set (itoa n) \<Longrightarrow> is_digit c"
proof (induction n rule: itoa.induct)
  case (1 n)
  then show ?case by (subst (asm) (2) itoa.simps) (auto split: if_splits)
qed

lemma itoa_step: "0 < v \<Longrightarrow> d < 10 \<Longrightarrow> itoa (v * 10 + d) = itoa v @ [digit_char d]"
  by (subst itoa.simps) simp

lemma itoa_small: "d < 10 \<Longrightarrow> itoa d = [digit_char d]"
  by (subst itoa.simps) simp

lemma not_digit [simp]: "\<not> is_digit CHR ''.''" "\<not> is_digit CHR ''/''" "\<not> is_digit CHR '':''"
  by (simp_all add: is_digit_def code_def)

text \<open>
  Reading a run of digits from the left, as every decimal parser here does; printing and
  reading are inverse.
\<close>

definition digits_val :: "nat \<Rightarrow> string \<Rightarrow> nat" where
  "digits_val v ds = foldl (\<lambda>a c. a * 10 + digit_val c) v ds"

lemma digits_val_itoa: "digits_val 0 (itoa n) = n"
proof (induction n rule: itoa.induct)
  case (1 n)
  then show ?case by (subst itoa.simps) (auto simp: digits_val_def)
qed

lemma itoa_inject: "itoa m = itoa n \<longleftrightarrow> m = n"
  by (metis digits_val_itoa)

end
