(* ===== verification/Net_IP.thy ===== *)
theory Net_IP
  imports Go_Strings
begin

unbundle bit_operations_syntax

text \<open>
  The part of Go's \<^verbatim>\<open>net\<close> and \<^verbatim>\<open>net/netip\<close> packages the resolver calls:
  \<^verbatim>\<open>ParseIP\<close>, \<^verbatim>\<open>ParseCIDR\<close>, \<^verbatim>\<open>IP.To4\<close>, \<^verbatim>\<open>IP.String\<close> of IPv4 addresses,
  \<^verbatim>\<open>IPNet.String\<close>, \<^verbatim>\<open>SplitHostPort\<close> and \<^verbatim>\<open>JoinHostPort\<close>. IPv6 text is parsed
  in full, because an IPv4-mapped IPv6 literal counts as IPv4 for the program. A \<^verbatim>\<open>net.IP\<close>
  is a byte slice, 4 or 16 bytes long, and empty when nil.
\<close>

type_synonym net_ip = "byte list"

subsection \<open>Dotted decimal\<close>

text \<open>
  \<open>parse4 s val digLen fields\<close> is the loop of \<^verbatim>\<open>parseIPv4Fields\<close> with the octet being read.
\<close>

fun parse4 :: "string \<Rightarrow> nat \<Rightarrow> nat \<Rightarrow> byte list \<Rightarrow> byte list option" where
  "parse4 [] val digLen fields =
     (if length fields < 3 then None else Some (fields @ [of_nat val]))"
| "parse4 (c # cs) val digLen fields =
     (if is_digit c then
        if digLen = 1 \<and> val = 0 then None
        else let v = val * 10 + digit_val c in
          if v > 255 then None else parse4 cs v (Suc digLen) fields
      else if c = CHR ''.'' then
        if digLen = 0 \<or> cs = [] then None
        else if length fields = 3 then None
        else parse4 cs 0 0 (fields @ [of_nat val])
      else None)"

fun ip4_string :: "byte list \<Rightarrow> string" where
  "ip4_string [] = []"
| "ip4_string [b] = itoa (unat b)"
| "ip4_string (b # b' # bs) = itoa (unat b) @ CHR ''.'' # ip4_string (b' # bs)"

subsection \<open>IPv6 text\<close>

definition is_hex :: "char \<Rightarrow> bool" where
  "is_hex c \<longleftrightarrow> is_digit c \<or> (97 \<le> code c \<and> code c \<le> 102) \<or> (65 \<le> code c \<and> code c \<le> 70)"

definition hex_val :: "char \<Rightarrow> nat" where
  "hex_val c = (if is_digit c then digit_val c
     else if 97 \<le> code c then code c - 87 else code c - 55)"

definition hex_chunk :: "string \<Rightarrow> byte list" where
  \<comment> \<open>the 16-bit value of at most four digits, high byte first\<close>
  "hex_chunk h = (let acc = foldl (\<lambda>a c. a * 16 + hex_val c) 0 h in
     [of_nat (acc div 256), of_nat (acc mod 256)])"

lemma shorter_rest:
  "takeWhile P s \<noteq> [] \<Longrightarrow> length (dropWhile P s) - k < length s"
  using length_dropWhile_le [of P "tl s"] by (cases s) (auto split: if_splits)

text \<open>
  The group loop of \<^verbatim>\<open>parseIPv6\<close>: the rest of the text, the bytes so far and the position
  of the ellipsis; \<open>None\<close> is a parse error.
\<close>

function parse6_loop :: "string \<Rightarrow> byte list \<Rightarrow> nat option \<Rightarrow>
    (string \<times> byte list \<times> nat option) option" where
  "parse6_loop s ip ell =
     (if 16 \<le> length ip then Some (s, ip, ell)
      else let h = takeWhile is_hex s; rest = dropWhile is_hex s in
        if h = [] \<or> 4 < length h then None
        else if rest \<noteq> [] \<and> hd rest = CHR ''.'' then
          if ell = None \<and> length ip \<noteq> 12 then None
          else if 16 < length ip + 4 then None
          else (case parse4 s 0 0 [] of None \<Rightarrow> None | Some b \<Rightarrow> Some ([], ip @ b, ell))
        else if rest = [] then Some ([], ip @ hex_chunk h, ell)
        else if hd rest \<noteq> CHR '':'' \<or> length rest = 1 then None
        else let ip' = ip @ hex_chunk h; s1 = tl rest in
          if hd s1 = CHR '':'' then
            if ell \<noteq> None then None
            else if tl s1 = [] then Some ([], ip', Some (length ip'))
            else parse6_loop (tl s1) ip' (Some (length ip'))
          else parse6_loop s1 ip' ell)"
  by pat_completeness auto
termination
  by (relation "measure (\<lambda>(s, ip, ell). length s)") (auto simp: shorter_rest)

declare parse6_loop.simps [simp del]

definition parse6 :: "string \<Rightarrow> byte list option" where
  \<comment> \<open>a text with a zone is refused by \<^verbatim>\<open>net.ParseIP\<close>\<close>
  "parse6 s =
     (if CHR ''%'' \<in> set s then None
      else let ell0 = hasPrefix s ''::''; s0 = (if ell0 then drop 2 s else s) in
        if ell0 \<and> s0 = [] then Some (replicate 16 0)
        else case parse6_loop s0 [] (if ell0 then Some 0 else None) of
          None \<Rightarrow> None
        | Some (rest, ip, ell) \<Rightarrow>
            if rest \<noteq> [] then None
            else if length ip < 16 then
              (case ell of None \<Rightarrow> None
               | Some e \<Rightarrow> Some (take e ip @ replicate (16 - length ip) 0 @ drop e ip))
            else if ell \<noteq> None then None else Some ip)"

subsection \<open>ParseIP, To4\<close>

datatype addr = V4 "byte list" | V6 "byte list"

text \<open>\<^verbatim>\<open>netip.ParseAddr\<close> without zones: the first dot or colon decides the family.\<close>

definition parseAddr :: "string \<Rightarrow> addr option" where
  "parseAddr s =
     (case dropWhile (\<lambda>c. c \<notin> {CHR ''.'', CHR '':'', CHR ''%''}) s of
        [] \<Rightarrow> None
      | c # _ \<Rightarrow>
          if c = CHR ''.'' then map_option V4 (parse4 s 0 0 [])
          else if c = CHR '':'' then map_option V6 (parse6 s)
          else None)"

definition v4InV6Prefix :: "byte list" where
  "v4InV6Prefix = replicate 10 0 @ [255, 255]"

definition as16 :: "addr \<Rightarrow> net_ip" where
  "as16 a = (case a of V4 b \<Rightarrow> v4InV6Prefix @ b | V6 b \<Rightarrow> b)"

definition bitLen :: "addr \<Rightarrow> nat" where
  "bitLen a = (case a of V4 _ \<Rightarrow> 32 | V6 _ \<Rightarrow> 128)"

definition parseIP :: "string \<Rightarrow> net_ip option" where
  "parseIP s = map_option as16 (parseAddr s)"

definition to4 :: "net_ip \<Rightarrow> net_ip option" where
  "to4 ip = (if length ip = 4 then Some ip
     else if length ip = 16 \<and> take 12 ip = v4InV6Prefix then Some (drop 12 ip)
     else None)"

subsection \<open>ParseCIDR\<close>

text \<open>\<^verbatim>\<open>dtoi\<close>: the value and the rest after the digits; it fails at \<open>0xFFFFFF\<close>.\<close>

fun dtoi_loop :: "string \<Rightarrow> nat \<Rightarrow> (nat \<times> string) option" where
  "dtoi_loop [] n = Some (n, [])"
| "dtoi_loop (c # cs) n =
     (if is_digit c then
        (let n' = n * 10 + digit_val c in if 16777215 \<le> n' then None else dtoi_loop cs n')
      else Some (n, c # cs))"

definition dtoi :: "string \<Rightarrow> (nat \<times> string) option" where
  "dtoi s = (if s = [] \<or> \<not> is_digit (hd s) then None else dtoi_loop s 0)"

definition mask_byte :: "nat \<Rightarrow> nat \<Rightarrow> byte" where
  \<comment> \<open>byte \<open>i\<close> of the mask with \<open>ones\<close> leading ones\<close>
  "mask_byte ones i = (if 8 * i + 8 \<le> ones then 255
     else if ones \<le> 8 * i then 0
     else NOT (drop_bit (ones - 8 * i) 255))"

definition cidrMask :: "nat \<Rightarrow> nat \<Rightarrow> byte list" where
  "cidrMask ones bits = map (mask_byte ones) [0 ..< bits div 8]"

record ip_net =
  net_addr :: net_ip
  net_ones :: nat
  net_bits :: nat

definition ip_mask :: "net_ip \<Rightarrow> byte list \<Rightarrow> net_ip" where
  "ip_mask ip m =
     (let ip' = (if length m = 4 \<and> length ip = 16 \<and> take 12 ip = v4InV6Prefix
                 then drop 12 ip else ip)
      in if length ip' \<noteq> length m then [] else map2 (\<lambda>a b. a AND b) ip' m)"

definition parseCIDR :: "string \<Rightarrow> ip_net option" where
  "parseCIDR s =
     (if CHR ''/'' \<notin> set s then None
      else case parseAddr (takeWhile (\<lambda>c. c \<noteq> CHR ''/'') s) of
        None \<Rightarrow> None
      | Some a \<Rightarrow>
          (case dtoi (tl (dropWhile (\<lambda>c. c \<noteq> CHR ''/'') s)) of
             None \<Rightarrow> None
           | Some (n, rest) \<Rightarrow>
               if rest \<noteq> [] \<or> bitLen a < n then None
               else Some \<lparr>net_addr = ip_mask (as16 a) (cidrMask n (bitLen a)),
                          net_ones = n, net_bits = bitLen a\<rparr>))"

text \<open>
  \<^verbatim>\<open>IPNet.String\<close> of a network whose address is IPv4: the last 32 bits of a 128-bit mask
  are used for a mapped address. The program calls it only after \<^verbatim>\<open>To4\<close> succeeded.
\<close>

definition ipnet4_string :: "ip_net \<Rightarrow> net_ip \<Rightarrow> string" where
  "ipnet4_string n ip4 = ip4_string ip4 @ CHR ''/'' #
     itoa (if net_bits n = 128 then net_ones n - 96 else net_ones n)"

subsection \<open>Host and port\<close>

definition splitHostPort :: "string \<Rightarrow> (string \<times> string) option" where
  "splitHostPort hp =
     (if CHR '':'' \<notin> set hp then None
      else let port = rev (takeWhile (\<lambda>c. c \<noteq> CHR '':'') (rev hp));
               i = length hp - length port - 1
        in if hd hp = CHR ''['' then
             if CHR '']'' \<notin> set hp then None
             else let e = length (takeWhile (\<lambda>c. c \<noteq> CHR '']'') hp) in
               if e + 1 \<noteq> i then None
               else if CHR ''['' \<in> set (drop 1 hp) \<or> CHR '']'' \<in> set (drop (e + 1) hp) then None
               else Some (drop 1 (take e hp), port)
           else let host = take i hp in
             if CHR '':'' \<in> set host then None
             else if CHR ''['' \<in> set hp \<or> CHR '']'' \<in> set hp then None
             else Some (host, port))"

definition joinHostPort :: "string \<Rightarrow> string \<Rightarrow> string" where
  "joinHostPort host port =
     (if CHR '':'' \<in> set host then ''['' @ host @ '']:'' @ port else host @ '':'' @ port)"

subsection \<open>Printing and parsing dotted decimal\<close>

lemma unat_of_nat8 [simp]: "n \<le> 255 \<Longrightarrow> unat (of_nat n :: byte) = n"
  by (simp add: unat_of_nat)

lemma unat_le_255 [simp]: "unat (b :: byte) \<le> 255"
  using unsigned_less [of b, where 'a = nat] by simp

lemma parse4_itoa:
  "n \<le> 255 \<Longrightarrow> parse4 (itoa n @ s) 0 0 fs = parse4 s n (length (itoa n)) fs"
proof (induction n arbitrary: s rule: itoa.induct)
  case (1 n)
  show ?case
  proof (cases "n < 10")
    case True
    then show ?thesis by (simp add: itoa_small)
  next
    case False
    then have e: "itoa n = itoa (n div 10) @ [digit_char (n mod 10)]"
      by (subst itoa.simps) simp
    have "parse4 (itoa n @ s) 0 0 fs =
        parse4 (digit_char (n mod 10) # s) (n div 10) (length (itoa (n div 10))) fs"
      unfolding e using 1 False by simp
    moreover have "n div 10 \<noteq> 0" using False by arith
    ultimately show ?thesis using False e 1(2) by (simp add: Let_def)
  qed
qed

lemma parse4_ip4_string:
  assumes "length bs = 4"
  shows "parse4 (ip4_string bs) 0 0 [] = Some bs"
proof -
  obtain a b c d where "bs = [a, b, c, d]"
    using assms by (auto simp: numeral_eq_Suc length_Suc_conv)
  then show ?thesis
    using parse4_itoa [of "unat d" "[]"] by (simp add: parse4_itoa)
qed

lemma parse4_length: "parse4 s v dl fs = Some r \<Longrightarrow> length fs \<le> 3 \<Longrightarrow> length r = 4"
  by (induction s v dl fs rule: parse4.induct) (auto simp: Let_def split: if_splits)

lemma ip4_string_snoc:
  "ip4_string (fs @ [b]) = concat (map (\<lambda>b. itoa (unat b) @ ''.'') fs) @ itoa (unat b)"
  by (induction fs rule: ip4_string.induct) auto

text \<open>
  Octets with leading zeros are refused, so a text that parses is the canonical one.
\<close>

lemma parse4_canonical:
  "parse4 s v dl fs = Some r \<Longrightarrow> v \<le> 255 \<Longrightarrow> (v = 0 \<longrightarrow> dl \<le> 1) \<Longrightarrow>
   (dl = 0 \<longrightarrow> v = 0 \<and> (fs \<noteq> [] \<longrightarrow> s \<noteq> [])) \<Longrightarrow>
   ip4_string r = concat (map (\<lambda>b. itoa (unat b) @ ''.'') fs) @ (if dl = 0 then [] else itoa v) @ s"
proof (induction s v dl fs rule: parse4.induct)
  case (1 v dl fs)
  then show ?case by (auto simp: ip4_string_snoc split: if_splits)
next
  case (2 c cs v dl fs)
  show ?case
  proof (cases "is_digit c")
    case True
    let ?v = "v * 10 + digit_val c"
    have ok: "\<not> (dl = 1 \<and> v = 0)" "?v \<le> 255" "parse4 cs ?v (Suc dl) fs = Some r"
      using 2(3) True by (auto simp: Let_def split: if_splits)
    have "ip4_string r = concat (map (\<lambda>b. itoa (unat b) @ ''.'') fs) @ itoa ?v @ cs"
      using 2(1) [OF True ok(1) refl] ok 2(4,5,6) by (auto simp: not_less)
    moreover have "itoa ?v = (if dl = 0 then [] else itoa v) @ [c]"
      using True ok(1) 2(5,6) digit_val_less [OF True]
      by (cases "v = 0") (auto simp: itoa_small itoa_step)
    ultimately show ?thesis by simp
  next
    case False
    then have "c = CHR ''.''" "dl \<noteq> 0" "cs \<noteq> []" "length fs \<noteq> 3"
        "parse4 cs 0 0 (fs @ [of_nat v]) = Some r"
      using 2(3) by (auto split: if_splits)
    with 2(2) [OF False] 2(4) show ?thesis by simp
  qed
qed

lemma parse4_string: "parse4 s 0 0 [] = Some r \<Longrightarrow> ip4_string r = s"
  by (drule parse4_canonical) auto

lemma set_ip4_string: "c \<in> set (ip4_string bs) \<Longrightarrow> is_digit c \<or> c = CHR ''.''"
  by (induction bs rule: ip4_string.induct) (auto dest: itoa_digits)

subsection \<open>Addresses\<close>

lemma to4_length: "to4 ip = Some q \<Longrightarrow> length q = 4"
  by (auto simp: to4_def split: if_splits)

lemma to4_prefix [simp]: "length b = 4 \<Longrightarrow> to4 (v4InV6Prefix @ b) = Some b"
  by (simp add: to4_def v4InV6Prefix_def)

lemma to4_self [simp]: "length b = 4 \<Longrightarrow> to4 b = Some b"
  by (simp add: to4_def)

lemma parseAddr_ip4_string:
  assumes "length bs = 4"
  shows "parseAddr (ip4_string bs) = Some (V4 bs)"
proof -
  obtain a b bs' where bs: "bs = a # b # bs'"
    using assms by (auto simp: numeral_eq_Suc length_Suc_conv)
  have "dropWhile (\<lambda>c. c \<notin> {CHR ''.'', CHR '':'', CHR ''%''}) (itoa (unat a)) = []"
    by (auto dest!: itoa_digits simp: is_digit_def code_def)
  then have "dropWhile (\<lambda>c. c \<notin> {CHR ''.'', CHR '':'', CHR ''%''}) (ip4_string bs) =
      CHR ''.'' # ip4_string (b # bs')"
    unfolding bs by (subst ip4_string.simps(3), subst dropWhile_append2)
      (auto dest!: itoa_digits simp: is_digit_def code_def)
  then show ?thesis
    using parse4_ip4_string [OF assms] by (simp add: parseAddr_def)
qed

lemma parseIP_ip4_string:
  "length bs = 4 \<Longrightarrow> parseIP (ip4_string bs) = Some (v4InV6Prefix @ bs)"
  by (simp add: parseIP_def parseAddr_ip4_string as16_def)

lemma ip4_string_inject:
  "length a = 4 \<Longrightarrow> length b = 4 \<Longrightarrow> ip4_string a = ip4_string b \<longleftrightarrow> a = b"
  by (metis option.inject parse4_ip4_string)

subsection \<open>Networks\<close>

lemma dtoi_loop_itoa: "n < 16777215 \<Longrightarrow> dtoi_loop (itoa n @ s) 0 = dtoi_loop s n"
proof (induction n arbitrary: s rule: itoa.induct)
  case (1 n)
  show ?case
  proof (cases "n < 10")
    case True
    with 1 show ?thesis by (simp add: itoa_small)
  next
    case False
    then have "itoa n = itoa (n div 10) @ [digit_char (n mod 10)]"
      by (subst itoa.simps) simp
    with 1 False show ?thesis by simp
  qed
qed

lemma dtoi_itoa: "n < 16777215 \<Longrightarrow> dtoi (itoa n) = Some (n, [])"
  using dtoi_loop_itoa [of n "[]"] itoa_digits [of "hd (itoa n)" n] by (simp add: dtoi_def)

lemma length_cidrMask [simp]: "length (cidrMask n bits) = bits div 8"
  by (simp add: cidrMask_def)

lemma mask_byte_shift: "8 * k \<le> n \<Longrightarrow> mask_byte n (k + i) = mask_byte (n - 8 * k) i"
  by (simp add: mask_byte_def algebra_simps le_diff_conv2 le_diff_conv)

lemma map2_and_idem: "map2 (\<lambda>a b. a AND b) (map2 (\<lambda>a b. a AND b) xs ms) ms =
    map2 (\<lambda>a b. a AND (b :: byte)) xs ms"
  by (induction xs ms rule: list_induct2') (auto simp: and.assoc)

lemma parseCIDR_ip4_string:
  assumes "length b = 4" and "n \<le> 32"
  shows "parseCIDR (ip4_string b @ CHR ''/'' # itoa n) =
    Some \<lparr>net_addr = map2 (\<lambda>a b. a AND b) b (cidrMask n 32), net_ones = n, net_bits = 32\<rparr>"
proof -
  have ns: "\<forall>c \<in> set (ip4_string b). c \<noteq> CHR ''/''"
    by (auto dest: set_ip4_string)
  then have t: "takeWhile (\<lambda>c. c \<noteq> CHR ''/'') (ip4_string b @ CHR ''/'' # itoa n) = ip4_string b"
    and d: "dropWhile (\<lambda>c. c \<noteq> CHR ''/'') (ip4_string b @ CHR ''/'' # itoa n) = CHR ''/'' # itoa n"
    by (simp_all add: takeWhile_append2 dropWhile_append2)
  have "dtoi (itoa n) = Some (n, [])" using assms by (intro dtoi_itoa) simp
  then show ?thesis
    using assms by (simp add: parseCIDR_def t d parseAddr_ip4_string bitLen_def as16_def
        ip_mask_def v4InV6Prefix_def)
qed

end
