(* ===== verification/Resolver_Text.thy ===== *)
theory Resolver_Text
  imports Net_IP
begin

text \<open>
  The text helpers of \<^verbatim>\<open>internal/syncer/resolver.go\<close> (lines 308 to 426): what a line of
  the host list means, the canonical form of an IPv4 address or network, the address of a DNS
  server, the source labels of an entry, and the order in which entries are listed.
\<close>

subsection \<open>Lines and names\<close>

definition normalizeHostnameLine :: "string \<Rightarrow> string" where
  "normalizeHostnameLine line =
     (let line = trimSpace line in
      if line = [] then []
      else if CHR ''#'' \<in> set line then trimSpace (takeWhile (\<lambda>c. c \<noteq> CHR ''#'') line)
      else line)"

definition normalizeIPv4Literal :: "string \<Rightarrow> string option" where
  "normalizeIPv4Literal value =
     (case parseIP (trimSpace value) of
        None \<Rightarrow> None
      | Some ip \<Rightarrow> (case to4 ip of None \<Rightarrow> None | Some ip4 \<Rightarrow> Some (ip4_string ip4)))"

definition normalizeIPv4CIDR :: "string \<Rightarrow> string option" where
  "normalizeIPv4CIDR value =
     (case parseCIDR (trimSpace value) of
        None \<Rightarrow> None
      | Some network \<Rightarrow>
          (case to4 (net_addr network) of
             None \<Rightarrow> None
           | Some ip4 \<Rightarrow> Some (ipnet4_string network ip4)))"

definition normalizeDNSName :: "(string \<Rightarrow> string) \<Rightarrow> string \<Rightarrow> string" where
  "normalizeDNSName ulower name = trimSuffix (toLower ulower (trimSpace name)) ''.''"

definition ensureDNSServerPort :: "string \<Rightarrow> string" where
  "ensureDNSServerPort server =
     (case splitHostPort server of Some _ \<Rightarrow> server | None \<Rightarrow> joinHostPort server ''53'')"

subsection \<open>Source labels\<close>

definition addResolvedSource ::
    "(string, string) gomap \<Rightarrow> string \<Rightarrow> string \<Rightarrow> (string, string) gomap" where
  "addResolvedSource result entry source =
     (let existing = get0 result entry in
      if existing = [] then AList.update entry source result
      else if source \<in> set (split_on '', '' existing) then result
      else AList.update entry (existing @ '', '' @ source) result)"

fun uniqueLoop :: "string list \<Rightarrow> string list \<Rightarrow> string list" where
  "uniqueLoop seen [] = []"
| "uniqueLoop seen (value # values) =
     (if value = [] then uniqueLoop seen values
      else if value \<in> set seen then uniqueLoop seen values
      else value # uniqueLoop (value # seen) values)"

definition uniqueStrings :: "string list \<Rightarrow> string list" where
  "uniqueStrings values = (if values = [] then [] else uniqueLoop [] values)"

subsection \<open>The order of entries\<close>

definition ipSortKey :: "string \<Rightarrow> (byte list \<times> nat) option" where
  "ipSortKey value =
     (case (case parseIP value of None \<Rightarrow> None | Some ip \<Rightarrow> to4 ip) of
        Some ip4 \<Rightarrow> Some (ip4, 32)
      | None \<Rightarrow>
          (case parseCIDR value of
             None \<Rightarrow> None
           | Some network \<Rightarrow>
               (case to4 (net_addr network) of
                  None \<Rightarrow> None
                | Some ip4 \<Rightarrow> Some (ip4, net_ones network))))"

fun bytesCompare :: "byte list \<Rightarrow> byte list \<Rightarrow> int" where
  "bytesCompare [] [] = 0"
| "bytesCompare [] (r # rs) = -1"
| "bytesCompare (l # ls) [] = 1"
| "bytesCompare (l # ls) (r # rs) =
     (if l < r then -1 else if l > r then 1 else bytesCompare ls rs)"

definition bytesLessIP :: "string \<Rightarrow> string \<Rightarrow> bool" where
  "bytesLessIP left right =
     (case (ipSortKey left, ipSortKey right) of
        (Some (leftKey, leftPrefix), Some (rightKey, rightPrefix)) \<Rightarrow>
          (let compare = bytesCompare leftKey rightKey in
           if compare \<noteq> 0 then compare < 0 else leftPrefix < rightPrefix)
      | (Some _, None) \<Rightarrow> True
      | (None, Some _) \<Rightarrow> False
      | (None, None) \<Rightarrow> left < right)"

text \<open>
  The key behind the comparison: an entry with an IPv4 key comes before any other text, keys
  compare by address bytes and then by prefix length, other texts as strings.
\<close>

datatype ip_key = IPKey "byte list" nat | TextKey string

instantiation ip_key :: linorder
begin

fun less_eq_ip_key :: "ip_key \<Rightarrow> ip_key \<Rightarrow> bool" where
  "less_eq_ip_key (IPKey b p) (IPKey b' p') \<longleftrightarrow> b < b' \<or> b = b' \<and> p \<le> p'"
| "less_eq_ip_key (IPKey b p) (TextKey t) \<longleftrightarrow> True"
| "less_eq_ip_key (TextKey t) (IPKey b p) \<longleftrightarrow> False"
| "less_eq_ip_key (TextKey t) (TextKey t') \<longleftrightarrow> t \<le> t'"

definition less_ip_key :: "ip_key \<Rightarrow> ip_key \<Rightarrow> bool" where
  "less_ip_key x y \<longleftrightarrow> x \<le> y \<and> \<not> y \<le> x"

instance
proof
  fix x y z :: ip_key
  show "x < y \<longleftrightarrow> x \<le> y \<and> \<not> y \<le> x" by (simp add: less_ip_key_def)
  show "x \<le> x" by (cases x) auto
  show "x \<le> y \<Longrightarrow> y \<le> z \<Longrightarrow> x \<le> z" by (cases x; cases y; cases z) auto
  show "x \<le> y \<Longrightarrow> y \<le> x \<Longrightarrow> x = y" by (cases x; cases y) auto
  show "x \<le> y \<or> y \<le> x" by (cases x; cases y) auto
qed

end

definition ip_key :: "string \<Rightarrow> ip_key" where
  "ip_key s = (case ipSortKey s of Some (b, p) \<Rightarrow> IPKey b p | None \<Rightarrow> TextKey s)"

lemma bytesCompare_lex:
  "bytesCompare l r < 0 \<longleftrightarrow> l < r" "bytesCompare l r = 0 \<longleftrightarrow> l = r"
  by (induction l r rule: bytesCompare.induct) auto

lemma bytesLessIP_key: "bytesLessIP l r \<longleftrightarrow> ip_key l < ip_key r"
  by (auto simp: bytesLessIP_def ip_key_def less_ip_key_def bytesCompare_lex Let_def
      split: option.splits prod.splits)

interpretation ips: slice_order bytesLessIP ip_key
  by unfold_locales (rule bytesLessIP_key)

subsection \<open>Lemmas: lines\<close>

lemma normalizeHostnameLine_props:
  "trimmed (normalizeHostnameLine s)" "CHR ''#'' \<notin> set (normalizeHostnameLine s)"
  "set (normalizeHostnameLine s) \<subseteq> set s"
proof -
  have "trimmed []" by (simp add: trimmed_def)
  then show "trimmed (normalizeHostnameLine s)" by (simp add: normalizeHostnameLine_def Let_def)
  have "set (trimSpace (takeWhile P (trimSpace s))) \<subseteq> set s" for P
    using trimSpace_sub [of "takeWhile P (trimSpace s)"] trimSpace_sub [of s]
    by (auto dest: set_takeWhileD)
  moreover have "CHR ''#'' \<notin> set (trimSpace (takeWhile (\<lambda>c. c \<noteq> CHR ''#'') (trimSpace s)))"
    using trimSpace_sub [of "takeWhile (\<lambda>c. c \<noteq> CHR ''#'') (trimSpace s)"]
    by (auto dest: set_takeWhileD)
  ultimately show "CHR ''#'' \<notin> set (normalizeHostnameLine s)"
    and "set (normalizeHostnameLine s) \<subseteq> set s"
    using trimSpace_sub [of s] by (auto simp: normalizeHostnameLine_def Let_def)
qed

lemma normalizeHostnameLine_fix:
  "trimmed s \<Longrightarrow> CHR ''#'' \<notin> set s \<Longrightarrow> normalizeHostnameLine s = s"
  by (simp add: normalizeHostnameLine_def Let_def trimSpace_trimmed)

subsection \<open>Lemmas: unique strings\<close>

lemma uniqueLoop_props:
  "set (uniqueLoop seen vs) = set vs - set seen - {[]}"
  "distinct (uniqueLoop seen vs)"
  by (induction seen vs rule: uniqueLoop.induct) auto

lemma set_uniqueStrings [simp]: "set (uniqueStrings vs) = set vs - {[]}"
  by (auto simp: uniqueStrings_def uniqueLoop_props)

lemma distinct_uniqueStrings [simp]: "distinct (uniqueStrings vs)"
  by (simp add: uniqueStrings_def uniqueLoop_props)

lemma uniqueLoop_id:
  "distinct vs \<Longrightarrow> [] \<notin> set vs \<Longrightarrow> set vs \<inter> set seen = {} \<Longrightarrow> uniqueLoop seen vs = vs"
  by (induction seen vs rule: uniqueLoop.induct) auto

lemma uniqueStrings_idem [simp]: "uniqueStrings (uniqueStrings vs) = uniqueStrings vs"
proof -
  have "uniqueLoop [] (uniqueStrings vs) = uniqueStrings vs"
    by (rule uniqueLoop_id) auto
  then show ?thesis by (cases "uniqueStrings vs = []") (simp_all add: uniqueStrings_def)
qed

lemma uniqueStrings_eq_Nil: "uniqueStrings vs = [] \<longleftrightarrow> set vs \<subseteq> {[]}"
  by (metis Diff_eq_empty_iff set_empty set_uniqueStrings)

lemma uniqueLoop_append:
  "uniqueLoop seen (xs @ ys) = uniqueLoop seen xs @ uniqueLoop (rev (uniqueLoop seen xs) @ seen) ys"
  by (induction seen xs rule: uniqueLoop.induct) auto

text \<open>A list put in front keeps its place: its strings come first, in the same order.\<close>

lemma uniqueStrings_append:
  "\<exists>zs. uniqueStrings (xs @ ys) = uniqueStrings xs @ zs \<and> set zs = set ys - set xs - {[]}"
  by (cases "xs = []"; cases "ys = []")
    (auto simp: uniqueStrings_def uniqueLoop_append uniqueLoop_props)

subsection \<open>Lemmas: canonical entries\<close>

text \<open>
  The canonical texts: a dotted quad without leading zeros, and a quad with the bits after the
  prefix cleared, followed by the prefix length.
\<close>

definition ip4_text :: "string \<Rightarrow> bool" where
  "ip4_text e \<longleftrightarrow> parse4 e 0 0 [] \<noteq> None"

definition cidr4_string :: "byte list \<Rightarrow> nat \<Rightarrow> string" where
  "cidr4_string b n = ip4_string (map2 (\<lambda>a m. a AND m) b (cidrMask n 32)) @ CHR ''/'' # itoa n"

definition cidr4_text :: "string \<Rightarrow> bool" where
  "cidr4_text e \<longleftrightarrow> (\<exists>b n. length b = 4 \<and> n \<le> 32 \<and> e = cidr4_string b n)"

lemma ip4_text_iff: "ip4_text e \<longleftrightarrow> (\<exists>b. length b = 4 \<and> e = ip4_string b)"
  unfolding ip4_text_def
proof
  assume "parse4 e 0 0 [] \<noteq> None"
  then obtain b where b: "parse4 e 0 0 [] = Some b" by auto
  then show "\<exists>b. length b = 4 \<and> e = ip4_string b"
    using parse4_length [OF b] parse4_string [OF b] by (intro exI [of _ b]) simp
qed (auto simp: parse4_ip4_string)

lemma ip4_textI [intro]: "length b = 4 \<Longrightarrow> ip4_text (ip4_string b)"
  by (auto simp: ip4_text_iff)

text \<open>Texts of digits, dots and slashes have nothing to trim.\<close>

definition graphic :: "char \<Rightarrow> bool" where
  "graphic c \<longleftrightarrow> 33 \<le> code c \<and> code c < 128"

lemma graphic_no_space:
  "graphic a \<Longrightarrow> \<not> space1 a" "graphic a \<Longrightarrow> \<not> space2 a b" "graphic a \<Longrightarrow> \<not> space3 a b c"
  by (auto simp: graphic_def code_def space1_def space2_def space3_def Let_def)

lemma graphic_trimmed: "\<forall>c \<in> set s. graphic c \<Longrightarrow> trimmed s"
  unfolding trimmed_def
proof
  assume g: "\<forall>c \<in> set s. graphic c"
  then show "space_len s = 0"
    by (cases s rule: space_len.cases) (simp_all add: graphic_no_space)
  have "\<forall>c \<in> set (rev s). graphic c" using g by simp
  then show "space_len_rev (rev s) = 0"
    by (cases "rev s" rule: space_len_rev.cases) (simp_all add: graphic_no_space)
qed

lemma graphic_digit: "is_digit c \<or> c = CHR ''.'' \<or> c = CHR ''/'' \<Longrightarrow> graphic c"
  by (auto simp: graphic_def is_digit_def code_def)

lemma plain_trimmed:
  "\<forall>c \<in> set s. is_digit c \<or> c = CHR ''.'' \<or> c = CHR ''/'' \<Longrightarrow> trimSpace s = s"
  by (intro trimSpace_trimmed graphic_trimmed) (auto intro: graphic_digit)

lemma trimSpace_ip4_string [simp]: "trimSpace (ip4_string b) = ip4_string b"
  by (rule plain_trimmed) (auto dest: set_ip4_string)

lemma trimSpace_cidr4_string [simp]: "trimSpace (cidr4_string b n) = cidr4_string b n"
  by (rule plain_trimmed) (auto simp: cidr4_string_def dest: set_ip4_string itoa_digits)

lemma normalizeIPv4Literal_ip4_string:
  "length b = 4 \<Longrightarrow> normalizeIPv4Literal (ip4_string b) = Some (ip4_string b)"
  by (simp add: normalizeIPv4Literal_def parseIP_ip4_string)

lemma normalizeIPv4Literal_text: "normalizeIPv4Literal v = Some e \<Longrightarrow> ip4_text e"
  by (auto simp: normalizeIPv4Literal_def dest: to4_length split: option.splits)

lemma parseAddr_V4: "parseAddr s = Some (V4 b) \<Longrightarrow> s = ip4_string b \<and> length b = 4"
  by (auto simp: parseAddr_def dest: parse4_string parse4_length split: list.splits if_splits)

lemma to4_map2_mask:
  assumes "length ip = 16" "n \<le> 128"
    and "to4 (map2 (\<lambda>a m. a AND m) ip (cidrMask n 128)) = Some q"
  shows "96 \<le> n \<and> q = map2 (\<lambda>a m. a AND m) (drop 12 ip) (cidrMask (n - 96) 32)"
proof -
  let ?m = "map2 (\<lambda>a m. a AND m) ip (cidrMask n 128)"
  have t: "take 12 ?m = v4InV6Prefix" and q: "q = drop 12 ?m"
    using assms by (auto simp: to4_def split: if_splits)
  have "?m ! 11 = 255"
    using arg_cong [OF t, of "\<lambda>l. l ! 11"] by (simp add: v4InV6Prefix_def nth_append)
  then have and255: "(ip ! 11) AND (cidrMask n 128 ! 11) = 255"
    using assms(1) by simp
  have n96: "96 \<le> n"
  proof (rule ccontr)
    assume "\<not> 96 \<le> n"
    then consider "n \<le> 88" | "n - 88 \<in> {1, 2, 3, 4, 5, 6, 7}" "88 < n" by fastforce
    then have "cidrMask n 128 ! 11 \<in> {0, 128, 192, 224, 240, 248, 252, 254}"
    proof cases
      case 1
      then show ?thesis by (simp add: cidrMask_def mask_byte_def)
    next
      case 2
      then show ?thesis using \<open>\<not> 96 \<le> n\<close> by (auto simp: cidrMask_def mask_byte_def drop_bit_eq_div)
    qed
    then have "\<not> bit (cidrMask n 128 ! 11) 0"
      by (auto simp: bit_0)
    then have "\<not> bit ((ip ! 11) AND (cidrMask n 128 ! 11)) 0"
      by (simp add: bit_and_iff)
    with and255 show False by (simp add: bit_0)
  qed
  have "drop 12 (cidrMask n 128) = cidrMask (n - 96) 32"
  proof (rule nth_equalityI)
    fix i assume "i < length (drop 12 (cidrMask n 128))"
    then show "drop 12 (cidrMask n 128) ! i = cidrMask (n - 96) 32 ! i"
      using n96 mask_byte_shift [of 12 n i] by (simp add: cidrMask_def)
  qed simp
  with q n96 show ?thesis by (simp add: drop_map drop_zip)
qed

lemma normalizeIPv4CIDR_text:
  assumes "normalizeIPv4CIDR v = Some e"
  shows "cidr4_text e"
proof -
  obtain w q where w: "parseCIDR (trimSpace v) = Some w" "to4 (net_addr w) = Some q"
      "e = ipnet4_string w q"
    using assms by (auto simp: normalizeIPv4CIDR_def split: option.splits)
  from w(1) obtain a n where a: "w = \<lparr>net_addr = ip_mask (as16 a) (cidrMask n (bitLen a)),
      net_ones = n, net_bits = bitLen a\<rparr>" "n \<le> bitLen a"
      "parseAddr (takeWhile (\<lambda>c. c \<noteq> CHR ''/'') (trimSpace v)) = Some a"
    unfolding parseCIDR_def by (auto simp: not_less split: option.splits if_splits)
  show ?thesis
  proof (cases a)
    case (V4 b)
    with a have "length b = 4" by (auto dest: parseAddr_V4)
    with V4 a w show ?thesis
      by (auto simp: cidr4_text_def cidr4_string_def ipnet4_string_def as16_def bitLen_def
          ip_mask_def v4InV6Prefix_def intro!: exI [of _ b] exI [of _ n])
  next
    case (V6 b)
    have l: "length b = 16"
      using w(2) a(1) V6 by (auto simp: ip_mask_def bitLen_def as16_def to4_def split: if_splits)
    then have "to4 (map2 (\<lambda>a m. a AND m) b (cidrMask n 128)) = Some q"
      using w(2) a(1) V6 by (simp add: ip_mask_def bitLen_def as16_def)
    from to4_map2_mask [OF l _ this] a(2) V6
    have "96 \<le> n" "q = map2 (\<lambda>a m. a AND m) (drop 12 b) (cidrMask (n - 96) 32)"
      by (auto simp: bitLen_def)
    then show ?thesis using a V6 w(3) l
      by (auto simp: cidr4_text_def cidr4_string_def ipnet4_string_def bitLen_def
          intro!: exI [of _ "drop 12 b"] exI [of _ "n - 96"])
  qed
qed

lemma normalizeIPv4CIDR_cidr4_string:
  assumes "length b = 4" "n \<le> 32"
  shows "normalizeIPv4CIDR (cidr4_string b n) = Some (cidr4_string b n)"
proof -
  have "length (map2 (\<lambda>a m. a AND m) b (cidrMask n 32)) = 4" using assms by simp
  from parseCIDR_ip4_string [OF this assms(2)] show ?thesis
    using assms unfolding normalizeIPv4CIDR_def trimSpace_cidr4_string
    by (simp add: cidr4_string_def map2_and_idem ipnet4_string_def)
qed

lemma parseIP_slash: "CHR ''/'' \<in> set s \<Longrightarrow> CHR '':'' \<notin> set s \<Longrightarrow> parseIP s = None"
  by (auto simp: parseIP_def parseAddr_def dest!: parse4_string set_ip4_string
      dest: set_dropWhileD split: list.splits)
    (metis list.set_intros(1) set_dropWhileD)

lemma ip_key_ip4_string: "length b = 4 \<Longrightarrow> ip_key (ip4_string b) = IPKey b 32"
  by (simp add: ip_key_def ipSortKey_def parseIP_ip4_string)

lemma ip_key_cidr4_string:
  assumes "length b = 4" "n \<le> 32"
  shows "ip_key (cidr4_string b n) = IPKey (map2 (\<lambda>a m. a AND m) b (cidrMask n 32)) n"
proof -
  have "length (map2 (\<lambda>a m. a AND m) b (cidrMask n 32)) = 4" using assms by simp
  note p = parseCIDR_ip4_string [OF this assms(2)]
  have "parseIP (cidr4_string b n) = None"
    by (rule parseIP_slash) (auto simp: cidr4_string_def dest: set_ip4_string itoa_digits)
  with p assms show ?thesis
    by (simp add: ip_key_def ipSortKey_def map2_and_idem) (simp add: cidr4_string_def)
qed

text \<open>
  Entries as the resolver makes them. Two of them have the same key only when one is an address
  and the other the same address written as a network of one host.
\<close>

definition entry_text :: "string \<Rightarrow> bool" where
  "entry_text e \<longleftrightarrow> ip4_text e \<or> cidr4_text e"

definition host_net :: "string \<Rightarrow> bool" where
  "host_net e \<longleftrightarrow> hasSuffix e ''/32''"

lemma cidr4_host_net: "host_net (cidr4_string b 32)"
proof -
  have "itoa 32 = ''32''" by code_simp
  then show ?thesis by (simp add: host_net_def hasSuffix_def cidr4_string_def)
qed

lemma ip_key_inj: "inj_on ip_key {e. entry_text e \<and> \<not> host_net e}"
proof (rule inj_onI)
  have cidr: "\<exists>b n. length b = 4 \<and> n < 32 \<and> e = cidr4_string b n"
    if "cidr4_text e" "\<not> host_net e" for e
    using that cidr4_host_net unfolding cidr4_text_def by (metis le_neq_implies_less)
  fix x y assume "x \<in> {e. entry_text e \<and> \<not> host_net e}" "y \<in> {e. entry_text e \<and> \<not> host_net e}"
    and "ip_key x = ip_key y"
  then show "x = y"
    by (auto simp: entry_text_def ip4_text_iff ip_key_ip4_string ip_key_cidr4_string
        dest!: cidr) (auto simp: cidr4_string_def)
qed

subsection \<open>Lemmas: DNS server addresses\<close>

lemma splitHostPort_plain:
  "CHR '':'' \<notin> set h \<Longrightarrow> CHR ''['' \<notin> set h \<Longrightarrow> CHR '']'' \<notin> set h \<Longrightarrow>
   splitHostPort (h @ '':53'') = Some (h, ''53'')"
  by (cases h) (auto simp: splitHostPort_def Let_def)

lemma splitHostPort_bracket:
  assumes "CHR ''['' \<notin> set h" "CHR '']'' \<notin> set h"
  shows "splitHostPort (CHR ''['' # h @ '']:53'') = Some (h, ''53'')"
proof -
  have "takeWhile (\<lambda>c. c \<noteq> CHR '']'') (h @ '']:53'') = h"
    using assms(2) by (subst takeWhile_append2) auto
  then show ?thesis using assms by (simp add: splitHostPort_def Let_def)
qed

lemma ensureDNSServerPort_valid:
  assumes "CHR ''['' \<notin> set server" "CHR '']'' \<notin> set server"
  shows "splitHostPort (ensureDNSServerPort server) \<noteq> None"
  using assms splitHostPort_plain [of server] splitHostPort_bracket [of server]
  by (auto simp: ensureDNSServerPort_def joinHostPort_def split: option.splits)

subsection \<open>Lemmas: source labels\<close>

text \<open>The labels of an entry, as the comma-separated text stores them.\<close>

definition labels :: "(string, string) gomap \<Rightarrow> string \<Rightarrow> string list" where
  "labels result entry =
     (if get0 result entry = [] then [] else split_on '', '' (get0 result entry))"

definition atomic_label :: "string \<Rightarrow> bool" where
  "atomic_label source \<longleftrightarrow> source \<noteq> [] \<and> split_on '', '' source = [source]"

lemma labels_update: "labels (AList.update e v m) e' =
    (if e' = e then (if v = [] then [] else split_on '', '' v) else labels m e')"
  by (simp add: labels_def get0_update)

lemma labels_addResolvedSource:
  assumes "atomic_label source"
  shows "labels (addResolvedSource m e source) e' =
    (if e' = e then add_key source (labels m e) else labels m e')"
proof -
  have split: "split_on '', '' (get0 m e @ '', '' @ source) = split_on '', '' (get0 m e) @ [source]"
    using split_on_append2 [of "CHR '',''" "CHR '' ''" "get0 m e" source] assms
    by (simp add: atomic_label_def)
  show ?thesis
  proof (cases "get0 m e = []")
    case True
    then have "addResolvedSource m e source = AList.update e source m" "labels m e = []"
      by (simp_all add: addResolvedSource_def labels_def)
    with assms show ?thesis by (simp add: labels_update add_key_def atomic_label_def)
  next
    case False
    then have l: "labels m e = split_on '', '' (get0 m e)" by (simp add: labels_def)
    have "addResolvedSource m e source = (if source \<in> set (labels m e) then m
        else AList.update e (get0 m e @ '', '' @ source) m)"
      using False by (simp add: addResolvedSource_def l)
    with split show ?thesis by (simp add: labels_update add_key_def l)
  qed
qed

lemma keys_addResolvedSource [simp]:
  "fst ` set (addResolvedSource m e source) = insert e (fst ` set m)"
proof -
  have "get0 m e \<noteq> [] \<Longrightarrow> e \<in> fst ` set m" using get0_notin [of e m] by auto
  then show ?thesis by (auto simp: addResolvedSource_def Let_def)
qed

lemma distinct_keys_addResolvedSource [simp]:
  "distinct (keys m) \<Longrightarrow> distinct (keys (addResolvedSource m e source))"
  by (simp add: addResolvedSource_def Let_def)

lemma get0_addResolvedSource_other:
  "e' \<noteq> e \<Longrightarrow> get0 (addResolvedSource m e source) e' = get0 m e'"
  by (simp add: addResolvedSource_def Let_def get0_update)

end
