(* ===== verification/Dns_Resolver.thy ===== *)
theory Dns_Resolver
  imports Resolver_Text
begin

text \<open>
  The resolver of \<^verbatim>\<open>internal/syncer/resolver.go\<close> (lines 14 to 306): DNS lookups against
  several servers, discovery of authoritative servers, and the resolution of a host list.

  The network is an argument. \<open>exchange_fn\<close> gives the answer to a query from the history of
  all exchanges so far, so answers may change over time, fail or time out; every exchange is
  appended to the trace that the functions thread through, in the order the code makes them.
  Functions of the \<^verbatim>\<open>miekg/dns\<close> package (\<open>fqdn\<close>, \<open>splitDomainName\<close>, the names of
  response codes), the iteration order of Go maps and the Unicode case tables are arguments too.
\<close>

datatype rr = RR_A net_ip | RR_CNAME string | RR_NS string | RR_Other

record dns_msg =
  Rcode :: nat
  Truncated :: bool
  Answer :: "rr list"

type_synonym exchange_result = "dns_msg option res"

record exchange =
  ev_server :: string
  ev_name :: string
  ev_type :: nat
  ev_result :: exchange_result

type_synonym trace = "exchange list"

record dns_env =
  exchange_fn :: "trace \<Rightarrow> string \<Rightarrow> string \<Rightarrow> nat \<Rightarrow> exchange_result"
  fqdn :: "string \<Rightarrow> string"
  splitDomainName :: "string \<Rightarrow> string list"
  rcodeToString :: "nat \<Rightarrow> string"
  mapOrder :: "trace \<Rightarrow> string list \<Rightarrow> string list"
  unicodeLower :: "string \<Rightarrow> string"

definition typeA :: nat where "typeA = 1"
definition typeNS :: nat where "typeNS = 2"
definition rcodeSuccess :: nat where "rcodeSuccess = 0"

definition maxCNAMEFollowDepth :: nat where "maxCNAMEFollowDepth = 8"

definition defaultPublicDNSServers :: "string list" where
  "defaultPublicDNSServers =
     [''1.1.1.1:53'', ''1.0.0.1:53'', ''8.8.8.8:53'', ''8.8.4.4:53'',
      ''9.9.9.9:53'', ''149.112.112.112:53'', ''208.67.222.222:53'', ''208.67.220.220:53'']"

subsection \<open>One exchange\<close>

text \<open>
  \<^verbatim>\<open>exchangeDNS\<close> over a UDP and a TCP client: the port is completed, the name made fully
  qualified, and a truncated UDP answer is asked for again over TCP.
\<close>

record dns_net =
  udpExchange :: "trace \<Rightarrow> string \<Rightarrow> string \<Rightarrow> nat \<Rightarrow> exchange_result"
  tcpExchange :: "trace \<Rightarrow> string \<Rightarrow> string \<Rightarrow> nat \<Rightarrow> exchange_result"

definition exchangeDNS :: "(string \<Rightarrow> string) \<Rightarrow> dns_net \<Rightarrow>
    trace \<Rightarrow> string \<Rightarrow> string \<Rightarrow> nat \<Rightarrow> exchange_result" where
  "exchangeDNS fq net tr server qname qtype =
     (let server = ensureDNSServerPort server; q = fq qname in
      case udpExchange net tr server q qtype of
        Inl err \<Rightarrow> Inl err
      | Inr None \<Rightarrow> Inr None
      | Inr (Some response) \<Rightarrow>
          if Truncated response then tcpExchange net tr server q qtype else Inr (Some response))"

definition exchange :: "dns_env \<Rightarrow> string \<Rightarrow> string \<Rightarrow> nat \<Rightarrow> trace \<Rightarrow> exchange_result \<times> trace" where
  "exchange E server qname qtype tr =
     (let r = exchange_fn E tr server qname qtype in
      (r, tr @ [\<lparr>ev_server = server, ev_name = qname, ev_type = qtype, ev_result = r\<rparr>]))"

text \<open>The three checks both query loops make on a response: the answer section, or the error.\<close>

definition checkResponse :: "dns_env \<Rightarrow> string \<Rightarrow> exchange_result \<Rightarrow> rr list res" where
  "checkResponse E server r =
     (case r of
        Inl err \<Rightarrow> Inl (server @ '': '' @ err)
      | Inr None \<Rightarrow> Inl (server @ '': empty response'')
      | Inr (Some msg) \<Rightarrow>
          if Rcode msg \<noteq> rcodeSuccess
          then Inl (server @ '': rcode='' @ rcodeToString E (Rcode msg))
          else Inr (Answer msg))"

subsection \<open>Addresses of a name\<close>

fun addAnswer :: "dns_env \<Rightarrow> rr \<Rightarrow> string list \<times> string list \<Rightarrow> string list \<times> string list" where
  "addAnswer E (RR_A ip) (addresses, aliases) =
     (case to4 ip of Some ip4 \<Rightarrow> (add_key (ip4_string ip4) addresses, aliases)
      | None \<Rightarrow> (addresses, aliases))"
| "addAnswer E (RR_CNAME target) (addresses, aliases) =
     (addresses, add_key (normalizeDNSName (unicodeLower E) target) aliases)"
| "addAnswer E _ (addresses, aliases) = (addresses, aliases)"

fun queryServersA :: "dns_env \<Rightarrow> string \<Rightarrow> string list \<Rightarrow> string list \<times> string list \<Rightarrow>
    string list \<Rightarrow> trace \<Rightarrow> (string list \<times> string list) \<times> string list \<times> trace" where
  "queryServersA E qname [] found errors tr = (found, errors, tr)"
| "queryServersA E qname (server # servers) found errors tr =
     (case exchange E server qname typeA tr of (r, tr') \<Rightarrow>
        case checkResponse E server r of
          Inl err \<Rightarrow> queryServersA E qname servers found (errors @ [err]) tr'
        | Inr answer \<Rightarrow> queryServersA E qname servers (fold (addAnswer E) answer found) errors tr')"

fun followAliases :: "(string \<Rightarrow> trace \<Rightarrow> string list res \<times> trace) \<Rightarrow> string list \<Rightarrow>
    string list \<Rightarrow> string list \<Rightarrow> trace \<Rightarrow> string list \<times> string list \<times> trace" where
  "followAliases lookup [] addresses errors tr = (addresses, errors, tr)"
| "followAliases lookup (alias # aliases) addresses errors tr =
     (case lookup alias tr of
        (Inl err, tr') \<Rightarrow>
          followAliases lookup aliases addresses (errors @ [alias @ '': '' @ err]) tr'
      | (Inr aliasIPs, tr') \<Rightarrow>
          followAliases lookup aliases (fold add_key aliasIPs addresses) errors tr')"

function lookupAWithServers ::
    "dns_env \<Rightarrow> string \<Rightarrow> string list \<Rightarrow> nat \<Rightarrow> trace \<Rightarrow> string list res \<times> trace" where
  "lookupAWithServers E hostname servers depth tr =
     (if depth > maxCNAMEFollowDepth
      then (Inl (''CNAME chain exceeded '' @ itoa maxCNAMEFollowDepth @ '' hops''), tr)
      else let servers = uniqueStrings servers in
        if servers = [] then (Inl ''no DNS servers configured'', tr)
        else case queryServersA E (fqdn E hostname) servers ([], []) [] tr of
          ((addresses, aliases), errors, tr) \<Rightarrow>
            (case (if addresses = [] \<and> aliases \<noteq> []
                   then followAliases
                          (\<lambda>alias tr. lookupAWithServers E alias servers (Suc depth) tr)
                          (mapOrder E tr aliases) addresses errors tr
                   else (addresses, errors, tr)) of
               (addresses, errors, tr) \<Rightarrow>
                 if addresses = [] then
                   (Inl (if errors = [] then ''no IPv4 A records returned''
                         else join ''; '' errors), tr)
                 else (Inr (sort_slice bytesLessIP (mapOrder E tr addresses)), tr)))"
  by pat_completeness auto
termination
  by (relation "measure (\<lambda>(E, hostname, servers, depth, tr). Suc maxCNAMEFollowDepth - depth)") auto

declare lookupAWithServers.simps [simp del]

subsection \<open>Authoritative servers\<close>

fun collectNS :: "dns_env \<Rightarrow> rr list \<Rightarrow> string list" where
  "collectNS E [] = []"
| "collectNS E (RR_NS ns # answer) = normalizeDNSName (unicodeLower E) ns # collectNS E answer"
| "collectNS E (_ # answer) = collectNS E answer"

fun queryServersNS :: "dns_env \<Rightarrow> string \<Rightarrow> string list \<Rightarrow> string list \<Rightarrow> string list \<Rightarrow>
    trace \<Rightarrow> string list \<times> string list \<times> trace" where
  "queryServersNS E zone [] nsHosts errors tr = (nsHosts, errors, tr)"
| "queryServersNS E zone (server # servers) nsHosts errors tr =
     (case exchange E server zone typeNS tr of (r, tr') \<Rightarrow>
        case checkResponse E server r of
          Inl err \<Rightarrow> queryServersNS E zone servers nsHosts (errors @ [err]) tr'
        | Inr answer \<Rightarrow> queryServersNS E zone servers (nsHosts @ collectNS E answer) errors tr')"

definition lookupNSHosts :: "dns_env \<Rightarrow> string \<Rightarrow> string list \<Rightarrow> trace \<Rightarrow> string list res \<times> trace" where
  "lookupNSHosts E zone servers tr =
     (case queryServersNS E (fqdn E zone) (uniqueStrings servers) [] [] tr of
        (nsHosts, errors, tr') \<Rightarrow>
          let nsHosts = uniqueStrings nsHosts in
          if nsHosts = [] then
            (Inl (if errors = [] then ''no NS records returned'' else join ''; '' errors), tr')
          else (Inr nsHosts, tr'))"

definition zoneCandidates :: "dns_env \<Rightarrow> string \<Rightarrow> string list" where
  "zoneCandidates E hostname =
     (let labels = splitDomainName E (fqdn E hostname) in
      map (\<lambda>i. join ''.'' (drop i labels) @ ''.'') [0 ..< length labels])"

fun resolveNSHosts :: "dns_env \<Rightarrow> string list \<Rightarrow> string list \<Rightarrow> string list \<Rightarrow> string list \<Rightarrow>
    trace \<Rightarrow> string list \<times> string list \<times> trace" where
  "resolveNSHosts E bootstrap [] authoritativeIPs errors tr = (authoritativeIPs, errors, tr)"
| "resolveNSHosts E bootstrap (nsHost # nsHosts) authoritativeIPs errors tr =
     (case lookupAWithServers E nsHost bootstrap 0 tr of
        (Inl err, tr') \<Rightarrow>
          resolveNSHosts E bootstrap nsHosts authoritativeIPs (errors @ [nsHost @ '': '' @ err]) tr'
      | (Inr ips, tr') \<Rightarrow>
          resolveNSHosts E bootstrap nsHosts
            (authoritativeIPs @ map (\<lambda>ip. joinHostPort ip ''53'') ips) errors tr')"

fun tryZones :: "dns_env \<Rightarrow> string list \<Rightarrow> string list \<Rightarrow> string list \<Rightarrow>
    trace \<Rightarrow> string list res \<times> trace" where
  "tryZones E bootstrap [] errors tr =
     (Inl (if errors = [] then ''no authoritative name servers discovered''
           else join ''; '' errors), tr)"
| "tryZones E bootstrap (zone # zones) errors tr =
     (case lookupNSHosts E zone bootstrap tr of
        (Inl err, tr') \<Rightarrow>
          tryZones E bootstrap zones (errors @ [trimSuffix zone ''.'' @ '': '' @ err]) tr'
      | (Inr nsHosts, tr') \<Rightarrow>
          (case resolveNSHosts E bootstrap nsHosts [] errors tr' of
             (authoritativeIPs, errors', tr'') \<Rightarrow>
               let authoritativeIPs = uniqueStrings authoritativeIPs in
               if authoritativeIPs \<noteq> [] then (Inr authoritativeIPs, tr'')
               else tryZones E bootstrap zones errors' tr''))"

definition lookupAuthoritativeServers ::
    "dns_env \<Rightarrow> string \<Rightarrow> string list \<Rightarrow> trace \<Rightarrow> string list res \<times> trace" where
  "lookupAuthoritativeServers E hostname bootstrapServers tr =
     (if bootstrapServers = [] then (Inl ''no bootstrap DNS servers configured'', tr)
      else tryZones E bootstrapServers (zoneCandidates E hostname) [] tr)"

subsection \<open>Host lists\<close>

record multiResolver =
  publicServers :: "string list"

definition newMultiResolverWithServers :: "string list \<Rightarrow> multiResolver res" where
  "newMultiResolverWithServers servers =
     (let servers = uniqueStrings servers in
      if servers = []
      then Inl ''no DNS servers configured: add at least one enabled DNS server''
      else Inr \<lparr>publicServers = servers\<rparr>)"

definition resolveIPv4 ::
    "dns_env \<Rightarrow> multiResolver \<Rightarrow> string \<Rightarrow> trace \<Rightarrow> string list res \<times> trace" where
  "resolveIPv4 E r hostname tr =
     (let hostname = normalizeDNSName (unicodeLower E) hostname;
          publicServers = uniqueStrings (publicServers r) in
      case lookupAuthoritativeServers E hostname publicServers tr of (auth, tr1) \<Rightarrow>
        let authoritativeServers = (case auth of Inl _ \<Rightarrow> [] | Inr a \<Rightarrow> a);
            servers = uniqueStrings (authoritativeServers @ publicServers) in
        case lookupAWithServers E hostname servers 0 tr1 of
          (Inr ips, tr2) \<Rightarrow> (Inr ips, tr2)
        | (Inl err, tr2) \<Rightarrow>
            (case auth of
               Inl authErr \<Rightarrow>
                 (Inl (hostname @ '': '' @ err @ '' (authoritative discovery: '' @ authErr @ '')''), tr2)
             | Inr _ \<Rightarrow> (Inl (hostname @ '': '' @ err), tr2)))"

text \<open>
  The loop over the lines: the resolver is made at the first line that needs it, and no server
  then ends the whole resolution with an error.
\<close>

fun resolveLines :: "dns_env \<Rightarrow> string list \<Rightarrow> string list \<Rightarrow> multiResolver option \<Rightarrow>
    (string, string) gomap \<Rightarrow> string list \<Rightarrow> trace \<Rightarrow>
    ((string, string) gomap \<times> string list) res \<times> trace" where
  "resolveLines E servers [] resolver result errors tr = (Inr (result, errors), tr)"
| "resolveLines E servers (rawLine # lines) resolver result errors tr =
     (let line = normalizeHostnameLine rawLine in
      if line = [] then resolveLines E servers lines resolver result errors tr
      else case normalizeIPv4Literal line of
        Some ip \<Rightarrow>
          resolveLines E servers lines resolver (addResolvedSource result ip line) errors tr
      | None \<Rightarrow>
      case normalizeIPv4CIDR line of
        Some cidr \<Rightarrow>
          resolveLines E servers lines resolver (addResolvedSource result cidr line) errors tr
      | None \<Rightarrow>
      case (case resolver of Some r \<Rightarrow> Inr r | None \<Rightarrow> newMultiResolverWithServers servers) of
        Inl err \<Rightarrow> (Inl err, tr)
      | Inr r \<Rightarrow>
          (case resolveIPv4 E r line tr of
             (Inl err, tr') \<Rightarrow>
               resolveLines E servers lines (Some r) result (errors @ [err]) tr'
           | (Inr ips, tr') \<Rightarrow>
               resolveLines E servers lines (Some r)
                 (fold (\<lambda>ip m. addResolvedSource m ip line) ips result) errors tr'))"

definition resolveHostnames ::
    "dns_env \<Rightarrow> string \<Rightarrow> string list \<Rightarrow> trace \<Rightarrow> (string, string) gomap res \<times> trace" where
  "resolveHostnames E hostnamesText servers tr =
     (case resolveLines E servers (split_on ''\<newline>'' hostnamesText) None [] [] tr of
        (Inl err, tr') \<Rightarrow> (Inl err, tr')
      | (Inr (result, errors), tr') \<Rightarrow>
          if result = [] then
            (Inl (''no IPv4 addresses resolved from hostname list'' @
               (if errors = [] then [] else '': '' @ join ''; '' errors)), tr')
          else (Inr result, tr'))"

subsection \<open>What an exchange answers\<close>

text \<open>
  \<open>answered_ips\<close> are the IPv4 addresses an exchange carries, as texts; \<open>askAll\<close> is the list
  of exchanges made by asking the servers in turn. The lookup functions are specified by them.
\<close>

fun rr_ip :: "rr \<Rightarrow> string list" where
  "rr_ip (RR_A ip) = (case to4 ip of Some ip4 \<Rightarrow> [ip4_string ip4] | None \<Rightarrow> [])"
| "rr_ip _ = []"

definition answered_ips :: "exchange \<Rightarrow> string list" where
  "answered_ips ev =
     (case ev_result ev of
        Inr (Some msg) \<Rightarrow> if Rcode msg = rcodeSuccess then concat (map rr_ip (Answer msg)) else []
      | _ \<Rightarrow> [])"

fun askAll :: "dns_env \<Rightarrow> string \<Rightarrow> nat \<Rightarrow> string list \<Rightarrow> trace \<Rightarrow> exchange list" where
  "askAll E qname qtype [] tr = []"
| "askAll E qname qtype (server # servers) tr =
     (let ev = \<lparr>ev_server = server, ev_name = qname, ev_type = qtype,
                ev_result = exchange_fn E tr server qname qtype\<rparr> in
      ev # askAll E qname qtype servers (tr @ [ev]))"

definition all_ips :: "exchange list \<Rightarrow> string set" where
  "all_ips evs = (\<Union>ev \<in> set evs. set (answered_ips ev))"

text \<open>Iterating over a Go map visits every key once, in some order.\<close>

definition map_order_ok :: "dns_env \<Rightarrow> bool" where
  "map_order_ok E \<longleftrightarrow> (\<forall>tr xs. mset (mapOrder E tr xs) = mset xs)"

lemma set_mapOrder: "map_order_ok E \<Longrightarrow> set (mapOrder E tr xs) = set xs"
  unfolding map_order_ok_def by (metis set_mset_mset)

lemma distinct_mapOrder: "map_order_ok E \<Longrightarrow> distinct (mapOrder E tr xs) = distinct xs"
  unfolding map_order_ok_def by (metis mset_eq_imp_distinct_iff)

lemma all_ips_simps [simp]:
  "all_ips [] = {}" "all_ips (e # es) = set (answered_ips e) \<union> all_ips es"
  "all_ips (es @ es') = all_ips es \<union> all_ips es'"
  by (auto simp: all_ips_def)

lemma rr_ip_text: "e \<in> set (rr_ip r) \<Longrightarrow> ip4_text e"
  by (cases r) (auto intro: ip4_textI to4_length [OF sym] split: option.splits)

lemma answered_ips_text: "e \<in> set (answered_ips ev) \<Longrightarrow> ip4_text e"
  by (auto simp: answered_ips_def dest: rr_ip_text split: sum.splits option.splits if_splits)

lemma all_ips_text: "e \<in> all_ips evs \<Longrightarrow> ip4_text e"
  by (auto simp: all_ips_def dest: answered_ips_text)

lemma askAll_props:
  "map ev_server (askAll E q t ss tr) = ss"
  "ev \<in> set (askAll E q t ss tr) \<Longrightarrow> ev_server ev \<in> set ss \<and> ev_name ev = q \<and> ev_type ev = t"
  "length (askAll E q t ss tr) = length ss"
  by (induction ss arbitrary: tr) (auto simp: Let_def)

subsection \<open>The query loop for addresses\<close>

lemma fst_fold_addAnswer:
  "set (fst (fold (addAnswer E) ans found)) = set (fst found) \<union> set (concat (map rr_ip ans))"
proof (induction ans arbitrary: found)
  case (Cons r ans)
  then show ?case by (cases found; cases r) (auto split: option.splits)
qed simp

lemma distinct_fold_addAnswer:
  "distinct (fst (fold (addAnswer E) ans found)) = distinct (fst found)"
proof (induction ans arbitrary: found)
  case (Cons r ans)
  then show ?case by (cases found; cases r) (auto split: option.splits)
qed simp

lemma queryServersA_trace:
  "snd (snd (queryServersA E q ss found errs tr)) = tr @ askAll E q typeA ss tr"
  by (induction ss arbitrary: found errs tr)
    (auto simp: exchange_def Let_def split: sum.splits)

lemma queryServersA_ips:
  "set (fst (fst (queryServersA E q ss found errs tr))) =
     set (fst found) \<union> all_ips (askAll E q typeA ss tr)"
  by (induction ss arbitrary: found errs tr)
    (auto simp: exchange_def Let_def checkResponse_def fst_fold_addAnswer answered_ips_def
      split: sum.splits option.splits)

lemma queryServersA_distinct:
  "distinct (fst (fst (queryServersA E q ss found errs tr))) = distinct (fst found)"
  by (induction ss arbitrary: found errs tr)
    (auto simp: exchange_def Let_def distinct_fold_addAnswer split: sum.splits)

subsection \<open>Lookup of addresses\<close>

text \<open>
  The contract of a lookup over the servers \<open>us\<close>: it only appends to the trace, asks only
  these servers, and when it succeeds returns a non-empty sorted list without duplicates of
  addresses that were answered in the exchanges it made.
\<close>

definition lookup_contract ::
    "string list \<Rightarrow> trace \<Rightarrow> string list res \<times> trace \<Rightarrow> bool" where
  "lookup_contract us tr out \<longleftrightarrow>
     (\<exists>evs. snd out = tr @ evs \<and> (\<forall>ev \<in> set evs. ev_server ev \<in> set us) \<and>
        (\<forall>ips. fst out = Inr ips \<longrightarrow>
           ips \<noteq> [] \<and> distinct ips \<and> sorted (map ip_key ips) \<and> set ips \<subseteq> all_ips evs))"

lemma followAliases_contract:
  assumes "\<And>a t. lookup_contract us t (lookup a t)"
  shows "followAliases lookup as addrs errs tr = (addrs', errs', tr') \<Longrightarrow>
    \<exists>evs. tr' = tr @ evs \<and> (\<forall>ev \<in> set evs. ev_server ev \<in> set us) \<and>
      set addrs' \<subseteq> set addrs \<union> all_ips evs \<and> distinct addrs' = distinct addrs"
proof (induction as arbitrary: addrs errs tr)
  case Nil
  then show ?case by (auto intro: exI [of _ "[]"])
next
  case (Cons a as)
  obtain r tr1 where l: "lookup a tr = (r, tr1)" by fastforce
  with assms [of tr a] obtain evs where evs: "tr1 = tr @ evs"
      "\<forall>ev \<in> set evs. ev_server ev \<in> set us" "\<forall>ips. r = Inr ips \<longrightarrow> set ips \<subseteq> all_ips evs"
    by (auto simp: lookup_contract_def)
  let ?addrs = "case r of Inl _ \<Rightarrow> addrs | Inr ips \<Rightarrow> fold add_key ips addrs"
  have "\<exists>errs1. followAliases lookup as ?addrs errs1 tr1 = (addrs', errs', tr')"
    using Cons.prems l by (auto split: sum.splits)
  then obtain evs' where "tr' = tr1 @ evs'" "\<forall>ev \<in> set evs'. ev_server ev \<in> set us"
      "set addrs' \<subseteq> set ?addrs \<union> all_ips evs'" "distinct addrs' = distinct ?addrs"
    using Cons.IH by blast
  moreover have "set ?addrs \<subseteq> set addrs \<union> all_ips evs" "distinct ?addrs = distinct addrs"
    using evs(3) by (auto split: sum.splits)
  ultimately show ?case using evs(1,2) by (intro exI [of _ "evs @ evs'"]) auto
qed

lemma lookup_sorted_result:
  assumes "map_order_ok E" and "distinct addrs"
  shows "set (sort_slice bytesLessIP (mapOrder E tr addrs)) = set addrs"
    "distinct (sort_slice bytesLessIP (mapOrder E tr addrs))"
    "sorted (map ip_key (sort_slice bytesLessIP (mapOrder E tr addrs)))"
  using assms by (simp_all add: set_mapOrder distinct_mapOrder ips.sorted_sort_slice)

lemma lookupAWithServers_contract:
  assumes "map_order_ok E"
  shows "lookup_contract (uniqueStrings servers) tr (lookupAWithServers E hostname servers depth tr)"
proof (induction "Suc maxCNAMEFollowDepth - depth" arbitrary: hostname servers depth tr
    rule: less_induct)
  case less
  let ?us = "uniqueStrings servers"
  show ?case
  proof (cases "depth > maxCNAMEFollowDepth \<or> ?us = []")
    case True
    then show ?thesis
      by (subst lookupAWithServers.simps) (auto simp: lookup_contract_def Let_def)
  next
    case False
    let ?evs = "askAll E (fqdn E hostname) typeA ?us tr"
    obtain addrs aliases errs tr1 where
      q: "queryServersA E (fqdn E hostname) ?us ([], []) [] tr = ((addrs, aliases), errs, tr1)"
      by (metis prod.exhaust)
    have tr1: "tr1 = tr @ ?evs" and ips: "set addrs = all_ips ?evs" and d: "distinct addrs"
      using queryServersA_trace [of E "fqdn E hostname" ?us "([], [])" "[]" tr]
        queryServersA_ips [of E "fqdn E hostname" ?us "([], [])" "[]" tr]
        queryServersA_distinct [of E "fqdn E hostname" ?us "([], [])" "[]" tr] q by simp_all
    define follow where "follow = (if addrs = [] \<and> aliases \<noteq> []
        then followAliases (\<lambda>alias tr. lookupAWithServers E alias ?us (Suc depth) tr)
               (mapOrder E tr1 aliases) addrs errs tr1 else (addrs, errs, tr1))"
    obtain addrs' errs' tr2 where f: "follow = (addrs', errs', tr2)" by (metis prod.exhaust)
    have IH: "lookup_contract ?us t (lookupAWithServers E a ?us (Suc depth) t)" for a t
    proof -
      have "Suc maxCNAMEFollowDepth - Suc depth < Suc maxCNAMEFollowDepth - depth"
        using False by linarith
      then show ?thesis using less [of "Suc depth" ?us t a] by simp
    qed
    have "\<exists>evs'. tr2 = tr1 @ evs' \<and> (\<forall>ev \<in> set evs'. ev_server ev \<in> set ?us) \<and>
        set addrs' \<subseteq> set addrs \<union> all_ips evs' \<and> distinct addrs'"
    proof (cases "addrs = [] \<and> aliases \<noteq> []")
      case True
      then have "followAliases (\<lambda>alias tr. lookupAWithServers E alias ?us (Suc depth) tr)
          (mapOrder E tr1 aliases) addrs errs tr1 = (addrs', errs', tr2)"
        using f by (simp add: follow_def)
      from followAliases_contract [OF IH this] d show ?thesis by blast
    next
      case False
      then have "addrs' = addrs" "tr2 = tr1" using f by (auto simp: follow_def)
      with d show ?thesis by (intro exI [of _ "[]"]) simp
    qed
    then obtain evs' where evs': "tr2 = tr1 @ evs'" "\<forall>ev \<in> set evs'. ev_server ev \<in> set ?us"
        "set addrs' \<subseteq> set addrs \<union> all_ips evs'" "distinct addrs'"
      by blast
    have out: "lookupAWithServers E hostname servers depth tr =
        (if addrs' = [] then (Inl (if errs' = [] then ''no IPv4 A records returned''
            else join ''; '' errs'), tr2)
         else (Inr (sort_slice bytesLessIP (mapOrder E tr2 addrs')), tr2))"
      using False q f by (subst lookupAWithServers.simps) (simp add: Let_def follow_def)
    show ?thesis
      using evs' ips tr1 askAll_props(2) [of _ E "fqdn E hostname" typeA ?us tr]
        lookup_sorted_result [OF assms evs'(4), of tr2]
      unfolding lookup_contract_def out
      by (intro exI [of _ "?evs @ evs'"]) (auto simp: set_empty [symmetric] simp del: set_empty)
  qed
qed

text \<open>When some server answers with an address, the result is all addresses answered.\<close>

lemma lookupAWithServers_union:
  assumes "map_order_ok E" and "depth \<le> maxCNAMEFollowDepth"
    and "all_ips (askAll E (fqdn E hostname) typeA (uniqueStrings servers) tr) \<noteq> {}"
  shows "\<exists>ips. lookupAWithServers E hostname servers depth tr =
      (Inr ips, tr @ askAll E (fqdn E hostname) typeA (uniqueStrings servers) tr) \<and>
    set ips = all_ips (askAll E (fqdn E hostname) typeA (uniqueStrings servers) tr) \<and>
    distinct ips \<and> sorted (map ip_key ips)"
proof -
  let ?us = "uniqueStrings servers"
  let ?evs = "askAll E (fqdn E hostname) typeA ?us tr"
  obtain addrs aliases errs tr1 where
    q: "queryServersA E (fqdn E hostname) ?us ([], []) [] tr = ((addrs, aliases), errs, tr1)"
    by (metis prod.exhaust)
  have s: "tr1 = tr @ ?evs" "set addrs = all_ips ?evs" "distinct addrs"
    using queryServersA_trace [of E "fqdn E hostname" ?us "([], [])" "[]" tr]
      queryServersA_ips [of E "fqdn E hostname" ?us "([], [])" "[]" tr]
      queryServersA_distinct [of E "fqdn E hostname" ?us "([], [])" "[]" tr] q by simp_all
  then have "addrs \<noteq> []" "?us \<noteq> []" using assms(3) by auto
  then have "lookupAWithServers E hostname servers depth tr =
      (Inr (sort_slice bytesLessIP (mapOrder E tr1 addrs)), tr1)"
    using assms(2) q by (subst lookupAWithServers.simps) (simp add: Let_def)
  then show ?thesis using lookup_sorted_result [OF assms(1) s(3), of tr1] s by simp
qed

subsection \<open>The number of queries\<close>

text \<open>
  CNAME records make the lookup recursive, so what bounds the work is the depth limit: with
  \<open>n\<close> servers that put at most \<open>c\<close> CNAME records in an answer, \<open>k\<close> levels make at most
  \<open>queryBound n c k\<close> exchanges, whatever the servers answer.
\<close>

fun queryBound :: "nat \<Rightarrow> nat \<Rightarrow> nat \<Rightarrow> nat" where
  "queryBound n c 0 = 0"
| "queryBound n c (Suc k) = n + n * c * queryBound n c k"

fun is_cname :: "rr \<Rightarrow> bool" where
  "is_cname (RR_CNAME _) = True"
| "is_cname _ = False"

definition cnames_bounded :: "dns_env \<Rightarrow> nat \<Rightarrow> bool" where
  "cnames_bounded E c \<longleftrightarrow> (\<forall>tr s q t msg. exchange_fn E tr s q t = Inr (Some msg) \<longrightarrow>
     length (filter is_cname (Answer msg)) \<le> c)"

lemma length_add_key: "length (add_key x xs) \<le> Suc (length xs)"
  by (simp add: add_key_def)

lemma length_fold_addAnswer:
  "length (snd (fold (addAnswer E) ans found)) \<le> length (snd found) + length (filter is_cname ans)"
proof (induction ans arbitrary: found)
  case (Cons r ans)
  have "length (snd (addAnswer E r found)) \<le> length (snd found) + (if is_cname r then 1 else 0)"
    using length_add_key by (cases found; cases r) (auto split: option.splits)
  with Cons [of "addAnswer E r found"] show ?case by (cases "is_cname r") simp_all
qed simp

lemma queryServersA_aliases:
  assumes "cnames_bounded E c"
  shows "length (snd (fst (queryServersA E q ss found errs tr))) \<le> length (snd found) + length ss * c"
proof (induction ss arbitrary: found errs tr)
  case (Cons s ss)
  let ?tr = "snd (exchange E s q typeA tr)"
  show ?case
  proof (cases "checkResponse E s (exchange_fn E tr s q typeA)")
    case (Inl err)
    then have "queryServersA E q (s # ss) found errs tr = queryServersA E q ss found (errs @ [err]) ?tr"
      by (simp add: exchange_def Let_def)
    with Cons [of found "errs @ [err]" ?tr] show ?thesis by simp
  next
    case (Inr ans)
    then have "length (filter is_cname ans) \<le> c"
      using assms by (auto simp: checkResponse_def cnames_bounded_def split: sum.splits option.splits if_splits)
    then have "length (snd (fold (addAnswer E) ans found)) \<le> length (snd found) + c"
      using length_fold_addAnswer [of E ans found] by simp
    moreover have "queryServersA E q (s # ss) found errs tr =
        queryServersA E q ss (fold (addAnswer E) ans found) errs ?tr"
      using Inr by (simp add: exchange_def Let_def)
    ultimately show ?thesis using Cons [of "fold (addAnswer E) ans found" errs ?tr] by simp
  qed
qed simp

lemma followAliases_length:
  assumes "\<And>a t. length (snd (lookup a t)) \<le> length t + b"
  shows "length (snd (snd (followAliases lookup as addrs errs tr))) \<le> length tr + length as * b"
proof (induction as arbitrary: addrs errs tr)
  case (Cons a as)
  obtain r tr1 where l: "lookup a tr = (r, tr1)" by fastforce
  with assms [of a tr] have "length tr1 \<le> length tr + b" by simp
  obtain addrs1 errs1 where
    "followAliases lookup (a # as) addrs errs tr = followAliases lookup as addrs1 errs1 tr1"
    using l by (cases r) auto
  with Cons [of addrs1 errs1 tr1] \<open>length tr1 \<le> length tr + b\<close> show ?case by simp
qed simp

lemma lookupAWithServers_length:
  assumes "map_order_ok E" and "cnames_bounded E c"
  shows "length (snd (lookupAWithServers E hostname servers depth tr)) \<le>
    length tr + queryBound (length (uniqueStrings servers)) c (Suc maxCNAMEFollowDepth - depth)"
proof (induction "Suc maxCNAMEFollowDepth - depth" arbitrary: hostname servers depth tr
    rule: less_induct)
  case less
  let ?us = "uniqueStrings servers"
  show ?case
  proof (cases "depth > maxCNAMEFollowDepth \<or> ?us = []")
    case True
    then show ?thesis by (subst lookupAWithServers.simps) (auto simp: Let_def)
  next
    case False
    let ?b = "queryBound (length ?us) c (Suc maxCNAMEFollowDepth - Suc depth)"
    have d: "Suc maxCNAMEFollowDepth - depth = Suc (Suc maxCNAMEFollowDepth - Suc depth)"
      using False by linarith
    have IH: "length (snd (lookupAWithServers E a ?us (Suc depth) t)) \<le> length t + ?b" for a t
      using less [of "Suc depth" a ?us t] d by simp
    obtain addrs aliases errs tr1 where
      q: "queryServersA E (fqdn E hostname) ?us ([], []) [] tr = ((addrs, aliases), errs, tr1)"
      by (metis prod.exhaust)
    have tr1: "length tr1 = length tr + length ?us"
      using queryServersA_trace [of E "fqdn E hostname" ?us "([], [])" "[]" tr] q
      by (simp add: askAll_props)
    have al: "length aliases \<le> length ?us * c"
      using queryServersA_aliases [OF assms(2), of "fqdn E hostname" ?us "([], [])" "[]" tr] q
      by simp
    have "length (mapOrder E tr1 aliases) = length aliases"
      using assms(1) unfolding map_order_ok_def by (metis size_mset)
    then have "length (snd (snd (followAliases
        (\<lambda>alias tr. lookupAWithServers E alias ?us (Suc depth) tr)
        (mapOrder E tr1 aliases) addrs errs tr1))) \<le> length tr1 + length aliases * ?b"
      using followAliases_length
        [where lookup = "\<lambda>alias tr. lookupAWithServers E alias ?us (Suc depth) tr", OF IH,
          of "mapOrder E tr1 aliases" addrs errs tr1] by simp
    also have "\<dots> \<le> length tr + (length ?us + length ?us * c * ?b)"
      using tr1 mult_le_mono1 [OF al, of ?b] by simp
    finally have "length (snd (snd (followAliases
        (\<lambda>alias tr. lookupAWithServers E alias ?us (Suc depth) tr)
        (mapOrder E tr1 aliases) addrs errs tr1))) \<le> length tr + queryBound (length ?us) c
          (Suc maxCNAMEFollowDepth - depth)" unfolding d by simp
    moreover have "length tr1 \<le> length tr + queryBound (length ?us) c (Suc maxCNAMEFollowDepth - depth)"
      unfolding d using tr1 by simp
    ultimately show ?thesis
      using False q by (subst lookupAWithServers.simps) (auto simp: Let_def split: prod.splits)
  qed
qed

subsection \<open>Which servers are asked\<close>

text \<open>
  \<open>asks_from pubs old evs\<close>: every server asked in \<open>evs\<close> is a configured one, or port 53 of an
  address that was answered in the exchanges \<open>old\<close> or \<open>evs\<close>.
\<close>

definition ns_address :: "string set \<Rightarrow> string \<Rightarrow> bool" where
  "ns_address ips server \<longleftrightarrow> (\<exists>ip \<in> ips. server = joinHostPort ip ''53'')"

lemma ns_address_Un [simp]:
  "ns_address (A \<union> B) s \<longleftrightarrow> ns_address A s \<or> ns_address B s"
  by (auto simp: ns_address_def)

lemma queryServersNS_trace:
  "snd (snd (queryServersNS E zone ss hosts errs tr)) = tr @ askAll E zone typeNS ss tr"
  by (induction ss arbitrary: hosts errs tr) (auto simp: exchange_def Let_def split: sum.splits)

lemma lookupNSHosts_trace:
  "snd (lookupNSHosts E zone ss tr) = tr @ askAll E (fqdn E zone) typeNS (uniqueStrings ss) tr"
  using queryServersNS_trace [of E "fqdn E zone" "uniqueStrings ss" "[]" "[]" tr]
  by (auto simp: lookupNSHosts_def Let_def split: prod.splits)

text \<open>Discovery asks the bootstrap servers only, and returns addresses they answered.\<close>

lemma resolveNSHosts_contract:
  assumes "map_order_ok E"
  shows "resolveNSHosts E boot hosts auth errs tr = (auth', errs', tr') \<Longrightarrow>
    \<exists>evs. tr' = tr @ evs \<and> (\<forall>ev \<in> set evs. ev_server ev \<in> set boot) \<and>
      (\<forall>a \<in> set auth'. a \<in> set auth \<or> ns_address (all_ips evs) a)"
proof (induction hosts arbitrary: auth errs tr)
  case Nil
  then show ?case by (auto intro: exI [of _ "[]"])
next
  case (Cons h hosts)
  obtain r tr1 where l: "lookupAWithServers E h boot 0 tr = (r, tr1)" by fastforce
  with lookupAWithServers_contract [OF assms, of boot tr h 0] obtain evs where
    evs: "tr1 = tr @ evs" "\<forall>ev \<in> set evs. ev_server ev \<in> set (uniqueStrings boot)"
      "\<forall>ips. r = Inr ips \<longrightarrow> set ips \<subseteq> all_ips evs"
    by (auto simp: lookup_contract_def)
  obtain auth1 errs1 where
    rec: "resolveNSHosts E boot hosts auth1 errs1 tr1 = (auth', errs', tr')" and
    auth1: "\<forall>a \<in> set auth1. a \<in> set auth \<or> ns_address (all_ips evs) a"
  proof (cases r)
    case (Inl err)
    with Cons.prems l show thesis by (intro that [of auth]) auto
  next
    case (Inr ips)
    with Cons.prems l evs(3) show thesis
      by (intro that [of "auth @ map (\<lambda>ip. joinHostPort ip ''53'') ips"])
        (auto simp: ns_address_def)
  qed
  from Cons.IH [OF rec] obtain evs' where
    "tr' = tr1 @ evs'" "\<forall>ev \<in> set evs'. ev_server ev \<in> set boot"
    "\<forall>a \<in> set auth'. a \<in> set auth1 \<or> ns_address (all_ips evs') a" by blast
  with evs auth1 show ?case
    by (intro exI [of _ "evs @ evs'"]) (auto)
qed

lemma tryZones_contract:
  assumes "map_order_ok E"
  shows "tryZones E boot zones errs tr = (r, tr') \<Longrightarrow>
    \<exists>evs. tr' = tr @ evs \<and> (\<forall>ev \<in> set evs. ev_server ev \<in> set boot) \<and>
      (\<forall>auth. r = Inr auth \<longrightarrow> auth \<noteq> [] \<and> (\<forall>a \<in> set auth. ns_address (all_ips evs) a))"
proof (induction zones arbitrary: errs tr)
  case Nil
  then show ?case by (auto intro: exI [of _ "[]"])
next
  case (Cons z zones)
  let ?ns = "askAll E (fqdn E z) typeNS (uniqueStrings boot) tr"
  have ns: "\<forall>ev \<in> set ?ns. ev_server ev \<in> set boot"
    using askAll_props(2) by fastforce
  obtain q tr1 where q: "lookupNSHosts E z boot tr = (q, tr1)" by fastforce
  then have tr1: "tr1 = tr @ ?ns" using lookupNSHosts_trace [of E z boot tr] by simp
  show ?case
  proof (cases q)
    case (Inl err)
    with Cons.prems q obtain errs1 where "tryZones E boot zones errs1 tr1 = (r, tr')" by auto
    from Cons.IH [OF this] ns tr1 show ?thesis
      by clarify (rule_tac x = "?ns @ evs" in exI, auto)
  next
    case (Inr hosts)
    obtain auth errs1 tr2 where a: "resolveNSHosts E boot hosts [] errs tr1 = (auth, errs1, tr2)"
      by (metis prod.exhaust)
    from resolveNSHosts_contract [OF assms this] obtain evs1 where
      evs1: "tr2 = tr1 @ evs1" "\<forall>ev \<in> set evs1. ev_server ev \<in> set boot"
        "\<forall>a \<in> set auth. ns_address (all_ips evs1) a" by auto
    show ?thesis
    proof (cases "uniqueStrings auth = []")
      case True
      with Cons.prems q Inr a have "tryZones E boot zones errs1 tr2 = (r, tr')" by simp
      from Cons.IH [OF this] ns tr1 evs1 show ?thesis
        by clarify (rule_tac x = "?ns @ evs1 @ evs" in exI, auto)
    next
      case False
      with Cons.prems q Inr a have "r = Inr (uniqueStrings auth)" "tr' = tr2" by auto
      with ns tr1 evs1 False show ?thesis
        by (intro exI [of _ "?ns @ evs1"]) (auto)
    qed
  qed
qed

lemma lookupAuthoritativeServers_contract:
  assumes "map_order_ok E" and "lookupAuthoritativeServers E hostname boot tr = (r, tr')"
  shows "\<exists>evs. tr' = tr @ evs \<and> (\<forall>ev \<in> set evs. ev_server ev \<in> set boot) \<and>
    (\<forall>auth. r = Inr auth \<longrightarrow> auth \<noteq> [] \<and> (\<forall>a \<in> set auth. ns_address (all_ips evs) a))"
  using assms tryZones_contract [of E boot "zoneCandidates E hostname" "[]" tr r tr']
  by (auto simp: lookupAuthoritativeServers_def split: if_splits intro: exI [of _ "[]"])

lemma resolveIPv4_contract:
  assumes "map_order_ok E" and "resolveIPv4 E r hostname tr = (out, tr')"
  shows "\<exists>evs. tr' = tr @ evs \<and>
    (\<forall>ev \<in> set evs. ev_server ev \<in> set (publicServers r) \<or> ns_address (all_ips evs) (ev_server ev)) \<and>
    (\<forall>ips. out = Inr ips \<longrightarrow>
       ips \<noteq> [] \<and> distinct ips \<and> sorted (map ip_key ips) \<and> set ips \<subseteq> all_ips evs)"
proof -
  let ?h = "normalizeDNSName (unicodeLower E) hostname"
  let ?pubs = "uniqueStrings (publicServers r)"
  obtain auth tr1 where a: "lookupAuthoritativeServers E ?h ?pubs tr = (auth, tr1)" by fastforce
  from lookupAuthoritativeServers_contract [OF assms(1) this] obtain evs where
    evs: "tr1 = tr @ evs" "\<forall>ev \<in> set evs. ev_server ev \<in> set ?pubs"
      "\<forall>as. auth = Inr as \<longrightarrow> as \<noteq> [] \<and> (\<forall>a \<in> set as. ns_address (all_ips evs) a)" by blast
  define servers where
    "servers = uniqueStrings ((case auth of Inl _ \<Rightarrow> [] | Inr as \<Rightarrow> as) @ ?pubs)"
  obtain res tr2 where l: "lookupAWithServers E ?h servers 0 tr1 = (res, tr2)" by fastforce
  with lookupAWithServers_contract [OF assms(1), of servers tr1 ?h 0] obtain evs' where
    evs': "tr2 = tr1 @ evs'" "\<forall>ev \<in> set evs'. ev_server ev \<in> set servers"
      "\<forall>ips. res = Inr ips \<longrightarrow>
         ips \<noteq> [] \<and> distinct ips \<and> sorted (map ip_key ips) \<and> set ips \<subseteq> all_ips evs'"
    by (auto simp: lookup_contract_def servers_def)
  have servers: "\<forall>s \<in> set servers. s \<in> set (publicServers r) \<or> ns_address (all_ips evs) s"
    using evs(3) by (auto simp: servers_def split: sum.splits)
  have out: "tr' = tr2" "\<And>ips. out = Inr ips \<Longrightarrow> res = Inr ips"
    using assms(2) a l
    by (auto simp: resolveIPv4_def Let_def servers_def [symmetric] split: sum.splits)
  show ?thesis
    using evs evs' servers out
    by (intro exI [of _ "evs @ evs'"]) fastforce
qed

text \<open>
  Discovery never makes a resolution fail: the name is asked of the servers it found, if any,
  together with all configured ones, and the result is everything these answer.
\<close>

definition resolve_servers :: "dns_env \<Rightarrow> multiResolver \<Rightarrow> string \<Rightarrow> trace \<Rightarrow> string list" where
  "resolve_servers E r hostname tr =
     uniqueStrings ((case fst (lookupAuthoritativeServers E hostname
                            (uniqueStrings (publicServers r)) tr) of Inl _ \<Rightarrow> [] | Inr a \<Rightarrow> a)
       @ uniqueStrings (publicServers r))"

lemma resolveIPv4_union:
  fixes E r hostname tr
  defines "h \<equiv> normalizeDNSName (unicodeLower E) hostname"
  defines "tr1 \<equiv> snd (lookupAuthoritativeServers E h (uniqueStrings (publicServers r)) tr)"
  defines "evs \<equiv> askAll E (fqdn E h) typeA (resolve_servers E r h tr) tr1"
  assumes "map_order_ok E" and "all_ips evs \<noteq> {}"
  shows "\<exists>ips. resolveIPv4 E r hostname tr = (Inr ips, tr1 @ evs) \<and>
    set ips = all_ips evs \<and> distinct ips \<and> sorted (map ip_key ips)"
proof -
  have u: "uniqueStrings (resolve_servers E r h tr) = resolve_servers E r h tr"
    by (simp add: resolve_servers_def)
  then obtain ips where
    "lookupAWithServers E h (resolve_servers E r h tr) 0 tr1 = (Inr ips, tr1 @ evs)"
    "set ips = all_ips evs" "distinct ips" "sorted (map ip_key ips)"
    using lookupAWithServers_union [OF assms(4), of 0 h "resolve_servers E r h tr" tr1] assms(5)
    by (auto simp: evs_def)
  then show ?thesis
    by (auto simp: resolveIPv4_def Let_def resolve_servers_def h_def [symmetric] tr1_def
        split: prod.splits)
qed

subsection \<open>Host lists\<close>

text \<open>The entry a line stands for by itself, without a query.\<close>

definition direct_entry :: "string \<Rightarrow> string option" where
  "direct_entry rawLine =
     (let line = normalizeHostnameLine rawLine in
      case normalizeIPv4Literal line of Some ip \<Rightarrow> Some ip | None \<Rightarrow> normalizeIPv4CIDR line)"

definition blank_line :: "string \<Rightarrow> bool" where
  "blank_line rawLine \<longleftrightarrow> normalizeHostnameLine rawLine = []"

definition direct_entries :: "string list \<Rightarrow> string set" where
  "direct_entries lines = {e. \<exists>l \<in> set lines. direct_entry l = Some e}"

lemma direct_entries_simps [simp]:
  "direct_entries [] = {}"
  "direct_entries (l # ls) = set_option (direct_entry l) \<union> direct_entries ls"
  by (auto simp: direct_entries_def)

lemma direct_entry_text: "direct_entry l = Some e \<Longrightarrow> entry_text e"
  by (auto simp: direct_entry_def entry_text_def Let_def split: option.splits
      dest: normalizeIPv4Literal_text normalizeIPv4CIDR_text)

lemma blank_direct: "blank_line l \<Longrightarrow> direct_entry l = None"
  by (simp add: blank_line_def direct_entry_def normalizeIPv4Literal_def normalizeIPv4CIDR_def
      parseIP_def parseAddr_def parseCIDR_def)

lemma keys_fold_addResolvedSource [simp]:
  "fst ` set (fold (\<lambda>ip m. addResolvedSource m ip l) ips m) = fst ` set m \<union> set ips"
  by (induction ips arbitrary: m) auto

lemma distinct_fold_addResolvedSource [simp]:
  "distinct (keys m) \<Longrightarrow> distinct (keys (fold (\<lambda>ip m. addResolvedSource m ip l) ips m))"
  by (induction ips arbitrary: m) auto

lemma resolveLines_blank: "blank_line l \<Longrightarrow>
    resolveLines E servers (l # ls) rs result errs tr = resolveLines E servers ls rs result errs tr"
  by (simp add: blank_line_def Let_def)

lemma resolveLines_direct: "direct_entry l = Some e \<Longrightarrow>
    resolveLines E servers (l # ls) rs result errs tr =
      resolveLines E servers ls rs (addResolvedSource result e (normalizeHostnameLine l)) errs tr"
  using blank_direct [of l]
  by (auto simp: blank_line_def direct_entry_def Let_def split: option.splits)

text \<open>One line: skipped, taken as it is, or resolved; the loop goes on with the rest.\<close>

lemma resolveLines_cases:
  assumes "resolveLines E servers (l # ls) rs result errs tr = out"
  obtains (blank) "blank_line l" "resolveLines E servers ls rs result errs tr = out"
  | (direct) e where "direct_entry l = Some e"
      "resolveLines E servers ls rs (addResolvedSource result e (normalizeHostnameLine l)) errs tr = out"
  | (noServers) e where "rs = None" "newMultiResolverWithServers servers = Inl e" "out = (Inl e, tr)"
  | (failed) r e tr1 where "direct_entry l = None" "rs = Some r \<or> newMultiResolverWithServers servers = Inr r"
      "resolveIPv4 E r (normalizeHostnameLine l) tr = (Inl e, tr1)"
      "resolveLines E servers ls (Some r) result (errs @ [e]) tr1 = out"
  | (resolved) r ips tr1 where "direct_entry l = None" "rs = Some r \<or> newMultiResolverWithServers servers = Inr r"
      "resolveIPv4 E r (normalizeHostnameLine l) tr = (Inr ips, tr1)"
      "resolveLines E servers ls (Some r)
        (fold (\<lambda>ip m. addResolvedSource m ip (normalizeHostnameLine l)) ips result) errs tr1 = out"
proof (cases "blank_line l")
  case True
  with assms show thesis by (intro blank) (simp_all only: resolveLines_blank)
next
  case False
  show thesis
  proof (cases "direct_entry l")
    case (Some e)
    with assms show thesis by (intro direct [of e]) (simp_all only: resolveLines_direct)
  next
    case None
    have l: "normalizeIPv4Literal (normalizeHostnameLine l) = None"
      "normalizeIPv4CIDR (normalizeHostnameLine l) = None"
      using None by (auto simp: direct_entry_def Let_def split: option.splits)
    obtain re where re: "(case rs of Some r \<Rightarrow> Inr r | None \<Rightarrow> newMultiResolverWithServers servers) = re"
      by simp
    show thesis
    proof (cases re)
      case (Inl e)
      then have "rs = None" "newMultiResolverWithServers servers = Inl e"
        using re by (cases rs; simp)+
      with False l assms show thesis
        by (intro noServers [of e]) (auto simp: blank_line_def Let_def)
    next
      case (Inr r)
      then have r: "rs = Some r \<or> newMultiResolverWithServers servers = Inr r"
        using re by (auto split: option.splits)
      note re' = re [unfolded Inr]
      obtain a tr1 where a: "resolveIPv4 E r (normalizeHostnameLine l) tr = (a, tr1)" by fastforce
      show thesis
      proof (cases a)
        case (Inl e)
        with a re' False l assms show thesis
          by (intro failed [OF None r, of e tr1]) (auto simp: blank_line_def Let_def)
      next
        case ips: (Inr ips)
        with a re' False l assms show thesis
          by (intro resolved [OF None r, of ips tr1]) (auto simp: blank_line_def Let_def)
      qed
    qed
  qed
qed

declare resolveLines.simps(2) [simp del]

definition resolver_for :: "string list \<Rightarrow> multiResolver option \<Rightarrow> bool" where
  "resolver_for servers rs \<longleftrightarrow> (\<forall>r. rs = Some r \<longrightarrow> publicServers r = uniqueStrings servers)"

lemma resolver_for_step:
  "resolver_for servers rs \<Longrightarrow> rs = Some r \<or> newMultiResolverWithServers servers = Inr r \<Longrightarrow>
     publicServers r = uniqueStrings servers"
  by (auto simp: resolver_for_def newMultiResolverWithServers_def Let_def split: if_splits)

lemma resolveLines_contract:
  assumes "map_order_ok E"
  shows "resolveLines E servers ls rs result errs tr = (Inr (result', errs'), tr') \<Longrightarrow>
    resolver_for servers rs \<Longrightarrow> distinct (keys result) \<Longrightarrow>
    \<exists>evs. tr' = tr @ evs \<and> distinct (keys result') \<and>
      (\<forall>ev \<in> set evs. ev_server ev \<in> set servers \<or> ns_address (all_ips evs) (ev_server ev)) \<and>
      fst ` set result \<union> direct_entries ls \<subseteq> fst ` set result' \<and>
      fst ` set result' \<subseteq> fst ` set result \<union> direct_entries ls \<union> all_ips evs"
proof (induction ls arbitrary: rs result errs tr)
  case Nil
  then show ?case by (auto intro: exI [of _ "[]"])
next
  case (Cons l ls)
  from Cons.prems(1) show ?case
  proof (cases rule: resolveLines_cases)
    case blank
    with Cons.IH [OF blank(2)] Cons.prems show ?thesis by (simp add: blank_direct)
  next
    case (direct e)
    from Cons.IH [OF direct(2)] Cons.prems direct(1) show ?thesis by simp
  next
    case (noServers e)
    then show ?thesis by simp
  next
    case (failed r e tr1)
    have p: "publicServers r = uniqueStrings servers"
      using resolver_for_step [OF Cons.prems(2) failed(2)] .
    then have rf: "resolver_for servers (Some r)" by (simp add: resolver_for_def)
    from resolveIPv4_contract [OF assms failed(3)] p obtain evs where evs: "tr1 = tr @ evs"
        "\<forall>ev \<in> set evs. ev_server ev \<in> set servers \<or> ns_address (all_ips evs) (ev_server ev)"
      by auto
    from Cons.IH [OF failed(4) rf Cons.prems(3)] obtain evs' where evs': "tr' = tr1 @ evs'"
        "distinct (keys result')"
        "\<forall>ev \<in> set evs'. ev_server ev \<in> set servers \<or> ns_address (all_ips evs') (ev_server ev)"
        "fst ` set result \<union> direct_entries ls \<subseteq> fst ` set result'"
        "fst ` set result' \<subseteq> fst ` set result \<union> direct_entries ls \<union> all_ips evs'" by blast
    then show ?thesis using evs failed(1)
      by (intro exI [of _ "evs @ evs'"]) auto
  next
    case (resolved r ips tr1)
    let ?result = "fold (\<lambda>ip m. addResolvedSource m ip (normalizeHostnameLine l)) ips result"
    have p: "publicServers r = uniqueStrings servers"
      using resolver_for_step [OF Cons.prems(2) resolved(2)] .
    then have rf: "resolver_for servers (Some r)" by (simp add: resolver_for_def)
    have d: "distinct (keys ?result)" using Cons.prems(3) by simp
    from resolveIPv4_contract [OF assms resolved(3)] p obtain evs where evs: "tr1 = tr @ evs"
        "\<forall>ev \<in> set evs. ev_server ev \<in> set servers \<or> ns_address (all_ips evs) (ev_server ev)"
        "set ips \<subseteq> all_ips evs"
      by auto
    from Cons.IH [OF resolved(4) rf d] obtain evs' where evs': "tr' = tr1 @ evs'"
        "distinct (keys result')"
        "\<forall>ev \<in> set evs'. ev_server ev \<in> set servers \<or> ns_address (all_ips evs') (ev_server ev)"
        "fst ` set ?result \<union> direct_entries ls \<subseteq> fst ` set result'"
        "fst ` set result' \<subseteq> fst ` set ?result \<union> direct_entries ls \<union> all_ips evs'" by blast
    have "fst ` set result' \<subseteq> fst ` set result \<union> direct_entries (l # ls) \<union> all_ips (evs @ evs')"
      using evs'(5) evs(3) by (simp only: keys_fold_addResolvedSource) auto
    moreover have "fst ` set result \<union> direct_entries (l # ls) \<subseteq> fst ` set result'"
      using evs'(4) resolved(1) by simp
    ultimately show ?thesis using evs(1,2) evs'(1,2,3)
      by (intro exI [of _ "evs @ evs'"]) auto
  qed
qed

text \<open>Only a missing server configuration stops the loop.\<close>

lemma resolveLines_total:
  "uniqueStrings servers \<noteq> [] \<Longrightarrow>
   \<exists>result' errs' tr'. resolveLines E servers ls rs result errs tr = (Inr (result', errs'), tr')"
proof (induction ls arbitrary: rs result errs tr)
  case (Cons l ls)
  obtain out where o: "resolveLines E servers (l # ls) rs result errs tr = out" by simp
  then have "\<exists>result' errs' tr'. out = (Inr (result', errs'), tr')"
  proof (cases rule: resolveLines_cases)
    case (noServers e)
    with Cons.prems show ?thesis by (simp add: newMultiResolverWithServers_def Let_def)
  qed (use Cons in metis)+
  with o show ?case by simp
qed simp

text \<open>Addresses and networks need no server and no query.\<close>

lemma resolveLines_offline:
  "\<forall>l \<in> set ls. blank_line l \<or> direct_entry l \<noteq> None \<Longrightarrow>
   \<exists>result'. resolveLines E servers ls rs result errs tr = (Inr (result', errs), tr) \<and>
     fst ` set result' = fst ` set result \<union> direct_entries ls"
proof (induction ls arbitrary: result)
  case (Cons l ls)
  then consider "blank_line l" | e where "direct_entry l = Some e" by auto
  then show ?case
  proof cases
    case 1
    with Cons show ?thesis by (simp add: blank_direct resolveLines_blank)
  next
    case (2 e)
    with Cons.IH [of "addResolvedSource result e (normalizeHostnameLine l)"] Cons.prems
    show ?thesis by (simp add: resolveLines_direct)
  qed
qed simp

subsection \<open>Whole lists\<close>

abbreviation host_lines :: "string \<Rightarrow> string list" where
  "host_lines hostnamesText \<equiv> split_on ''\<newline>'' hostnamesText"

lemma resolveHostnames_Inr:
  "resolveHostnames E txt servers tr = (Inr result, tr') \<longleftrightarrow>
   result \<noteq> [] \<and> (\<exists>errs. resolveLines E servers (host_lines txt) None [] [] tr = (Inr (result, errs), tr'))"
  by (auto simp: resolveHostnames_def split: prod.splits sum.splits if_splits)

lemma resolver_for_None [simp]: "resolver_for servers None"
  by (simp add: resolver_for_def)

lemma resolveHostnames_contract:
  assumes "map_order_ok E"
    and "resolveHostnames E txt servers tr = (Inr result, tr')"
  shows "\<exists>evs. tr' = tr @ evs \<and> result \<noteq> [] \<and> distinct (keys result) \<and>
    direct_entries (host_lines txt) \<subseteq> set (keys result) \<and>
    (\<forall>e \<in> set (keys result). entry_text e \<and> (e \<in> direct_entries (host_lines txt) \<or> e \<in> all_ips evs)) \<and>
    (\<forall>ev \<in> set evs. ev_server ev \<in> set servers \<or> ns_address (all_ips evs) (ev_server ev))"
proof -
  from assms(2) obtain errs where ne: "result \<noteq> []" and
    l: "resolveLines E servers (host_lines txt) None [] [] tr = (Inr (result, errs), tr')"
    by (auto simp: resolveHostnames_Inr)
  from resolveLines_contract [OF assms(1) l] obtain evs where evs: "tr' = tr @ evs"
      "distinct (keys result)"
      "\<forall>ev \<in> set evs. ev_server ev \<in> set servers \<or> ns_address (all_ips evs) (ev_server ev)"
      "direct_entries (host_lines txt) \<subseteq> fst ` set result"
      "fst ` set result \<subseteq> direct_entries (host_lines txt) \<union> all_ips evs"
    by auto
  moreover have "entry_text e" if "e \<in> direct_entries (host_lines txt) \<or> e \<in> all_ips evs" for e
    using that by (auto simp: direct_entries_def entry_text_def dest: direct_entry_text all_ips_text
        simp: entry_text_def)
  ultimately show ?thesis using ne by (intro exI [of _ evs]) auto
qed

end
