(* ===== verification/Resolver_Props.thy ===== *)
theory Resolver_Props
  imports Dns_Resolver
begin

text \<open>
  The properties of the resolver: what a resolved host list contains and where it comes from,
  which servers are asked and how often, and the canonical form and order of entries.
\<close>

text \<open>A small network for the witnesses: every server knows one address for every name.\<close>

definition demo_dns :: dns_env where
  "demo_dns = \<lparr>exchange_fn = (\<lambda>tr server name qtype.
       if qtype = typeA
       then Inr (Some \<lparr>Rcode = rcodeSuccess, Truncated = False, Answer = [RR_A [192, 0, 2, 7]]\<rparr>)
       else Inl ''refused''),
     fqdn = (\<lambda>h. h @ ''.''), splitDomainName = (\<lambda>h. split_on ''.'' (trimSuffix h ''.'')),
     rcodeToString = itoa, mapOrder = (\<lambda>tr xs. xs), unicodeLower = (\<lambda>s. s)\<rparr>"

lemma demo_dns_ok: "map_order_ok demo_dns"
  by (simp add: map_order_ok_def demo_dns_def)

lemma demo_dns_cnames: "cnames_bounded demo_dns 0"
  by (simp add: cnames_bounded_def demo_dns_def)

subsection \<open>Host lists\<close>

text \<open>
  C9: A resolved host list is sound and complete. Its keys are distinct canonical IPv4 addresses
  or networks; each one is written in the list or was answered in a DNS exchange of this
  resolution; every address or network written in the list is there; and every server that was
  asked is one of the configured ones or port 53 of an address that was itself answered
  (an authoritative server found by discovery).
\<close>
theorem resolveHostnames_sound:
  assumes "map_order_ok E"
    and "resolveHostnames E txt servers tr = (Inr result, tr')"
  shows "\<exists>evs. tr' = tr @ evs \<and> result \<noteq> [] \<and> distinct (keys result) \<and>
    direct_entries (host_lines txt) \<subseteq> set (keys result) \<and>
    (\<forall>e \<in> set (keys result). entry_text e \<and> (e \<in> direct_entries (host_lines txt) \<or> e \<in> all_ips evs)) \<and>
    (\<forall>ev \<in> set evs. ev_server ev \<in> set servers \<or> ns_address (all_ips evs) (ev_server ev))"
  using assms by (rule resolveHostnames_contract)

theorem resolveHostnames_sound_witness:
  "\<exists>evs. snd (resolveHostnames demo_dns ''a.b\<newline>10.0.0.1'' [''8.8.8.8:53''] []) = [] @ evs \<and>
    (\<forall>ev \<in> set evs. ev_server ev \<in> set [''8.8.8.8:53''] \<or> ns_address (all_ips evs) (ev_server ev))"
proof -
  have "resolveHostnames demo_dns ''a.b\<newline>10.0.0.1'' [''8.8.8.8:53''] [] =
      (Inr [(''192.0.2.7'', ''a.b''), (''10.0.0.1'', ''10.0.0.1'')],
       snd (resolveHostnames demo_dns ''a.b\<newline>10.0.0.1'' [''8.8.8.8:53''] []))"
    by (rule prod_eqI, code_simp, simp)
  from resolveHostnames_sound [OF demo_dns_ok this] show ?thesis by blast
qed

text \<open>
  C10: A name that cannot be resolved never spoils the rest of the list. With at least one usable
  DNS server configured, a list that contains an address or a network resolves successfully and
  the result contains every address and network of the list, whatever the network does.
\<close>
theorem resolveHostnames_robust:
  assumes "map_order_ok E" and "uniqueStrings servers \<noteq> []"
    and "direct_entries (host_lines txt) \<noteq> {}"
  shows "\<exists>result. fst (resolveHostnames E txt servers tr) = Inr result \<and>
    direct_entries (host_lines txt) \<subseteq> set (keys result)"
proof -
  obtain result errs tr' where
    l: "resolveLines E servers (host_lines txt) None [] [] tr = (Inr (result, errs), tr')"
    using resolveLines_total [OF assms(2)] by blast
  from resolveLines_contract [OF assms(1) l] have d: "direct_entries (host_lines txt) \<subseteq> fst ` set result"
    by auto
  with assms(3) have "result \<noteq> []" by auto
  with l d show ?thesis by (simp add: resolveHostnames_def)
qed

theorem resolveHostnames_robust_witness:
  "\<exists>result. fst (resolveHostnames demo_dns ''10.0.0.1'' [''8.8.8.8''] []) = Inr result \<and>
    direct_entries (host_lines ''10.0.0.1'') \<subseteq> set (keys result)"
proof -
  have "direct_entry ''10.0.0.1'' = Some ''10.0.0.1''" by code_simp
  then have "direct_entries (host_lines ''10.0.0.1'') \<noteq> {}" by simp
  moreover have "uniqueStrings [''8.8.8.8''] \<noteq> []" by code_simp
  ultimately show ?thesis by (intro resolveHostnames_robust demo_dns_ok)
qed

lemma resolveLines_no_servers:
  assumes "uniqueStrings servers = []"
  shows "\<exists>l \<in> set ls. \<not> blank_line l \<and> direct_entry l = None \<Longrightarrow>
    resolveLines E servers ls None result errs tr =
      (Inl ''no DNS servers configured: add at least one enabled DNS server'', tr)"
proof (induction ls arbitrary: result)
  case (Cons l ls)
  obtain out where o: "resolveLines E servers (l # ls) None result errs tr = out" by simp
  then have "out = (Inl ''no DNS servers configured: add at least one enabled DNS server'', tr)"
  proof (cases rule: resolveLines_cases)
    case blank
    with Cons show ?thesis by auto
  next
    case (direct e)
    with Cons show ?thesis by auto
  next
    case (noServers e)
    with assms show ?thesis by (simp add: newMultiResolverWithServers_def)
  next
    case (failed r e tr1)
    with assms show ?thesis by (auto simp: newMultiResolverWithServers_def)
  next
    case (resolved r ips tr1)
    with assms show ?thesis by (auto simp: newMultiResolverWithServers_def)
  qed
  with o show ?case by simp
qed simp

text \<open>
  A list of addresses, networks, comments and blank lines resolves without a single DNS
  query, whatever servers are configured: the result is exactly its entries, and the only error
  is that there are none. A list with one name and no server is an error, also without a query.
\<close>
theorem resolveHostnames_offline:
  "((\<forall>l \<in> set (host_lines txt). blank_line l \<or> direct_entry l \<noteq> None) \<longrightarrow>
     snd (resolveHostnames E txt servers tr) = tr \<and>
     (case fst (resolveHostnames E txt servers tr) of
        Inr result \<Rightarrow> set (keys result) = direct_entries (host_lines txt)
      | Inl err \<Rightarrow> direct_entries (host_lines txt) = {} \<and>
          err = ''no IPv4 addresses resolved from hostname list'')) \<and>
   ((\<exists>l \<in> set (host_lines txt). \<not> blank_line l \<and> direct_entry l = None) \<and> uniqueStrings servers = [] \<longrightarrow>
     resolveHostnames E txt servers tr =
       (Inl ''no DNS servers configured: add at least one enabled DNS server'', tr))"
proof (intro conjI impI)
  assume "\<forall>l \<in> set (host_lines txt). blank_line l \<or> direct_entry l \<noteq> None"
  from resolveLines_offline [OF this, of E servers None "[]" "[]" tr] obtain result where
    "resolveLines E servers (host_lines txt) None [] [] tr = (Inr (result, []), tr)"
    "fst ` set result = direct_entries (host_lines txt)" by auto
  then show "snd (resolveHostnames E txt servers tr) = tr"
    and "case fst (resolveHostnames E txt servers tr) of
        Inr result \<Rightarrow> set (keys result) = direct_entries (host_lines txt)
      | Inl err \<Rightarrow> direct_entries (host_lines txt) = {} \<and>
          err = ''no IPv4 addresses resolved from hostname list''"
    by (auto simp: resolveHostnames_def)
qed (auto simp: resolveHostnames_def resolveLines_no_servers)

theorem resolveHostnames_offline_witness:
  "snd (resolveHostnames demo_dns ''10.0.0.1'' [] []) = [] \<and>
   resolveHostnames demo_dns ''a.b'' [] [] =
     (Inl ''no DNS servers configured: add at least one enabled DNS server'', [])"
proof -
  have "direct_entry ''10.0.0.1'' = Some ''10.0.0.1''" "direct_entry ''a.b'' = None"
    "\<not> blank_line ''a.b''" "uniqueStrings [] = []" by code_simp+
  then show ?thesis
    using resolveHostnames_offline [of "''10.0.0.1''" demo_dns "[]" "[]"]
      resolveHostnames_offline [of "''a.b''" demo_dns "[]" "[]"] by simp
qed

subsection \<open>Lookups\<close>

text \<open>
  C35: One name is resolved with all servers together. If asking the configured servers and those
  found by discovery yields any address, the resolution succeeds with exactly the union of all
  addresses answered, without duplicates and in the order of the sort key; a discovery that
  failed does not matter.
\<close>
theorem resolveIPv4_all_answers:
  assumes "map_order_ok E"
    and "name = normalizeDNSName (unicodeLower E) hostname"
    and "tr1 = snd (lookupAuthoritativeServers E name (uniqueStrings (publicServers r)) tr)"
    and "evs = askAll E (fqdn E name) typeA (resolve_servers E r name tr) tr1"
    and "all_ips evs \<noteq> {}"
  shows "set (publicServers r) - {[]} \<subseteq> set (resolve_servers E r name tr) \<and>
    (\<exists>ips. resolveIPv4 E r hostname tr = (Inr ips, tr1 @ evs) \<and> set ips = all_ips evs \<and>
      distinct ips \<and> sorted (map ip_key ips))"
proof -
  have "set (publicServers r) - {[]} \<subseteq> set (resolve_servers E r name tr)"
    by (auto simp: resolve_servers_def)
  then show ?thesis
    using resolveIPv4_union [OF assms(1), where r = r and hostname = hostname and tr = tr]
      assms(2-5) by simp
qed

theorem resolveIPv4_all_answers_witness:
  "\<exists>ips tr'. resolveIPv4 demo_dns \<lparr>publicServers = [''9.9.9.9'']\<rparr> ''A.b'' [] = (Inr ips, tr')"
proof -
  let ?r = "\<lparr>publicServers = [''9.9.9.9'']\<rparr>"
  let ?tr1 = "snd (lookupAuthoritativeServers demo_dns ''a.b'' (uniqueStrings (publicServers ?r)) [])"
  have n: "''a.b'' = normalizeDNSName (unicodeLower demo_dns) ''A.b''" by code_simp
  have "''192.0.2.7'' \<in> set (concat (map answered_ips
      (askAll demo_dns (fqdn demo_dns ''a.b'') typeA (resolve_servers demo_dns ?r ''a.b'' []) ?tr1)))"
    by code_simp
  then have "''192.0.2.7'' \<in> all_ips (askAll demo_dns (fqdn demo_dns ''a.b'') typeA
      (resolve_servers demo_dns ?r ''a.b'' []) ?tr1)"
    by (simp only: all_ips_def set_concat set_map image_image)
  then have "all_ips (askAll demo_dns (fqdn demo_dns ''a.b'') typeA
      (resolve_servers demo_dns ?r ''a.b'' []) ?tr1) \<noteq> {}" by blast
  from resolveIPv4_all_answers [OF demo_dns_ok n refl refl this] show ?thesis by blast
qed

text \<open>
  C36: A lookup ends after a bounded number of queries, whatever the servers answer. With \<open>n\<close>
  distinct servers that put at most \<open>c\<close> CNAME records in one answer it makes at most
  \<open>queryBound n c 9\<close> queries.
\<close>
theorem lookupAWithServers_bounded:
  assumes "map_order_ok E" and "cnames_bounded E c"
  shows "\<exists>evs. snd (lookupAWithServers E hostname servers 0 tr) = tr @ evs \<and>
    length evs \<le> queryBound (length (uniqueStrings servers)) c 9 \<and>
    (\<forall>ev \<in> set evs. ev_server ev \<in> set servers)"
proof -
  from lookupAWithServers_contract [OF assms(1), of servers tr hostname 0] obtain evs where
    "snd (lookupAWithServers E hostname servers 0 tr) = tr @ evs"
    "\<forall>ev \<in> set evs. ev_server ev \<in> set (uniqueStrings servers)"
    by (auto simp: lookup_contract_def)
  moreover have m: "Suc maxCNAMEFollowDepth - 0 = 9" by (simp add: maxCNAMEFollowDepth_def)
  moreover note lookupAWithServers_length [OF assms, of hostname servers 0 tr, unfolded m]
  ultimately show ?thesis by (intro exI [of _ evs]) simp
qed

theorem lookupAWithServers_bounded_witness:
  "\<exists>evs. snd (lookupAWithServers demo_dns ''a'' [''1.1.1.1''] 0 []) = [] @ evs \<and> length evs \<le> 1"
proof -
  have "queryBound (length (uniqueStrings [''1.1.1.1''])) 0 9 = 1" by code_simp
  with lookupAWithServers_bounded [OF demo_dns_ok demo_dns_cnames, of "''a''" "[''1.1.1.1'']" "[]"]
  show ?thesis by auto
qed

subsection \<open>Canonical entries\<close>

text \<open>
  Parsing an address or a network gives its canonical text: the result of each parser is
  well formed, parsing it again gives the same text, and every four bytes (and every prefix
  length up to 32) have a text that the parser returns unchanged. No text is both.
\<close>
theorem normalize_canonical:
  "(\<forall>v e. normalizeIPv4Literal v = Some e \<longrightarrow> ip4_text e \<and> normalizeIPv4Literal e = Some e) \<and>
   (\<forall>v e. normalizeIPv4CIDR v = Some e \<longrightarrow> cidr4_text e \<and> normalizeIPv4CIDR e = Some e) \<and>
   (\<forall>b. length b = 4 \<longrightarrow> normalizeIPv4Literal (ip4_string b) = Some (ip4_string b)) \<and>
   (\<forall>b n. length b = 4 \<and> n \<le> 32 \<longrightarrow>
      normalizeIPv4CIDR (cidr4_string b n) = Some (cidr4_string b n)) \<and>
   (\<forall>e. \<not> (ip4_text e \<and> cidr4_text e))"
proof (intro conjI allI impI notI)
  fix v e assume v: "normalizeIPv4Literal v = Some e"
  then show t: "ip4_text e" by (rule normalizeIPv4Literal_text)
  then show "normalizeIPv4Literal e = Some e"
    by (auto simp: ip4_text_iff normalizeIPv4Literal_ip4_string)
next
  fix v e assume v: "normalizeIPv4CIDR v = Some e"
  then show t: "cidr4_text e" by (rule normalizeIPv4CIDR_text)
  then show "normalizeIPv4CIDR e = Some e"
    by (auto simp: cidr4_text_def normalizeIPv4CIDR_cidr4_string)
next
  fix e assume e: "ip4_text e \<and> cidr4_text e"
  then have "CHR ''/'' \<in> set e" by (auto simp: cidr4_text_def cidr4_string_def)
  moreover have "CHR ''/'' \<notin> set e" using e by (auto simp: ip4_text_iff dest: set_ip4_string)
  ultimately show False by simp
qed (simp_all add: normalizeIPv4Literal_ip4_string normalizeIPv4CIDR_cidr4_string)

theorem normalize_canonical_witness:
  "normalizeIPv4Literal ''10.0.0.1'' = Some ''10.0.0.1'' \<and> ip4_text ''10.0.0.1''"
proof -
  have "normalizeIPv4Literal '' 10.0.0.1 '' = Some ''10.0.0.1''" by code_simp
  from normalize_canonical [THEN conjunct1, rule_format, OF this] show ?thesis by (rule conj_commute [THEN iffD1])
qed

text \<open>
  A resolved entry keeps every source that produced it. Recording a list of sources for an
  entry one after the other leaves exactly the distinct sources as its labels, in the order they
  were first recorded, and the labels of other entries unchanged.
\<close>
theorem addResolvedSource_labels:
  assumes "\<forall>source \<in> set sources. atomic_label source"
  shows "labels (fold (\<lambda>source m. addResolvedSource m entry source) sources m) entry' =
    (if entry' = entry then fold add_key sources (labels m entry) else labels m entry')"
  using assms by (induction sources arbitrary: m) (auto simp: labels_addResolvedSource)

theorem addResolvedSource_labels_witness:
  "labels (fold (\<lambda>source m. addResolvedSource m ''10.0.0.1'' source) [''b'', ''a'', ''b''] []) ''10.0.0.1''
     = [''b'', ''a'']"
proof -
  have "\<forall>source \<in> set [''b'', ''a'', ''b'']. atomic_label source" by code_simp
  from addResolvedSource_labels [OF this, of "''10.0.0.1''" "[]" "''10.0.0.1''"]
  show ?thesis by (simp add: labels_def get0_def add_key_def)
qed

text \<open>
  The address of a DNS server always has a port: unless it contains brackets, the completed
  address splits into host and port, an address that already does is unchanged, and completing
  twice changes nothing.
\<close>
theorem ensureDNSServerPort_complete:
  assumes "CHR ''['' \<notin> set server" and "CHR '']'' \<notin> set server"
  shows "splitHostPort (ensureDNSServerPort server) \<noteq> None \<and>
    (splitHostPort server \<noteq> None \<longrightarrow> ensureDNSServerPort server = server) \<and>
    (splitHostPort server = None \<longrightarrow>
       splitHostPort (ensureDNSServerPort server) = Some (server, ''53'')) \<and>
    ensureDNSServerPort (ensureDNSServerPort server) = ensureDNSServerPort server"
proof -
  have v: "splitHostPort (ensureDNSServerPort server) \<noteq> None"
    using assms by (rule ensureDNSServerPort_valid)
  then have "ensureDNSServerPort (ensureDNSServerPort server) = ensureDNSServerPort server"
    unfolding ensureDNSServerPort_def [of "ensureDNSServerPort server"] by auto
  moreover have "splitHostPort server = None \<longrightarrow>
      splitHostPort (ensureDNSServerPort server) = Some (server, ''53'')"
    using assms splitHostPort_plain [of server] splitHostPort_bracket [of server]
    by (auto simp: ensureDNSServerPort_def joinHostPort_def)
  ultimately show ?thesis using v by (auto simp: ensureDNSServerPort_def)
qed

theorem ensureDNSServerPort_complete_witness:
  "splitHostPort (ensureDNSServerPort ''2001:db8::1'') = Some (''2001:db8::1'', ''53'')"
proof -
  have "splitHostPort ''2001:db8::1'' = None" by code_simp
  with ensureDNSServerPort_complete [of "''2001:db8::1''"] show ?thesis by simp
qed

text \<open>
  Without brackets around the whole address the completion is right; with them it is not:
  the bracketed form of an IPv6 address without a port becomes a text that no client can dial.
\<close>
theorem ensureDNSServerPort_brackets:
  "ensureDNSServerPort ''[2001:db8::1]'' = ''[[2001:db8::1]]:53'' \<and>
   splitHostPort (ensureDNSServerPort ''[2001:db8::1]'') = None"
  by code_simp

end
