(* ===== verification/Go_Time.thy ===== *)
theory Go_Time
  imports Go_Strings
begin

text \<open>
  Wall-clock time as Go prints it: \<^verbatim>\<open>t.UTC().Format(time.RFC3339)\<close> of a time given in seconds
  since the Unix epoch, through the proleptic Gregorian calendar. The store keeps these texts
  and compares them as strings, which is right because the format orders like the times do; that
  is the main result, for the years 0 to 9999, where the year has four digits.
\<close>

subsection \<open>The calendar\<close>

text \<open>Days are counted from January 1 of year 1.\<close>

definition days_before_year :: "int \<Rightarrow> int" where
  "days_before_year y = 365 * (y - 1) + (y - 1) div 4 - (y - 1) div 100 + (y - 1) div 400"

definition is_leap :: "int \<Rightarrow> bool" where
  "is_leap y \<longleftrightarrow> y mod 4 = 0 \<and> (y mod 100 \<noteq> 0 \<or> y mod 400 = 0)"

definition month_lengths :: "int \<Rightarrow> int list" where
  "month_lengths y = [31, if is_leap y then 29 else 28, 31, 30, 31, 30, 31, 31, 30, 31, 30, 31]"

definition year_of :: "int \<Rightarrow> int" where
  \<comment> \<open>an estimate by the mean length of a year, off by one at most\<close>
  "year_of n = (let y = n * 400 div 146097 + 1 in
     if n < days_before_year y then y - 1
     else if days_before_year (y + 1) \<le> n then y + 1 else y)"

fun month_day :: "int list \<Rightarrow> int \<Rightarrow> int \<Rightarrow> int \<times> int" where
  "month_day [] m n = (m, n + 1)"
| "month_day (l # ls) m n = (if n < l \<or> ls = [] then (m, n + 1) else month_day ls (m + 1) (n - l))"

definition unix_day :: int where "unix_day = 719162"

definition civil :: "int \<Rightarrow> int \<times> int \<times> int" where
  "civil n = (let y = year_of n; (m, d) = month_day (month_lengths y) 1 (n - days_before_year y)
     in (y, m, d))"

fun padded :: "nat \<Rightarrow> int \<Rightarrow> string" where
  "padded 0 n = []"
| "padded (Suc w) n = padded w (n div 10) @ [digit_char (nat (n mod 10))]"

definition year_text :: "int \<Rightarrow> string" where
  "year_text y = (if 0 \<le> y \<and> y \<le> 9999 then padded 4 y
     else if y < 0 then CHR ''-'' #
       (if y < -9999 then itoa (nat (- y)) else padded 4 (- y))
     else itoa (nat y))"

definition rfc3339 :: "int \<Rightarrow> string" where
  "rfc3339 t =
     (let n = t div 86400 + unix_day; s = t mod 86400; (y, m, d) = civil n in
      year_text y @ ''-'' @ padded 2 m @ ''-'' @ padded 2 d @ ''T'' @
      padded 2 (s div 3600) @ '':'' @ padded 2 (s div 60 mod 60) @ '':'' @ padded 2 (s mod 60) @ ''Z'')"

text \<open>The seconds whose year has four digits.\<close>

definition rfc3339_range :: "int \<Rightarrow> bool" where
  "rfc3339_range t \<longleftrightarrow> - 62167219200 \<le> t \<and> t < 253402300800"

subsection \<open>Fixed-width texts order like numbers\<close>

lemma length_padded [simp]: "length (padded w n) = w"
  by (induction w arbitrary: n) auto

lemma less_append_iff:
  "length xs = length ys \<Longrightarrow>
   (xs @ as < ys @ bs) = (xs < ys \<or> xs = ys \<and> as < (bs :: 'a :: linorder list))"
  by (induction xs ys rule: list_induct2) auto

lemma digit_char_less: "a < 10 \<Longrightarrow> b < 10 \<Longrightarrow> digit_char a < digit_char b \<longleftrightarrow> a < b"
  by (simp add: digit_char_def less_char_def)

lemma digit_char_inject: "a < 10 \<Longrightarrow> b < 10 \<Longrightarrow> digit_char a = digit_char b \<longleftrightarrow> a = b"
  by (metis digit_val_char)

lemma padded_less:
  "0 \<le> a \<Longrightarrow> a < b \<Longrightarrow> b < 10 ^ w \<Longrightarrow> padded w a < padded w b"
proof (induction w arbitrary: a b)
  case 0
  then show ?case by simp
next
  case (Suc w)
  show ?case
  proof (cases "a div 10 = b div 10")
    case True
    then have "a mod 10 < b mod 10" using Suc.prems(2) by (metis div_mult_mod_eq add_less_cancel_left)
    with True show ?thesis by (simp add: less_append_iff digit_char_less)
  next
    case False
    then have "a div 10 < b div 10" using Suc.prems(2) zdiv_mono1 [of a b 10] by simp
    moreover have "b div 10 < 10 ^ w" using Suc.prems(3) by (simp add: div_less_iff_less_mult)
    ultimately have "padded w (a div 10) < padded w (b div 10)"
      using Suc.IH [of "a div 10" "b div 10"] Suc.prems(1) by simp
    then show ?thesis by (simp add: less_append_iff)
  qed
qed

subsection \<open>The calendar is monotone\<close>

lemma div_step:
  assumes "0 < k"
  shows "((x :: int) + 1) div k = x div k + (if (x + 1) mod k = 0 then 1 else 0)"
proof -
  let ?q = "(x + 1) div k" and ?r = "(x + 1) mod k"
  have e: "x + 1 = k * ?q + ?r" and r: "0 \<le> ?r" "?r < k"
    using assms by simp_all
  show ?thesis
  proof (cases "?r = 0")
    case True
    then have "x = k * (?q - 1) + (k - 1)" using e by (simp add: algebra_simps)
    then have "x div k = ?q - 1" by (rule int_div_pos_eq) (use assms in auto)
    with True show ?thesis by simp
  next
    case False
    have "x = k * ?q + (?r - 1)" using e by linarith
    then have "x div k = ?q" by (rule int_div_pos_eq) (use r False in linarith)+
    with False show ?thesis by simp
  qed
qed

lemma leap_count:
  "(q \<Longrightarrow> p) \<Longrightarrow> (r \<Longrightarrow> q) \<Longrightarrow>
   (if p then 1 else 0) - (if q then 1 else 0) + (if r then 1 else 0) =
   (if p \<and> (\<not> q \<or> r) then 366 else 365 :: int) - 365"
  by (cases p; cases q; cases r; simp)

lemma leap_sum:
  "(a' :: int) = a + i \<Longrightarrow> b' = b + j \<Longrightarrow> c' = c + k \<Longrightarrow> i - j + k = l - 365 \<Longrightarrow>
   365 * y + a' - b' + c' = 365 * (y - 1) + a - b + c + l"
  by simp

lemma days_before_year_step:
  "days_before_year (y + 1) = days_before_year y + (if is_leap y then 366 else 365)"
proof -
  have l: "y mod 100 = 0 \<Longrightarrow> y mod 4 = 0"
    unfolding mod_eq_0_iff_dvd by (rule dvd_trans [of _ 100]) simp_all
  have l': "y mod 400 = 0 \<Longrightarrow> y mod 100 = 0"
    unfolding mod_eq_0_iff_dvd by (rule dvd_trans [of _ 400]) simp_all
  note step = div_step [of _ "y - 1", unfolded diff_add_cancel, OF zero_less_numeral]
  show ?thesis
    unfolding days_before_year_def is_leap_def add_diff_cancel_right'
    by (rule leap_sum [OF step step step leap_count [OF l l']])
qed

lemma div_bounds: "0 < k \<Longrightarrow> k * ((x :: int) div k) \<le> x \<and> x < k * (x div k) + k"
  using pos_mod_bound [of k x] pos_mod_sign [of k x] mult_div_mod_eq [of k x] by linarith

lemma days_before_year_approx:
  "400 * days_before_year y \<le> 146097 * (y - 1) + 396 \<and>
   146097 * (y - 1) - 699 \<le> 400 * days_before_year y"
proof -
  have "4 * ((y - 1) div 4) \<le> y - 1 \<and> y - 1 < 4 * ((y - 1) div 4) + 4"
    "100 * ((y - 1) div 100) \<le> y - 1 \<and> y - 1 < 100 * ((y - 1) div 100) + 100"
    "400 * ((y - 1) div 400) \<le> y - 1 \<and> y - 1 < 400 * ((y - 1) div 400) + 400"
    by (rule div_bounds, simp)+
  then show ?thesis unfolding days_before_year_def by (simp add: algebra_simps)
qed

lemma year_of_bounds: "days_before_year (year_of n) \<le> n \<and> n < days_before_year (year_of n + 1)"
proof -
  define q where "q = n * 400 div 146097"
  have d: "146097 * q \<le> n * 400" "n * 400 < 146097 * q + 146097"
    using div_bounds [of 146097 "n * 400"] unfolding q_def by simp_all
  have "days_before_year q \<le> n"
    using d conjunct1 [OF days_before_year_approx [of q]] by (simp add: algebra_simps)
  moreover have "n < days_before_year (q + 3)"
    using d conjunct2 [OF days_before_year_approx [of "q + 3"]] by (simp add: algebra_simps)
  moreover have "year_of n = (if n < days_before_year (q + 1) then q
      else if days_before_year (q + 2) \<le> n then q + 2 else q + 1)"
    by (simp add: year_of_def Let_def q_def add.commute)
  ultimately show ?thesis by (auto simp: add.commute)
qed

lemma days_before_year_mono: "x \<le> y \<Longrightarrow> days_before_year x \<le> days_before_year y"
proof -
  assume "x \<le> y"
  have "days_before_year x \<le> days_before_year (x + int k)" for k
  proof (induction k)
    case (Suc k)
    then show ?case
      using days_before_year_step [of "x + int k"] by (simp add: add.commute add.left_commute split: if_splits)
  qed simp
  from this [of "nat (y - x)"] show ?thesis using \<open>x \<le> y\<close> by simp
qed

lemma year_of_mono: "m \<le> n \<Longrightarrow> year_of m \<le> year_of n"
proof (rule ccontr)
  assume "m \<le> n" "\<not> year_of m \<le> year_of n"
  then have "days_before_year (year_of n + 1) \<le> days_before_year (year_of m)"
    by (intro days_before_year_mono) simp
  with \<open>m \<le> n\<close> show False using year_of_bounds [of m] year_of_bounds [of n] by linarith
qed

lemma month_day_mono:
  "a < b \<Longrightarrow> ls \<noteq> [] \<Longrightarrow>
   fst (month_day ls m a) < fst (month_day ls m b) \<or>
   fst (month_day ls m a) = fst (month_day ls m b) \<and> snd (month_day ls m a) < snd (month_day ls m b)"
proof (induction ls arbitrary: m a b)
  case (Cons l ls)
  have ge: "m \<le> fst (month_day ks m n)" for ks m n
    by (induction ks m n rule: month_day.induct) auto
  show ?case
  proof (cases "ls = [] \<or> b < l \<or> l \<le> a")
    case True
    then show ?thesis using Cons.IH [of "a - l" "b - l" "m + 1"] Cons.prems by auto
  next
    case False
    then show ?thesis using ge [of "m + 1" ls "b - l"] Cons.prems by auto
  qed
qed simp

lemma month_day_range:
  "0 \<le> n \<Longrightarrow> n < sum_list ls \<Longrightarrow> \<forall>l \<in> set ls. l \<le> 31 \<Longrightarrow>
   m \<le> fst (month_day ls m n) \<and> fst (month_day ls m n) < m + int (length ls) \<and>
   1 \<le> snd (month_day ls m n) \<and> snd (month_day ls m n) \<le> 31"
proof (induction ls m n rule: month_day.induct)
  case (2 l ls m n)
  show ?case
  proof (cases "n < l \<or> ls = []")
    case True
    with 2 show ?thesis by auto
  next
    case False
    with 2 show ?thesis by auto
  qed
qed auto

lemma civil_range:
  "civil n = (y, m, d) \<Longrightarrow> y = year_of n \<and> 1 \<le> m \<and> m \<le> 12 \<and> 1 \<le> d \<and> d \<le> 31"
  using year_of_bounds [of n] days_before_year_step [of "year_of n"]
    month_day_range [of "n - days_before_year (year_of n)" "month_lengths (year_of n)" 1]
  by (auto simp: civil_def Let_def month_lengths_def split: prod.splits if_splits)

lemma civil_mono:
  assumes "a < b" and "civil a = (y, m, d)" and "civil b = (y', m', d')"
  shows "y < y' \<or> y = y' \<and> (m < m' \<or> m = m' \<and> d < d')"
proof (cases "year_of a = year_of b")
  case True
  have "month_lengths (year_of a) \<noteq> []" by (simp add: month_lengths_def)
  with True assms show ?thesis
    using month_day_mono [of "a - days_before_year (year_of a)" "b - days_before_year (year_of a)"
        "month_lengths (year_of a)" 1]
    by (auto simp: civil_def Let_def split: prod.splits)
next
  case False
  then show ?thesis using assms year_of_mono [of a b] civil_range by fastforce
qed

subsection \<open>Texts order like times\<close>

lemma padded_append_less:
  "a < b \<Longrightarrow> 0 \<le> a \<Longrightarrow> b < 10 ^ w \<Longrightarrow> padded w a @ xs < padded w b @ ys"
  using padded_less [of a b w] by (simp add: less_append_iff)

lemma padded_field_less:
  "a < b \<or> a = b \<and> R \<Longrightarrow> 0 \<le> a \<Longrightarrow> b < 10 ^ w \<Longrightarrow> (R \<Longrightarrow> xs < ys) \<Longrightarrow>
   padded w a @ [c] @ xs < padded w b @ [c] @ ys"
  using padded_append_less [of a b w] by (auto simp: less_append_iff)

lemma year_of_range:
  assumes "rfc3339_range t"
  shows "0 \<le> year_of (t div 86400 + unix_day) \<and> year_of (t div 86400 + unix_day) \<le> 9999"
proof -
  have "- 366 \<le> t div 86400 + unix_day" "t div 86400 + unix_day \<le> 3652058"
    using assms div_bounds [of 86400 t] unfolding rfc3339_range_def unix_day_def by linarith+
  moreover have "year_of (- 366) = 0" "year_of 3652058 = 9999"
    by (simp_all add: year_of_def days_before_year_def)
  ultimately show ?thesis using year_of_mono by metis
qed

lemma radix_less:
  assumes "(A * 60 + M) * 60 + S < (A' * 60 + M') * 60 + (S' :: int)"
    and "0 \<le> M" "M' < 60" "0 \<le> S" "S' < 60"
  shows "A < A' \<or> A = A' \<and> (M < M' \<or> M = M' \<and> S < S')"
proof (rule ccontr)
  assume n: "\<not> ?thesis"
  then consider "A' < A" | "A' = A" "M' < M" | "A' = A" "M' = M" "S' \<le> S" by linarith
  then show False
  proof cases
    case 1
    then have "A' + 1 \<le> A" by simp
    with assms show False by simp
  next
    case 2
    then have "M' + 1 \<le> M" by simp
    with 2 assms show False by simp
  qed (use assms in simp)
qed

lemma clock_mono:
  assumes "(a :: int) < b"
  shows "a div 3600 < b div 3600 \<or> a div 3600 = b div 3600 \<and>
    (a div 60 mod 60 < b div 60 mod 60 \<or> a div 60 mod 60 = b div 60 mod 60 \<and> a mod 60 < b mod 60)"
proof -
  have e: "(x div 3600 * 60 + x div 60 mod 60) * 60 + x mod 60 = x" for x :: int
  proof -
    have d: "x div 3600 = x div 60 div 60" using zdiv_zmult2_eq [of 60 x 60] by simp
    show ?thesis unfolding d div_mult_mod_eq ..
  qed
  show ?thesis
    by (rule radix_less) (simp_all only: e assms pos_mod_sign pos_mod_bound zero_less_numeral)
qed

lemma rfc3339_eq:
  assumes "rfc3339_range t" and "civil (t div 86400 + unix_day) = (y, m, d)"
  shows "rfc3339 t = padded 4 y @ ''-'' @ padded 2 m @ ''-'' @ padded 2 d @ ''T'' @
      padded 2 (t mod 86400 div 3600) @ '':'' @ padded 2 (t mod 86400 div 60 mod 60) @ '':'' @
      padded 2 (t mod 86400 mod 60) @ ''Z''"
  using assms year_of_range [OF assms(1)] civil_range [OF assms(2)]
  unfolding rfc3339_def by (simp only: Let_def prod.case year_text_def) simp

lemma rfc3339_less:
  assumes "rfc3339_range s" and "rfc3339_range t" and "s < t"
  shows "rfc3339 s < rfc3339 t"
proof -
  obtain y m d where c: "civil (s div 86400 + unix_day) = (y, m, d)" by (metis prod.exhaust)
  obtain y' m' d' where c': "civil (t div 86400 + unix_day) = (y', m', d')" by (metis prod.exhaust)
  note r = civil_range [OF c] civil_range [OF c'] year_of_range [OF assms(1)] year_of_range [OF assms(2)]
  let ?a = "s mod 86400" and ?b = "t mod 86400"
  have ab: "0 \<le> ?a" "?a < 86400" "0 \<le> ?b" "?b < 86400" by simp_all
  have nonneg: "0 \<le> y" "0 \<le> m" "0 \<le> d" "0 \<le> ?a div 3600" "0 \<le> ?a div 60 mod 60" "0 \<le> ?a mod 60"
    using r div_bounds [of 3600 ?a] ab by simp_all
  have "y' < 10 ^ 4" "m' < 10 ^ 2" "d' < 10 ^ 2" using r by simp_all
  moreover have "?b div 3600 < 10 ^ 2" using div_bounds [of 3600 ?b] ab by simp
  moreover have "?b div 60 mod 60 < 10 ^ 2" "?b mod 60 < 10 ^ 2"
    using pos_mod_bound [of 60 "?b div 60"] pos_mod_bound [of 60 ?b] by simp_all
  ultimately have small: "y' < 10 ^ 4" "m' < 10 ^ 2" "d' < 10 ^ 2" "?b div 3600 < 10 ^ 2"
    "?b div 60 mod 60 < 10 ^ 2" "?b mod 60 < 10 ^ 2" .
  have "s div 86400 \<le> t div 86400" using assms(3) by (simp add: zdiv_mono1)
  then consider "s div 86400 < t div 86400" | "s div 86400 = t div 86400" "?a < ?b"
    using assms(3) by (metis div_mult_mod_eq add_less_cancel_left le_less)
  then have "y < y' \<or> y = y' \<and> (m < m' \<or> m = m' \<and> (d < d' \<or> d = d' \<and>
      (?a div 3600 < ?b div 3600 \<or> ?a div 3600 = ?b div 3600 \<and>
       (?a div 60 mod 60 < ?b div 60 mod 60 \<or> ?a div 60 mod 60 = ?b div 60 mod 60 \<and>
        ?a mod 60 < ?b mod 60))))"
  proof cases
    case 1
    then have "s div 86400 + unix_day < t div 86400 + unix_day" by simp
    from civil_mono [OF this c c'] show ?thesis by blast
  next
    case 2
    then have "y = y' \<and> m = m' \<and> d = d'" using c c' by simp
    with clock_mono [OF 2(2)] show ?thesis by blast
  qed
  then show ?thesis
    unfolding rfc3339_eq [OF assms(1) c] rfc3339_eq [OF assms(2) c']
    by - (((erule padded_field_less, rule nonneg, rule small)+)?,
      erule padded_append_less, rule nonneg, rule small)
qed

lemma rfc3339_less_iff:
  "rfc3339_range s \<Longrightarrow> rfc3339_range t \<Longrightarrow> rfc3339 s < rfc3339 t \<longleftrightarrow> s < t"
  using rfc3339_less [of s t] rfc3339_less [of t s] by (cases s t rule: linorder_cases) auto

lemma rfc3339_inject:
  "rfc3339_range s \<Longrightarrow> rfc3339_range t \<Longrightarrow> rfc3339 s = rfc3339 t \<longleftrightarrow> s = t"
  using rfc3339_less [of s t] rfc3339_less [of t s] by (cases s t rule: linorder_cases) auto

end
