(* ===== verification/Store.thy ===== *)
theory Store
  imports Go_Time
begin

text \<open>
  The persistence layer, \<^verbatim>\<open>internal/store/store.go\<close>: the tables as lists of rows with their
  AUTOINCREMENT counters, and every SQL statement of the file as a function on them.

  What the database and its driver do beyond the SQL text is an argument: statement number
  \<open>n\<close> runs in the context \<open>dctx E n\<close>, which says whether it fails (\<open>fault\<close>: I/O, lock, full
  disk), whether the pooled connection it runs on enforces foreign keys (\<open>fk_on\<close>), what the
  clock reads (\<open>ctx_time\<close>, in seconds) and in which order rows with equal sort keys come
  (\<open>row_rank\<close>). A statement that fails has no effect.
\<close>

definition DefaultObservedIPTTLHours :: int where
  "DefaultObservedIPTTLHours = 7 * 24"

record Controller =
  c_id :: int
  c_name :: string
  c_url :: string
  c_apiKey :: string
  c_site :: string
  c_skipTLSVerify :: bool
  c_createdAt :: string
  c_updatedAt :: string

record SyncJob =
  j_id :: int
  j_name :: string
  j_controllerID :: int
  j_networkListID :: string
  j_hostnames :: string
  j_schedule :: string
  j_ttlHours :: int
  j_enabled :: bool
  j_lastRunAt :: "string option"
  j_lastResult :: "string option"
  j_createdAt :: string
  j_updatedAt :: string
  j_controllerName :: string

text \<open>A row of \<^verbatim>\<open>sync_jobs\<close>: without the joined name, and the flag as an integer.\<close>

record job_row =
  r_id :: int
  r_name :: string
  r_controllerID :: int
  r_networkListID :: string
  r_hostnames :: string
  r_schedule :: string
  r_ttlHours :: int
  r_enabled :: int
  r_lastRunAt :: "string option"
  r_lastResult :: "string option"
  r_createdAt :: string
  r_updatedAt :: string

record RunLog =
  l_id :: int
  l_jobID :: int
  l_startedAt :: string
  l_finishedAt :: "string option"
  l_status :: string
  l_message :: string
  l_changesMade :: int
  l_details :: string

record DNSServer =
  d_id :: int
  d_name :: string
  d_address :: string
  d_enabled :: bool
  d_createdAt :: string
  d_updatedAt :: string

record dns_row =
  s_id :: int
  s_name :: string
  s_address :: string
  s_enabled :: int
  s_createdAt :: string
  s_updatedAt :: string

record observed_row =
  o_jobID :: int
  o_ip :: string
  o_source :: string
  o_firstSeen :: string
  o_lastSeen :: string

record db =
  schema :: "string list"
  controllers :: "Controller list"
  ctrlSeq :: int
  sync_jobs :: "job_row list"
  jobSeq :: int
  run_logs :: "RunLog list"
  logSeq :: int
  dns_servers :: "dns_row list"
  dnsSeq :: int
  job_observed_ips :: "observed_row list"
  stmtNo :: nat

record stmt_ctx =
  fault :: "string option"
  fk_on :: bool
  ctx_time :: int
  row_rank :: "int \<Rightarrow> nat"

record dbenv =
  dctx :: "nat \<Rightarrow> stmt_ctx"
  fkErr :: string
  fullErr :: string
  dupColumnErr :: string
  noTableErr :: "string \<Rightarrow> string"

definition errNoRows :: string where
  "errNoRows = ''sql: no rows in result set''"

definition maxInt64 :: int where
  "maxInt64 = 9223372036854775807"

subsection \<open>Statements\<close>

text \<open>
  One statement that needs the tables and columns \<open>objs\<close>. \<open>nowText\<close> is the text of the clock
  as the operations read it before they run their statement.
\<close>

definition dbExec :: "dbenv \<Rightarrow> string list \<Rightarrow> (stmt_ctx \<Rightarrow> db \<Rightarrow> 'a res \<times> db) \<Rightarrow> db \<Rightarrow> 'a res \<times> db" where
  "dbExec E objs f s =
     (let ctx = dctx E (stmtNo s); s1 = s\<lparr>stmtNo := Suc (stmtNo s)\<rparr> in
      case fault ctx of
        Some err \<Rightarrow> (Inl err, s1)
      | None \<Rightarrow>
          (case filter (\<lambda>t. t \<notin> set (schema s)) objs of
             t # _ \<Rightarrow> (Inl (noTableErr E t), s1)
           | [] \<Rightarrow> (case f ctx s1 of (Inl err, _) \<Rightarrow> (Inl err, s1) | (Inr a, s2) \<Rightarrow> (Inr a, s2))))"

definition dbQuery :: "dbenv \<Rightarrow> string list \<Rightarrow> (stmt_ctx \<Rightarrow> db \<Rightarrow> 'a res) \<Rightarrow> db \<Rightarrow> 'a res \<times> db" where
  "dbQuery E objs q = dbExec E objs (\<lambda>ctx s. (q ctx s, s))"

definition nowText :: "stmt_ctx \<Rightarrow> string" where
  "nowText ctx = rfc3339 (ctx_time ctx)"

definition clockNow :: "dbenv \<Rightarrow> db \<Rightarrow> string" where
  "clockNow E s = nowText (dctx E (stmtNo s))"

text \<open>\<^verbatim>\<open>ORDER BY\<close>: the rows come in some order and are sorted; equal keys keep that order.\<close>

definition order_by :: "stmt_ctx \<Rightarrow> ('r \<Rightarrow> int) \<Rightarrow> ('r \<Rightarrow> 'k :: linorder) \<Rightarrow> 'r list \<Rightarrow> 'r list" where
  "order_by ctx rid key rows = sort_key key (sort_key (\<lambda>r. row_rank ctx (rid r)) rows)"

fun first_row :: "'r list \<Rightarrow> 'r res" where
  "first_row [] = Inl errNoRows"
| "first_row (r # rs) = Inr r"

definition boolToInt :: "bool \<Rightarrow> int" where
  "boolToInt b = (if b then 1 else 0)"

definition normalizeObservedIPTTLHours :: "int \<Rightarrow> int" where
  "normalizeObservedIPTTLHours hours = (if hours < 0 then DefaultObservedIPTTLHours else hours)"

text \<open>The next AUTOINCREMENT number of a table, which never reuses one.\<close>

definition nextId :: "dbenv \<Rightarrow> int \<Rightarrow> int res" where
  "nextId E seqNo = (if seqNo < maxInt64 then Inr (seqNo + 1) else Inl (fullErr E))"

subsection \<open>Controllers\<close>

abbreviation controllerObjs :: "string list" where
  "controllerObjs \<equiv> [''controllers'', ''controllers.skip_tls_verify'']"

definition listControllers :: "dbenv \<Rightarrow> db \<Rightarrow> Controller list res \<times> db" where
  "listControllers E = dbQuery E controllerObjs
     (\<lambda>ctx s. Inr (order_by ctx c_id c_name (controllers s)))"

definition getController :: "dbenv \<Rightarrow> int \<Rightarrow> db \<Rightarrow> Controller res \<times> db" where
  "getController E i = dbQuery E controllerObjs
     (\<lambda>ctx s. first_row (filter (\<lambda>c. c_id c = i) (controllers s)))"

definition insertController :: "dbenv \<Rightarrow> Controller \<Rightarrow> stmt_ctx \<Rightarrow> db \<Rightarrow> int res \<times> db" where
  "insertController E c ctx s =
     (case nextId E (ctrlSeq s) of
        Inl err \<Rightarrow> (Inl err, s)
      | Inr i \<Rightarrow>
          (Inr i, s\<lparr>controllers := controllers s @
             [c\<lparr>c_id := i, c_createdAt := nowText ctx, c_updatedAt := nowText ctx\<rparr>], ctrlSeq := i\<rparr>))"

definition defaultSite :: "Controller \<Rightarrow> Controller" where
  "defaultSite c = (if c_site c = [] then c\<lparr>c_site := ''default''\<rparr> else c)"

text \<open>The pointer argument is changed in place, so the caller gets it back.\<close>

definition createController :: "dbenv \<Rightarrow> Controller \<Rightarrow> db \<Rightarrow> (int res \<times> Controller) \<times> db" where
  "createController E c s =
     (let c = defaultSite c;
          (r, s) = dbExec E controllerObjs (insertController E c) s in
      ((r, c), s))"

definition updateController :: "dbenv \<Rightarrow> Controller \<Rightarrow> db \<Rightarrow> unit res \<times> db" where
  "updateController E c = dbExec E controllerObjs
     (\<lambda>ctx s. (Inr (), s\<lparr>controllers := map (\<lambda>r.
        if c_id r = c_id c
        then r\<lparr>c_name := c_name c, c_url := c_url c, c_apiKey := c_apiKey c, c_site := c_site c,
               c_skipTLSVerify := c_skipTLSVerify c, c_updatedAt := nowText ctx\<rparr>
        else r) (controllers s)\<rparr>))"

text \<open>A controller that a job refers to cannot be deleted while foreign keys are enforced.\<close>

definition deleteController :: "dbenv \<Rightarrow> int \<Rightarrow> db \<Rightarrow> unit res \<times> db" where
  "deleteController E i = dbExec E [''controllers'']
     (\<lambda>ctx s.
        if fk_on ctx \<and> (\<exists>c \<in> set (controllers s). c_id c = i) \<and>
           (\<exists>j \<in> set (sync_jobs s). r_controllerID j = i)
        then (Inl (fkErr E), s)
        else (Inr (), s\<lparr>controllers := filter (\<lambda>c. c_id c \<noteq> i) (controllers s)\<rparr>))"

subsection \<open>Sync jobs\<close>

abbreviation jobObjs :: "string list" where
  "jobObjs \<equiv> [''sync_jobs'', ''sync_jobs.observed_ip_ttl_hours'']"

definition controllerName :: "db \<Rightarrow> int \<Rightarrow> string" where
  \<comment> \<open>\<^verbatim>\<open>COALESCE(c.name, '')\<close> of the left join\<close>
  "controllerName s i =
     (case filter (\<lambda>c. c_id c = i) (controllers s) of [] \<Rightarrow> [] | c # _ \<Rightarrow> c_name c)"

definition scanJob :: "db \<Rightarrow> job_row \<Rightarrow> SyncJob" where
  "scanJob s r =
     \<lparr>j_id = r_id r, j_name = r_name r, j_controllerID = r_controllerID r,
      j_networkListID = r_networkListID r, j_hostnames = r_hostnames r, j_schedule = r_schedule r,
      j_ttlHours = normalizeObservedIPTTLHours (r_ttlHours r), j_enabled = (r_enabled r \<noteq> 0),
      j_lastRunAt = r_lastRunAt r, j_lastResult = r_lastResult r, j_createdAt = r_createdAt r,
      j_updatedAt = r_updatedAt r, j_controllerName = controllerName s (r_controllerID r)\<rparr>"

definition listJobs :: "dbenv \<Rightarrow> db \<Rightarrow> SyncJob list res \<times> db" where
  "listJobs E = dbQuery E (''controllers'' # jobObjs)
     (\<lambda>ctx s. Inr (map (scanJob s) (order_by ctx r_id r_name (sync_jobs s))))"

definition getJob :: "dbenv \<Rightarrow> int \<Rightarrow> db \<Rightarrow> SyncJob res \<times> db" where
  "getJob E i = dbQuery E (''controllers'' # jobObjs)
     (\<lambda>ctx s. map_sum id (scanJob s) (first_row (filter (\<lambda>j. r_id j = i) (sync_jobs s))))"

definition insertJob :: "dbenv \<Rightarrow> SyncJob \<Rightarrow> stmt_ctx \<Rightarrow> db \<Rightarrow> int res \<times> db" where
  "insertJob E j ctx s =
     (case nextId E (jobSeq s) of
        Inl err \<Rightarrow> (Inl err, s)
      | Inr i \<Rightarrow>
          if fk_on ctx \<and> j_controllerID j \<notin> c_id ` set (controllers s) then (Inl (fkErr E), s)
          else (Inr i, s\<lparr>sync_jobs := sync_jobs s @
            [\<lparr>r_id = i, r_name = j_name j, r_controllerID = j_controllerID j,
              r_networkListID = j_networkListID j, r_hostnames = j_hostnames j,
              r_schedule = j_schedule j, r_ttlHours = j_ttlHours j,
              r_enabled = boolToInt (j_enabled j), r_lastRunAt = None, r_lastResult = None,
              r_createdAt = nowText ctx, r_updatedAt = nowText ctx\<rparr>], jobSeq := i\<rparr>))"

definition normalizeJobTTL :: "SyncJob \<Rightarrow> SyncJob" where
  "normalizeJobTTL j = j\<lparr>j_ttlHours := normalizeObservedIPTTLHours (j_ttlHours j)\<rparr>"

definition createJob :: "dbenv \<Rightarrow> SyncJob \<Rightarrow> db \<Rightarrow> (int res \<times> SyncJob) \<times> db" where
  "createJob E j s =
     (let j = normalizeJobTTL j; (r, s) = dbExec E jobObjs (insertJob E j) s in ((r, j), s))"

definition setJobRow :: "SyncJob \<Rightarrow> string \<Rightarrow> job_row \<Rightarrow> job_row" where
  "setJobRow j now r =
     r\<lparr>r_name := j_name j, r_controllerID := j_controllerID j,
       r_networkListID := j_networkListID j, r_hostnames := j_hostnames j,
       r_schedule := j_schedule j, r_ttlHours := j_ttlHours j,
       r_enabled := boolToInt (j_enabled j), r_updatedAt := now\<rparr>"

definition setJob :: "dbenv \<Rightarrow> SyncJob \<Rightarrow> stmt_ctx \<Rightarrow> db \<Rightarrow> unit res \<times> db" where
  "setJob E j ctx s =
     (if fk_on ctx \<and> j_id j \<in> r_id ` set (sync_jobs s) \<and>
         j_controllerID j \<notin> c_id ` set (controllers s)
      then (Inl (fkErr E), s)
      else (Inr (), s\<lparr>sync_jobs := map (\<lambda>r.
         if r_id r = j_id j then setJobRow j (nowText ctx) r else r) (sync_jobs s)\<rparr>))"

definition updateJob :: "dbenv \<Rightarrow> SyncJob \<Rightarrow> db \<Rightarrow> (unit res \<times> SyncJob) \<times> db" where
  "updateJob E j s =
     (let j = normalizeJobTTL j; (r, s) = dbExec E jobObjs (setJob E j) s in ((r, j), s))"

text \<open>Deleting a job deletes its logs and observed addresses while foreign keys are enforced.\<close>

definition deleteJob :: "dbenv \<Rightarrow> int \<Rightarrow> db \<Rightarrow> unit res \<times> db" where
  "deleteJob E i = dbExec E [''sync_jobs'']
     (\<lambda>ctx s.
        let s1 = s\<lparr>sync_jobs := filter (\<lambda>j. r_id j \<noteq> i) (sync_jobs s)\<rparr> in
        if fk_on ctx \<and> i \<in> r_id ` set (sync_jobs s)
        then (Inr (), s1\<lparr>run_logs := filter (\<lambda>l. l_jobID l \<noteq> i) (run_logs s),
                         job_observed_ips := filter (\<lambda>x. o_jobID x \<noteq> i) (job_observed_ips s)\<rparr>)
        else (Inr (), s1))"

definition updateJobLastRun :: "dbenv \<Rightarrow> int \<Rightarrow> string \<Rightarrow> string \<Rightarrow> db \<Rightarrow> unit res \<times> db" where
  "updateJobLastRun E i runAt result = dbExec E [''sync_jobs'']
     (\<lambda>ctx s. (Inr (), s\<lparr>sync_jobs := map (\<lambda>r.
        if r_id r = i
        then r\<lparr>r_lastRunAt := Some runAt, r_lastResult := Some result, r_updatedAt := runAt\<rparr>
        else r) (sync_jobs s)\<rparr>))"

subsection \<open>Run logs\<close>

definition createRunLog :: "dbenv \<Rightarrow> RunLog \<Rightarrow> db \<Rightarrow> int res \<times> db" where
  "createRunLog E l = dbExec E [''run_logs'']
     (\<lambda>ctx s.
        case nextId E (logSeq s) of
          Inl err \<Rightarrow> (Inl err, s)
        | Inr i \<Rightarrow>
            if fk_on ctx \<and> l_jobID l \<notin> r_id ` set (sync_jobs s) then (Inl (fkErr E), s)
            else (Inr i, s\<lparr>run_logs := run_logs s @ [l\<lparr>l_id := i, l_finishedAt := None\<rparr>],
                            logSeq := i\<rparr>))"

definition updateRunLog :: "dbenv \<Rightarrow> RunLog \<Rightarrow> db \<Rightarrow> unit res \<times> db" where
  "updateRunLog E l = dbExec E [''run_logs'']
     (\<lambda>ctx s. (Inr (), s\<lparr>run_logs := map (\<lambda>r.
        if l_id r = l_id l
        then r\<lparr>l_finishedAt := l_finishedAt l, l_status := l_status l, l_message := l_message l,
               l_changesMade := l_changesMade l, l_details := l_details l\<rparr>
        else r) (run_logs s)\<rparr>))"

text \<open>\<^verbatim>\<open>ORDER BY started_at DESC LIMIT ?\<close>: a negative limit is no limit.\<close>

definition getRunLogs :: "dbenv \<Rightarrow> int \<Rightarrow> int \<Rightarrow> db \<Rightarrow> RunLog list res \<times> db" where
  "getRunLogs E jobID limit = dbQuery E [''run_logs'']
     (\<lambda>ctx s.
        let rows = rev (order_by ctx l_id l_startedAt (filter (\<lambda>l. l_jobID l = jobID) (run_logs s)))
        in Inr (if limit < 0 then rows else take (nat limit) rows))"

subsection \<open>DNS servers\<close>

definition scanDNS :: "dns_row \<Rightarrow> DNSServer" where
  "scanDNS r = \<lparr>d_id = s_id r, d_name = s_name r, d_address = s_address r,
     d_enabled = (s_enabled r \<noteq> 0), d_createdAt = s_createdAt r, d_updatedAt = s_updatedAt r\<rparr>"

definition listDNSServers :: "dbenv \<Rightarrow> db \<Rightarrow> DNSServer list res \<times> db" where
  "listDNSServers E = dbQuery E [''dns_servers'']
     (\<lambda>ctx s. Inr (map scanDNS (order_by ctx s_id s_name (dns_servers s))))"

definition getDNSServer :: "dbenv \<Rightarrow> int \<Rightarrow> db \<Rightarrow> DNSServer res \<times> db" where
  "getDNSServer E i = dbQuery E [''dns_servers'']
     (\<lambda>ctx s. map_sum id scanDNS (first_row (filter (\<lambda>r. s_id r = i) (dns_servers s))))"

definition insertDNSRow :: "dbenv \<Rightarrow> string \<Rightarrow> string \<Rightarrow> int \<Rightarrow> string \<Rightarrow> stmt_ctx \<Rightarrow> db \<Rightarrow> int res \<times> db" where
  "insertDNSRow E name address enabled now ctx s =
     (case nextId E (dnsSeq s) of
        Inl err \<Rightarrow> (Inl err, s)
      | Inr i \<Rightarrow>
          (Inr i, s\<lparr>dns_servers := dns_servers s @
             [\<lparr>s_id = i, s_name = name, s_address = address, s_enabled = enabled,
               s_createdAt = now, s_updatedAt = now\<rparr>], dnsSeq := i\<rparr>))"

definition createDNSServer :: "dbenv \<Rightarrow> DNSServer \<Rightarrow> db \<Rightarrow> int res \<times> db" where
  "createDNSServer E d s =
     (let now = clockNow E s in
      dbExec E [''dns_servers'']
        (insertDNSRow E (d_name d) (d_address d) (boolToInt (d_enabled d)) now) s)"

definition updateDNSServer :: "dbenv \<Rightarrow> DNSServer \<Rightarrow> db \<Rightarrow> unit res \<times> db" where
  "updateDNSServer E d = dbExec E [''dns_servers'']
     (\<lambda>ctx s. (Inr (), s\<lparr>dns_servers := map (\<lambda>r.
        if s_id r = d_id d
        then r\<lparr>s_name := d_name d, s_address := d_address d,
               s_enabled := boolToInt (d_enabled d), s_updatedAt := nowText ctx\<rparr>
        else r) (dns_servers s)\<rparr>))"

definition deleteDNSServer :: "dbenv \<Rightarrow> int \<Rightarrow> db \<Rightarrow> unit res \<times> db" where
  "deleteDNSServer E i = dbExec E [''dns_servers'']
     (\<lambda>ctx s. (Inr (), s\<lparr>dns_servers := filter (\<lambda>r. s_id r \<noteq> i) (dns_servers s)\<rparr>))"

definition listEnabledDNSServerAddresses :: "dbenv \<Rightarrow> db \<Rightarrow> string list res \<times> db" where
  "listEnabledDNSServerAddresses E = dbQuery E [''dns_servers'']
     (\<lambda>ctx s. Inr (map s_address (sort_key s_id (filter (\<lambda>r. s_enabled r = 1) (dns_servers s)))))"

subsection \<open>Observed addresses\<close>

text \<open>The result is a Go map; its list order here is the order of the rows.\<close>

definition listObservedIPs :: "dbenv \<Rightarrow> int \<Rightarrow> string \<Rightarrow> db \<Rightarrow> (string, string) gomap res \<times> db" where
  "listObservedIPs E jobID since = dbQuery E [''job_observed_ips'']
     (\<lambda>ctx s. Inr (fold (\<lambda>r out. AList.update (o_ip r) (o_source r) out)
        (sort_key o_ip (filter (\<lambda>r. o_jobID r = jobID \<and> since \<le> o_lastSeen r) (job_observed_ips s)))
        []))"

definition upsertRow :: "dbenv \<Rightarrow> int \<Rightarrow> string \<Rightarrow> string \<Rightarrow> string \<Rightarrow> stmt_ctx \<Rightarrow> db \<Rightarrow> unit res \<times> db" where
  "upsertRow E jobID ip source seenAt ctx s =
     (if \<exists>r \<in> set (job_observed_ips s). o_jobID r = jobID \<and> o_ip r = ip
      then (Inr (), s\<lparr>job_observed_ips := map (\<lambda>r.
              if o_jobID r = jobID \<and> o_ip r = ip then r\<lparr>o_source := source, o_lastSeen := seenAt\<rparr>
              else r) (job_observed_ips s)\<rparr>)
      else if fk_on ctx \<and> jobID \<notin> r_id ` set (sync_jobs s) then (Inl (fkErr E), s)
      else (Inr (), s\<lparr>job_observed_ips := job_observed_ips s @
              [\<lparr>o_jobID = jobID, o_ip = ip, o_source = source, o_firstSeen = seenAt,
                o_lastSeen = seenAt\<rparr>]\<rparr>))"

fun upsertLoop :: "dbenv \<Rightarrow> bool \<Rightarrow> int \<Rightarrow> (string, string) gomap \<Rightarrow> string \<Rightarrow> db \<Rightarrow> unit res \<times> db" where
  "upsertLoop E fk jobID [] seenAt s = (Inr (), s)"
| "upsertLoop E fk jobID ((ip, source) # hostIPs) seenAt s =
     (case dbExec E [''job_observed_ips'']
             (\<lambda>ctx. upsertRow E jobID ip source seenAt (ctx\<lparr>fk_on := fk\<rparr>)) s of
        (Inl err, s') \<Rightarrow> (Inl err, s')
      | (Inr _, s') \<Rightarrow> upsertLoop E fk jobID hostIPs seenAt s')"

text \<open>
  The transaction: all statements run on the connection that began it, and an error or a failed
  commit rolls every one of them back.
\<close>

definition upsertObservedIPs ::
    "dbenv \<Rightarrow> int \<Rightarrow> (string, string) gomap \<Rightarrow> string \<Rightarrow> db \<Rightarrow> unit res \<times> db" where
  "upsertObservedIPs E jobID hostIPs seenAt s =
     (if length hostIPs = 0 then (Inr (), s)
      else let fk = fk_on (dctx E (stmtNo s)) in
        case dbExec E [] (\<lambda>ctx s. (Inr (), s)) s of
          (Inl err, s1) \<Rightarrow> (Inl err, s1)
        | (Inr _, s1) \<Rightarrow>
            (case upsertLoop E fk jobID hostIPs seenAt s1 of
               (Inl err, s2) \<Rightarrow> (Inl err, s1\<lparr>stmtNo := stmtNo s2\<rparr>)
             | (Inr _, s2) \<Rightarrow>
                 (case dbExec E [] (\<lambda>ctx s. (Inr (), s)) s2 of
                    (Inl err, s3) \<Rightarrow> (Inl err, s1\<lparr>stmtNo := stmtNo s3\<rparr>)
                  | (Inr _, s3) \<Rightarrow> (Inr (), s3))))"

definition deleteExpiredObservedIPs :: "dbenv \<Rightarrow> int \<Rightarrow> string \<Rightarrow> db \<Rightarrow> unit res \<times> db" where
  "deleteExpiredObservedIPs E jobID before = dbExec E [''job_observed_ips'']
     (\<lambda>ctx s. (Inr (), s\<lparr>job_observed_ips :=
        filter (\<lambda>r. \<not> (o_jobID r = jobID \<and> o_lastSeen r < before)) (job_observed_ips s)\<rparr>))"

definition deleteObservedIPs :: "dbenv \<Rightarrow> int \<Rightarrow> db \<Rightarrow> unit res \<times> db" where
  "deleteObservedIPs E jobID = dbExec E [''job_observed_ips'']
     (\<lambda>ctx s. (Inr (), s\<lparr>job_observed_ips :=
        filter (\<lambda>r. o_jobID r \<noteq> jobID) (job_observed_ips s)\<rparr>))"

subsection \<open>Opening the database\<close>

definition createTable :: "dbenv \<Rightarrow> string list \<Rightarrow> db \<Rightarrow> unit res \<times> db" where
  \<comment> \<open>\<^verbatim>\<open>CREATE TABLE IF NOT EXISTS\<close>: the table, with the columns that a migration may add\<close>
  "createTable E objs = dbExec E []
     (\<lambda>ctx s. (Inr (), if hd objs \<in> set (schema s) then s
                       else s\<lparr>schema := fold add_key objs (schema s)\<rparr>))"

definition addColumn :: "dbenv \<Rightarrow> string \<Rightarrow> string \<Rightarrow> (db \<Rightarrow> db) \<Rightarrow> db \<Rightarrow> unit res \<times> db" where
  \<comment> \<open>\<^verbatim>\<open>ALTER TABLE ADD COLUMN\<close>: an error when the column is there; rows get the default\<close>
  "addColumn E tab col fill = dbExec E [tab]
     (\<lambda>ctx s. if col \<in> set (schema s) then (Inl (dupColumnErr E), s)
              else (Inr (), fill (s\<lparr>schema := add_key col (schema s)\<rparr>)))"

definition defaultDNS :: "(string \<times> string) list" where
  "defaultDNS =
     [(''Cloudflare (1.1.1.1)'', ''1.1.1.1:53''), (''Cloudflare (1.0.0.1)'', ''1.0.0.1:53''),
      (''Google (8.8.8.8)'', ''8.8.8.8:53''), (''Google (8.8.4.4)'', ''8.8.4.4:53''),
      (''Quad9 (9.9.9.9)'', ''9.9.9.9:53''), (''Quad9 (149.112.112.112)'', ''149.112.112.112:53''),
      (''OpenDNS (208.67.222.222)'', ''208.67.222.222:53''),
      (''OpenDNS (208.67.220.220)'', ''208.67.220.220:53'')]"

fun seedDNS :: "dbenv \<Rightarrow> string \<Rightarrow> (string \<times> string) list \<Rightarrow> db \<Rightarrow> db" where
  "seedDNS E now [] s = s"
| "seedDNS E now ((name, address) # ds) s =
     seedDNS E now ds (snd (dbExec E [''dns_servers''] (insertDNSRow E name address 1 now) s))"

definition countDNS :: "dbenv \<Rightarrow> db \<Rightarrow> nat res \<times> db" where
  "countDNS E = dbQuery E [''dns_servers''] (\<lambda>ctx s. Inr (length (dns_servers s)))"

definition migrate :: "dbenv \<Rightarrow> db \<Rightarrow> unit res \<times> db" where
  "migrate E s =
     (case createTable E [''controllers'', ''controllers.skip_tls_verify''] s of
        (Inl err, s) \<Rightarrow> (Inl err, s)
      | (Inr _, s) \<Rightarrow>
     (case createTable E [''sync_jobs''] s of
        (Inl err, s) \<Rightarrow> (Inl err, s)
      | (Inr _, s) \<Rightarrow>
     (case createTable E [''run_logs''] s of
        (Inl err, s) \<Rightarrow> (Inl err, s)
      | (Inr _, s) \<Rightarrow>
          let s = snd (addColumn E ''sync_jobs'' ''sync_jobs.observed_ip_ttl_hours''
                (\<lambda>s. s\<lparr>sync_jobs := map (\<lambda>r. r\<lparr>r_ttlHours := 168\<rparr>) (sync_jobs s)\<rparr>) s);
              s = snd (addColumn E ''controllers'' ''controllers.skip_tls_verify''
                (\<lambda>s. s\<lparr>controllers := map (\<lambda>c. c\<lparr>c_skipTLSVerify := False\<rparr>) (controllers s)\<rparr>) s);
              s = snd (createTable E [''dns_servers''] s);
              s = snd (createTable E [''job_observed_ips''] s) in
          (case countDNS E s of
             (Inl _, s) \<Rightarrow> (Inr (), s)
           | (Inr n, s) \<Rightarrow>
               (Inr (), if n = 0 then seedDNS E (clockNow E s) defaultDNS s else s)))))"

definition pragma :: "dbenv \<Rightarrow> db \<Rightarrow> unit res \<times> db" where
  "pragma E = dbExec E [] (\<lambda>ctx s. (Inr (), s))"

definition newStore :: "dbenv \<Rightarrow> string option \<Rightarrow> db \<Rightarrow> unit res \<times> db" where
  \<comment> \<open>\<open>openErr\<close>: what \<^verbatim>\<open>sql.Open\<close> returns\<close>
  "newStore E openErr s =
     (case openErr of Some err \<Rightarrow> (Inl (''open database: '' @ err), s)
      | None \<Rightarrow>
     (case pragma E s of (Inl err, s) \<Rightarrow> (Inl (''set WAL mode: '' @ err), s)
      | (Inr _, s) \<Rightarrow>
     (case pragma E s of (Inl err, s) \<Rightarrow> (Inl (''set busy timeout: '' @ err), s)
      | (Inr _, s) \<Rightarrow>
     (case pragma E s of (Inl err, s) \<Rightarrow> (Inl (''enable foreign keys: '' @ err), s)
      | (Inr _, s) \<Rightarrow>
     (case migrate E s of (Inl err, s) \<Rightarrow> (Inl (''migrate: '' @ err), s)
      | (Inr _, s) \<Rightarrow> (Inr (), s))))))"

end
