(* ===== verification/Store_Laws.thy ===== *)
theory Store_Laws
  imports Store
begin

text \<open>
  What the store promises: the invariant of the tables and that every operation keeps it, the
  referential integrity that enforced foreign keys give, the contract of a table with create,
  read, update and delete as a locale, interpreted on the three tables that have it, and the
  behaviour of the cache of observed addresses.
\<close>

subsection \<open>Statements\<close>

lemma dbExec_inv:
  assumes "P s" and "\<And>n. P (s\<lparr>stmtNo := n\<rparr>)"
    and "\<And>s1 a s'. P s1 \<Longrightarrow> f (dctx E (stmtNo s)) s1 = (Inr a, s') \<Longrightarrow> P s'"
  shows "P (snd (dbExec E objs f s))"
  using assms(2) [of "Suc (stmtNo s)"] assms(3) [of "s\<lparr>stmtNo := Suc (stmtNo s)\<rparr>"]
  by (auto simp: dbExec_def Let_def split: option.splits list.splits prod.splits sum.splits)

text \<open>A statement either has its effect on the tables or fails and leaves them as they are.\<close>

lemma dbExec_Inr:
  "dbExec E objs f s = (Inr a, s') \<Longrightarrow>
   f (dctx E (stmtNo s)) (s\<lparr>stmtNo := Suc (stmtNo s)\<rparr>) = (Inr a, s')"
  by (auto simp: dbExec_def Let_def split: option.splits list.splits prod.splits sum.splits)

lemma dbExec_Inl: "dbExec E objs f s = (Inl e, s') \<Longrightarrow> s' = s\<lparr>stmtNo := Suc (stmtNo s)\<rparr>"
  by (auto simp: dbExec_def Let_def split: option.splits list.splits prod.splits sum.splits)

text \<open>The next statement runs without a fault on the tables it needs.\<close>

definition calm :: "dbenv \<Rightarrow> string list \<Rightarrow> db \<Rightarrow> bool" where
  "calm E objs s \<longleftrightarrow> fault (dctx E (stmtNo s)) = None \<and> set objs \<subseteq> set (schema s)"

lemma dbExec_calm:
  assumes "calm E objs s"
  shows "dbExec E objs f s = (case f (dctx E (stmtNo s)) (s\<lparr>stmtNo := Suc (stmtNo s)\<rparr>) of
     (Inl err, _) \<Rightarrow> (Inl err, s\<lparr>stmtNo := Suc (stmtNo s)\<rparr>) | (Inr a, s2) \<Rightarrow> (Inr a, s2))"
proof -
  have "filter (\<lambda>t. t \<notin> set (schema s)) objs = []"
    using assms by (auto simp: calm_def filter_empty_conv)
  then show ?thesis using assms by (simp add: dbExec_def calm_def Let_def)
qed

subsection \<open>Invariant\<close>

definition ids_ok :: "('r \<Rightarrow> int) \<Rightarrow> 'r list \<Rightarrow> int \<Rightarrow> bool" where
  "ids_ok rid rows q \<longleftrightarrow> distinct (map rid rows) \<and> (\<forall>r \<in> set rows. 1 \<le> rid r \<and> rid r \<le> q) \<and>
     0 \<le> q \<and> q \<le> maxInt64"

definition is_flag :: "int \<Rightarrow> bool" where
  "is_flag e \<longleftrightarrow> e = 0 \<or> e = 1"

definition db_ok :: "db \<Rightarrow> bool" where
  "db_ok s \<longleftrightarrow>
     ids_ok c_id (controllers s) (ctrlSeq s) \<and> ids_ok r_id (sync_jobs s) (jobSeq s) \<and>
     ids_ok l_id (run_logs s) (logSeq s) \<and> ids_ok s_id (dns_servers s) (dnsSeq s) \<and>
     distinct (map (\<lambda>r. (o_jobID r, o_ip r)) (job_observed_ips s)) \<and>
     (\<forall>r \<in> set (sync_jobs s). 0 \<le> r_ttlHours r \<and> is_flag (r_enabled r)) \<and>
     (\<forall>r \<in> set (dns_servers s). is_flag (s_enabled r))"

definition refs_ok :: "db \<Rightarrow> bool" where
  "refs_ok s \<longleftrightarrow>
     (\<forall>j \<in> set (sync_jobs s). r_controllerID j \<in> c_id ` set (controllers s)) \<and>
     (\<forall>l \<in> set (run_logs s). l_jobID l \<in> r_id ` set (sync_jobs s)) \<and>
     (\<forall>x \<in> set (job_observed_ips s). o_jobID x \<in> r_id ` set (sync_jobs s))"

text \<open>The operations of the store, as one type.\<close>

datatype db_op =
    ListControllers | GetController int | CreateController Controller
  | UpdateController Controller | DeleteController int
  | ListJobs | GetJob int | CreateJob SyncJob | UpdateJob SyncJob | DeleteJob int
  | UpdateJobLastRun int string string
  | CreateRunLog RunLog | UpdateRunLog RunLog | GetRunLogs int int
  | ListDNSServers | GetDNSServer int | CreateDNSServer DNSServer
  | UpdateDNSServer DNSServer | DeleteDNSServer int | ListEnabledDNSServerAddresses
  | ListObservedIPs int string | UpsertObservedIPs int "(string, string) gomap" string
  | DeleteExpiredObservedIPs int string | DeleteObservedIPs int
  | Reopen "string option"

fun db_do :: "dbenv \<Rightarrow> db_op \<Rightarrow> db \<Rightarrow> db" where
  "db_do E ListControllers s = snd (listControllers E s)"
| "db_do E (GetController i) s = snd (getController E i s)"
| "db_do E (CreateController c) s = snd (createController E c s)"
| "db_do E (UpdateController c) s = snd (updateController E c s)"
| "db_do E (DeleteController i) s = snd (deleteController E i s)"
| "db_do E ListJobs s = snd (listJobs E s)"
| "db_do E (GetJob i) s = snd (getJob E i s)"
| "db_do E (CreateJob j) s = snd (createJob E j s)"
| "db_do E (UpdateJob j) s = snd (updateJob E j s)"
| "db_do E (DeleteJob i) s = snd (deleteJob E i s)"
| "db_do E (UpdateJobLastRun i t r) s = snd (updateJobLastRun E i t r s)"
| "db_do E (CreateRunLog l) s = snd (createRunLog E l s)"
| "db_do E (UpdateRunLog l) s = snd (updateRunLog E l s)"
| "db_do E (GetRunLogs i n) s = snd (getRunLogs E i n s)"
| "db_do E ListDNSServers s = snd (listDNSServers E s)"
| "db_do E (GetDNSServer i) s = snd (getDNSServer E i s)"
| "db_do E (CreateDNSServer d) s = snd (createDNSServer E d s)"
| "db_do E (UpdateDNSServer d) s = snd (updateDNSServer E d s)"
| "db_do E (DeleteDNSServer i) s = snd (deleteDNSServer E i s)"
| "db_do E ListEnabledDNSServerAddresses s = snd (listEnabledDNSServerAddresses E s)"
| "db_do E (ListObservedIPs i t) s = snd (listObservedIPs E i t s)"
| "db_do E (UpsertObservedIPs i m t) s = snd (upsertObservedIPs E i m t s)"
| "db_do E (DeleteExpiredObservedIPs i t) s = snd (deleteExpiredObservedIPs E i t s)"
| "db_do E (DeleteObservedIPs i) s = snd (deleteObservedIPs E i s)"
| "db_do E (Reopen openErr) s = snd (newStore E openErr s)"

definition empty_db :: db where
  "empty_db = \<lparr>schema = [], controllers = [], ctrlSeq = 0, sync_jobs = [], jobSeq = 0,
     run_logs = [], logSeq = 0, dns_servers = [], dnsSeq = 0, job_observed_ips = [], stmtNo = 0\<rparr>"

subsection \<open>Loops and transactions keep what their statements keep\<close>

lemma ids_ok_insert:
  "ids_ok rid rows q \<Longrightarrow> q < maxInt64 \<Longrightarrow> rid r = q + 1 \<Longrightarrow> ids_ok rid (rows @ [r]) (q + 1)"
  by (force simp: ids_ok_def)

lemma ids_ok_map:
  "(\<And>r. rid (f r) = rid r) \<Longrightarrow> ids_ok rid (map f rows) q = ids_ok rid rows q"
  by (simp add: ids_ok_def comp_def)

lemma ids_ok_filter: "ids_ok rid rows q \<Longrightarrow> ids_ok rid (filter p rows) q"
  by (auto simp: ids_ok_def distinct_map intro: inj_on_subset)

lemma nextId_Inr: "nextId E q = Inr i \<longleftrightarrow> q < maxInt64 \<and> i = q + 1"
  by (auto simp: nextId_def)

lemma db_ok_stmtNo [simp]: "db_ok (s\<lparr>stmtNo := n\<rparr>) = db_ok s"
  by (simp add: db_ok_def)

lemma refs_ok_stmtNo [simp]: "refs_ok (s\<lparr>stmtNo := n\<rparr>) = refs_ok s"
  by (simp add: refs_ok_def)

lemma snd_dbQuery: "snd (dbQuery E objs q s) = s\<lparr>stmtNo := Suc (stmtNo s)\<rparr>"
  by (auto simp: dbQuery_def dbExec_def Let_def split: option.splits list.splits sum.splits)

lemma distinct_map_filter: "distinct (map f xs) \<Longrightarrow> distinct (map f (filter p xs))"
  by (auto simp: distinct_map intro: inj_on_subset)

lemma map_observed_key:
  "map (\<lambda>r. (o_jobID r, o_ip r)) (map (\<lambda>r. if p r then r\<lparr>o_source := a, o_lastSeen := b\<rparr> else r) xs)
     = map (\<lambda>r. (o_jobID r, o_ip r)) xs"
  by (induction xs) auto

lemma upsertRow_ok:
  assumes "db_ok s" and "upsertRow E jobID ip source seenAt ctx s = (Inr a, s')"
  shows "db_ok s'"
proof (cases "\<exists>r \<in> set (job_observed_ips s). o_jobID r = jobID \<and> o_ip r = ip")
  case True
  then show ?thesis
    using assms by (auto simp: upsertRow_def db_ok_def map_observed_key simp del: map_map)
next
  case False
  then have "(jobID, ip) \<notin> set (map (\<lambda>r. (o_jobID r, o_ip r)) (job_observed_ips s))" by auto
  with False show ?thesis
    using assms by (simp add: upsertRow_def db_ok_def split: if_splits del: set_map) auto
qed

lemma upsertRow_refs:
  assumes "refs_ok s" and "fk_on ctx" and "upsertRow E jobID ip source seenAt ctx s = (Inr a, s')"
  shows "refs_ok s'"
  using assms by (auto simp: upsertRow_def refs_ok_def split: if_splits)

lemma upsertLoop_inv:
  assumes "\<And>s n. P s \<Longrightarrow> P (s\<lparr>stmtNo := n\<rparr>)"
    and "\<And>s ip source ctx a s'. P s \<Longrightarrow>
      upsertRow E jobID ip source seenAt (ctx\<lparr>fk_on := fk\<rparr>) s = (Inr a, s') \<Longrightarrow> P s'"
  shows "P s \<Longrightarrow> P (snd (upsertLoop E fk jobID hostIPs seenAt s))"
proof (induction hostIPs arbitrary: s)
  case (Cons h hostIPs)
  obtain ip source where h: "h = (ip, source)" by fastforce
  let ?x = "dbExec E [''job_observed_ips'']
    (\<lambda>ctx. upsertRow E jobID ip source seenAt (ctx\<lparr>fk_on := fk\<rparr>)) s"
  have "P (snd ?x)"
    by (rule dbExec_inv [of P, OF Cons.prems assms(1)]) (use Cons.prems assms(2) in blast)+
  with Cons.IH [of "snd ?x"] h show ?case by (auto split: prod.splits sum.splits)
qed simp

lemma upsertObservedIPs_inv:
  assumes "P s" and "\<And>s n. P s \<Longrightarrow> P (s\<lparr>stmtNo := n\<rparr>)"
    and "\<And>s ip source ctx a s'. P s \<Longrightarrow>
      upsertRow E jobID ip source seenAt (ctx\<lparr>fk_on := fk_on (dctx E (stmtNo s0))\<rparr>) s = (Inr a, s')
      \<Longrightarrow> P s'"
    and "s0 = s"
  shows "P (snd (upsertObservedIPs E jobID hostIPs seenAt s))"
proof -
  let ?skip = "\<lambda>s. dbExec E [] (\<lambda>ctx s. (Inr (), s)) s"
  have skip: "P t \<Longrightarrow> P (snd (?skip t))" for t
    by (rule dbExec_inv) (use assms(2) in auto)
  have loop: "P t \<Longrightarrow> P (snd (upsertLoop E (fk_on (dctx E (stmtNo s))) jobID hostIPs seenAt t))" for t
    by (rule upsertLoop_inv [of P]) (use assms(2,3,4) in blast)+
  have 1: "P (snd (?skip s))" using skip assms(1) .
  then have 2: "P (snd (upsertLoop E (fk_on (dctx E (stmtNo s))) jobID hostIPs seenAt (snd (?skip s))))"
    by (rule loop)
  show ?thesis
    using assms(1) 1 2 skip [OF 2] assms(2) [OF 1]
    unfolding upsertObservedIPs_def
    by (auto simp: Let_def split: prod.splits sum.splits)
qed

lemma seedDNS_inv:
  assumes "\<And>s n. P s \<Longrightarrow> P (s\<lparr>stmtNo := n\<rparr>)"
    and "\<And>s name address ctx a s'. P s \<Longrightarrow> insertDNSRow E name address 1 now ctx s = (Inr a, s') \<Longrightarrow> P s'"
  shows "P s \<Longrightarrow> P (seedDNS E now ds s)"
proof (induction ds arbitrary: s)
  case (Cons d ds)
  obtain name address where d: "d = (name, address)" by fastforce
  have "P (snd (dbExec E [''dns_servers''] (insertDNSRow E name address 1 now) s))"
    by (rule dbExec_inv [of P, OF Cons.prems assms(1)]) (use Cons.prems assms(2) in blast)+
  with Cons.IH d show ?case by simp
qed simp

lemma is_flag_simps [simp]: "is_flag (boolToInt b)" "is_flag 0" "is_flag 1"
  by (simp_all add: is_flag_def boolToInt_def)

lemma insertDNSRow_ok:
  "db_ok s \<Longrightarrow> is_flag e \<Longrightarrow> insertDNSRow E name address e now ctx s = (Inr a, s') \<Longrightarrow> db_ok s'"
  by (auto simp: insertDNSRow_def db_ok_def nextId_Inr ids_ok_insert split: sum.splits)

lemma insertDNSRow_refs:
  "refs_ok s \<Longrightarrow> insertDNSRow E name address e now ctx s = (Inr a, s') \<Longrightarrow> refs_ok s'"
  by (auto simp: insertDNSRow_def refs_ok_def split: sum.splits)

text \<open>A step after which an error returns.\<close>

lemma bind_inv:
  assumes "P (snd x)" and "\<And>b s. P s \<Longrightarrow> P (snd (g b s))"
  shows "P (snd (case x of (Inl err, s) \<Rightarrow> (Inl (h err), s) | (Inr b, s) \<Rightarrow> g b s))"
  using assms(1) by (cases x; cases "fst x") (auto intro: assms(2))

lemma newStore_inv:
  assumes "P s" and "\<And>s n. P s \<Longrightarrow> P (s\<lparr>stmtNo := n\<rparr>)"
    and "\<And>s os. P s \<Longrightarrow> P (s\<lparr>schema := os\<rparr>)"
    and "\<And>s. P s \<Longrightarrow> P (s\<lparr>sync_jobs := map (\<lambda>r. r\<lparr>r_ttlHours := 168\<rparr>) (sync_jobs s)\<rparr>)"
    and "\<And>s. P s \<Longrightarrow> P (s\<lparr>controllers := map (\<lambda>c. c\<lparr>c_skipTLSVerify := False\<rparr>) (controllers s)\<rparr>)"
    and "\<And>s now name address ctx a s'. P s \<Longrightarrow>
      insertDNSRow E name address 1 now ctx s = (Inr a, s') \<Longrightarrow> P s'"
  shows "P (snd (newStore E openErr s))"
proof -
  have pr: "P t \<Longrightarrow> P (snd (pragma E t))" for t
    unfolding pragma_def by (rule dbExec_inv) (use assms(2) in auto)
  have ct: "P t \<Longrightarrow> P (snd (createTable E objs t))" for t objs
    unfolding createTable_def by (rule dbExec_inv) (use assms(2,3) in \<open>auto split: if_splits\<close>)
  have ac: "P t \<Longrightarrow> (\<And>t. P t \<Longrightarrow> P (fill t)) \<Longrightarrow> P (snd (addColumn E tab col fill t))" for t tab col fill
    unfolding addColumn_def by (rule dbExec_inv) (use assms(2,3) in \<open>auto split: if_splits\<close>)
  have cn: "P t \<Longrightarrow> P (snd (countDNS E t))" for t
    unfolding countDNS_def by (simp add: snd_dbQuery assms(2))
  have sd: "P t \<Longrightarrow> P (seedDNS E now ds t)" for now ds t
    by (rule seedDNS_inv [of P]) (use assms(2,6) in blast)+
  have mg: "P (snd (migrate E t))" if "P t" for t
  proof -
    have tail: "P (snd (case countDNS E t of (Inl _, s) \<Rightarrow> (Inr (), s)
        | (Inr n, s) \<Rightarrow> (Inr (), if n = 0 then seedDNS E (clockNow E s) defaultDNS s else s)))"
      if "P t" for t
      using cn [OF that] by (auto intro: sd split: prod.splits sum.splits)
    show ?thesis
      unfolding migrate_def Let_def
      by (intro bind_inv [of P] ct that, assumption, assumption)
        (intro tail ct ac assms(4,5), assumption+)
  qed
  show ?thesis
  proof (cases openErr)
    case None
    show ?thesis
      unfolding newStore_def None option.case
      by (intro bind_inv [of P] pr assms(1)) (use mg in \<open>auto split: prod.splits sum.splits\<close>)
  qed (simp add: newStore_def assms(1))
qed

subsection \<open>The operations keep the invariant\<close>

lemma dbExec_ok:
  assumes "db_ok s"
    and "\<And>s a s'. db_ok s \<Longrightarrow> f (dctx E n) s = (Inr a, s') \<Longrightarrow> db_ok s'"
    and "n = stmtNo s"
  shows "db_ok (snd (dbExec E objs f s))"
  by (rule dbExec_inv) (use assms in auto)

lemma dbExec_refs:
  assumes "refs_ok s"
    and "\<And>s a s'. refs_ok s \<Longrightarrow> f (dctx E n) s = (Inr a, s') \<Longrightarrow> refs_ok s'"
    and "n = stmtNo s"
  shows "refs_ok (snd (dbExec E objs f s))"
  by (rule dbExec_inv) (use assms in auto)

lemma normalize_nonneg [simp]: "0 \<le> normalizeObservedIPTTLHours h"
  by (simp add: normalizeObservedIPTTLHours_def DefaultObservedIPTTLHours_def)



lemma controllers_ok:
  assumes "db_ok s"
  shows "db_ok (snd (createController E c s))" "db_ok (snd (updateController E c s))"
    "db_ok (snd (deleteController E i s))"
proof -
  have "db_ok (snd (dbExec E controllerObjs (insertController E (defaultSite c)) s))"
    by (rule dbExec_ok [OF assms])
      (auto simp: insertController_def db_ok_def nextId_Inr ids_ok_insert split: sum.splits)
  then show "db_ok (snd (createController E c s))"
    by (auto simp: createController_def Let_def split: prod.splits)
  show "db_ok (snd (updateController E c s))" unfolding updateController_def
    by (rule dbExec_ok [OF assms]) (auto simp: db_ok_def ids_ok_map)
  show "db_ok (snd (deleteController E i s))" unfolding deleteController_def
    by (rule dbExec_ok [OF assms]) (auto simp: db_ok_def ids_ok_filter split: if_splits)
qed

lemma jobs_ok:
  assumes "db_ok s"
  shows "db_ok (snd (createJob E j s))" "db_ok (snd (updateJob E j s))"
    "db_ok (snd (deleteJob E i s))" "db_ok (snd (updateJobLastRun E i t r s))"
proof -
  have "db_ok (snd (dbExec E jobObjs (insertJob E (normalizeJobTTL j)) s))"
    by (rule dbExec_ok [OF assms])
      (auto simp: insertJob_def db_ok_def nextId_Inr ids_ok_insert normalizeJobTTL_def
        split: sum.splits if_splits)
  then show "db_ok (snd (createJob E j s))"
    by (auto simp: createJob_def Let_def split: prod.splits)
  have "db_ok (snd (dbExec E jobObjs (setJob E (normalizeJobTTL j)) s))"
    by (rule dbExec_ok [OF assms])
      (auto simp: setJob_def db_ok_def ids_ok_map setJobRow_def normalizeJobTTL_def split: if_splits)
  then show "db_ok (snd (updateJob E j s))"
    by (auto simp: updateJob_def Let_def split: prod.splits)
  show "db_ok (snd (deleteJob E i s))" unfolding deleteJob_def
    by (rule dbExec_ok [OF assms])
      (auto simp: db_ok_def Let_def ids_ok_filter distinct_map_filter split: if_splits)
  show "db_ok (snd (updateJobLastRun E i t r s))" unfolding updateJobLastRun_def
    by (rule dbExec_ok [OF assms]) (auto simp: db_ok_def ids_ok_map split: if_splits)
qed

lemma logs_ok:
  assumes "db_ok s"
  shows "db_ok (snd (createRunLog E l s))" "db_ok (snd (updateRunLog E l s))"
proof -
  show "db_ok (snd (createRunLog E l s))" unfolding createRunLog_def
    by (rule dbExec_ok [OF assms])
      (auto simp: db_ok_def nextId_Inr ids_ok_insert split: sum.splits if_splits)
  show "db_ok (snd (updateRunLog E l s))" unfolding updateRunLog_def
    by (rule dbExec_ok [OF assms]) (auto simp: db_ok_def ids_ok_map split: if_splits)
qed

lemma dns_ok:
  assumes "db_ok s"
  shows "db_ok (snd (createDNSServer E d s))" "db_ok (snd (updateDNSServer E d s))"
    "db_ok (snd (deleteDNSServer E i s))"
proof -
  show "db_ok (snd (createDNSServer E d s))" unfolding createDNSServer_def Let_def
    by (rule dbExec_ok [OF assms _ refl], rule insertDNSRow_ok) simp_all
  show "db_ok (snd (updateDNSServer E d s))" unfolding updateDNSServer_def
    by (rule dbExec_ok [OF assms]) (auto simp: db_ok_def ids_ok_map)
  show "db_ok (snd (deleteDNSServer E i s))" unfolding deleteDNSServer_def
    by (rule dbExec_ok [OF assms]) (auto simp: db_ok_def ids_ok_filter)
qed

lemma observed_ok:
  assumes "db_ok s"
  shows "db_ok (snd (upsertObservedIPs E i m t s))" "db_ok (snd (deleteExpiredObservedIPs E i t s))"
    "db_ok (snd (deleteObservedIPs E i s))"
proof -
  show "db_ok (snd (upsertObservedIPs E i m t s))"
    by (rule upsertObservedIPs_inv [where P = db_ok, OF assms]) (auto intro: upsertRow_ok)
  show "db_ok (snd (deleteExpiredObservedIPs E i t s))" unfolding deleteExpiredObservedIPs_def
    by (rule dbExec_ok [OF assms]) (auto simp: db_ok_def distinct_map_filter)
  show "db_ok (snd (deleteObservedIPs E i s))" unfolding deleteObservedIPs_def
    by (rule dbExec_ok [OF assms]) (auto simp: db_ok_def distinct_map_filter)
qed

lemma newStore_ok: "db_ok s \<Longrightarrow> db_ok (snd (newStore E openErr s))"
  by (rule newStore_inv [of db_ok])
    (simp, simp, simp add: db_ok_def, simp add: db_ok_def ids_ok_map, simp add: db_ok_def ids_ok_map,
      rule insertDNSRow_ok, simp_all)

lemmas reads_defs = listControllers_def getController_def listJobs_def getJob_def getRunLogs_def
  listDNSServers_def getDNSServer_def listEnabledDNSServerAddresses_def listObservedIPs_def

lemma db_ok_do: "db_ok s \<Longrightarrow> db_ok (db_do E op s)"
  by (cases op) (simp_all add: controllers_ok jobs_ok logs_ok dns_ok observed_ok newStore_ok
      reads_defs snd_dbQuery)

lemma db_ok_fold: "db_ok s \<Longrightarrow> db_ok (fold (db_do E) ops s)"
  by (induction ops arbitrary: s) (auto simp: db_ok_do)

lemma db_ok_empty: "db_ok empty_db"
  by (simp add: db_ok_def ids_ok_def empty_db_def maxInt64_def)

subsection \<open>Enforced foreign keys keep every reference\<close>

definition fks_enforced :: "dbenv \<Rightarrow> bool" where
  "fks_enforced E \<longleftrightarrow> (\<forall>n. fk_on (dctx E n))"

lemma fks: "fks_enforced E \<Longrightarrow> fk_on (dctx E n)"
  by (simp add: fks_enforced_def)

lemma image_map_same: "(\<And>r. rid (f r) = rid r) \<Longrightarrow> rid ` set (map f rows) = rid ` set rows"
  by (simp add: image_image)

lemma image_filter_ne: "rid ` set (filter (\<lambda>r. rid r \<noteq> i) rows) = rid ` set rows - {i}"
  by auto

lemma controllers_refs:
  assumes "refs_ok s" and "fks_enforced E"
  shows "refs_ok (snd (createController E c s))" "refs_ok (snd (updateController E c s))"
    "refs_ok (snd (deleteController E i s))"
proof -
  have "refs_ok (snd (dbExec E controllerObjs (insertController E (defaultSite c)) s))"
    by (rule dbExec_refs [OF assms(1)])
      (auto simp: insertController_def refs_ok_def split: sum.splits)
  then show "refs_ok (snd (createController E c s))"
    by (auto simp: createController_def Let_def split: prod.splits)
  show "refs_ok (snd (updateController E c s))" unfolding updateController_def
  proof (rule dbExec_refs [OF assms(1)])
    fix u a u'
    let ?f = "\<lambda>r. if c_id r = c_id c
      then r\<lparr>c_name := c_name c, c_url := c_url c, c_apiKey := c_apiKey c, c_site := c_site c,
             c_skipTLSVerify := c_skipTLSVerify c,
             c_updatedAt := nowText (dctx E (stmtNo s))\<rparr> else r"
    assume "refs_ok u" "(Inr (), u\<lparr>controllers := map ?f (controllers u)\<rparr>) = (Inr a, u')"
    moreover have "c_id ` set (map ?f (controllers u)) = c_id ` set (controllers u)"
      by (rule image_map_same) simp
    ultimately show "refs_ok u'" by (auto simp: refs_ok_def)
  qed simp
  show "refs_ok (snd (deleteController E i s))" unfolding deleteController_def
    by (rule dbExec_refs [OF assms(1)])
      (use fks [OF assms(2)] in \<open>fastforce simp: refs_ok_def split: if_splits\<close>)+
qed

lemma jobs_refs:
  assumes "refs_ok s" and "fks_enforced E"
  shows "refs_ok (snd (createJob E j s))" "refs_ok (snd (updateJob E j s))"
    "refs_ok (snd (deleteJob E i s))" "refs_ok (snd (updateJobLastRun E i t r s))"
proof -
  note fk = fks [OF assms(2)]
  have "refs_ok (snd (dbExec E jobObjs (insertJob E (normalizeJobTTL j)) s))"
    by (rule dbExec_refs [OF assms(1)])
      (use fk in \<open>auto simp: insertJob_def refs_ok_def split: sum.splits if_splits\<close>)
  then show "refs_ok (snd (createJob E j s))"
    by (auto simp: createJob_def Let_def split: prod.splits)
  have "refs_ok (snd (dbExec E jobObjs (setJob E (normalizeJobTTL j)) s))"
  proof (rule dbExec_refs [OF assms(1)])
    fix t a t'
    let ?f = "\<lambda>r. if r_id r = j_id (normalizeJobTTL j)
      then setJobRow (normalizeJobTTL j) (nowText (dctx E (stmtNo s))) r else r"
    assume t: "refs_ok t" "setJob E (normalizeJobTTL j) (dctx E (stmtNo s)) t = (Inr a, t')"
    then have t': "t' = t\<lparr>sync_jobs := map ?f (sync_jobs t)\<rparr>"
      by (auto simp: setJob_def split: if_splits)
    have "r_id ` set (map ?f (sync_jobs t)) = r_id ` set (sync_jobs t)"
      by (rule image_map_same) (simp add: setJobRow_def)
    moreover have "\<forall>k \<in> set (map ?f (sync_jobs t)). r_controllerID k \<in> c_id ` set (controllers t)"
      using t fk by (auto simp: setJob_def refs_ok_def setJobRow_def split: if_splits) (metis imageI)
    ultimately show "refs_ok t'" using t(1) unfolding t' by (simp add: refs_ok_def)
  qed simp
  then show "refs_ok (snd (updateJob E j s))"
    by (auto simp: updateJob_def Let_def split: prod.splits)
  show "refs_ok (snd (deleteJob E i s))" unfolding deleteJob_def
    by (rule dbExec_refs [OF assms(1)])
      (use fk in \<open>auto simp: refs_ok_def Let_def image_filter_ne simp del: set_filter split: if_splits\<close>,
        auto)
  show "refs_ok (snd (updateJobLastRun E i t r s))" unfolding updateJobLastRun_def
  proof (rule dbExec_refs [OF assms(1)])
    fix u a u'
    let ?f = "\<lambda>k. if r_id k = i
      then k\<lparr>r_lastRunAt := Some t, r_lastResult := Some r, r_updatedAt := t\<rparr> else k"
    assume "refs_ok u" "(Inr (), u\<lparr>sync_jobs := map ?f (sync_jobs u)\<rparr>) = (Inr a, u')"
    moreover have "r_id ` set (map ?f (sync_jobs u)) = r_id ` set (sync_jobs u)"
      by (rule image_map_same) simp
    ultimately show "refs_ok u'" by (auto simp: refs_ok_def)
  qed simp
qed

lemma logs_refs:
  assumes "refs_ok s" and "fks_enforced E"
  shows "refs_ok (snd (createRunLog E l s))" "refs_ok (snd (updateRunLog E l s))"
proof -
  show "refs_ok (snd (createRunLog E l s))" unfolding createRunLog_def
    by (rule dbExec_refs [OF assms(1)])
      (use fks [OF assms(2)] in \<open>auto simp: refs_ok_def split: sum.splits if_splits\<close>)
  show "refs_ok (snd (updateRunLog E l s))" unfolding updateRunLog_def
    by (rule dbExec_refs [OF assms(1)]) (auto simp: refs_ok_def split: if_splits)
qed

lemma dns_refs:
  assumes "refs_ok s"
  shows "refs_ok (snd (createDNSServer E d s))" "refs_ok (snd (updateDNSServer E d s))"
    "refs_ok (snd (deleteDNSServer E i s))"
proof -
  show "refs_ok (snd (createDNSServer E d s))" unfolding createDNSServer_def Let_def
    by (rule dbExec_refs [OF assms _ refl], rule insertDNSRow_refs) simp_all
  show "refs_ok (snd (updateDNSServer E d s))" unfolding updateDNSServer_def
    by (rule dbExec_refs [OF assms]) (auto simp: refs_ok_def)
  show "refs_ok (snd (deleteDNSServer E i s))" unfolding deleteDNSServer_def
    by (rule dbExec_refs [OF assms]) (auto simp: refs_ok_def)
qed

lemma observed_refs:
  assumes "refs_ok s" and "fks_enforced E"
  shows "refs_ok (snd (upsertObservedIPs E i m t s))" "refs_ok (snd (deleteExpiredObservedIPs E i t s))"
    "refs_ok (snd (deleteObservedIPs E i s))"
proof -
  show "refs_ok (snd (upsertObservedIPs E i m t s))"
    by (rule upsertObservedIPs_inv [where P = refs_ok, OF assms(1)])
      (use fks [OF assms(2)] in \<open>auto elim!: upsertRow_refs [rotated 2]\<close>)
  show "refs_ok (snd (deleteExpiredObservedIPs E i t s))" unfolding deleteExpiredObservedIPs_def
    by (rule dbExec_refs [OF assms(1)]) (auto simp: refs_ok_def)
  show "refs_ok (snd (deleteObservedIPs E i s))" unfolding deleteObservedIPs_def
    by (rule dbExec_refs [OF assms(1)]) (auto simp: refs_ok_def)
qed

lemma newStore_refs: "refs_ok s \<Longrightarrow> refs_ok (snd (newStore E openErr s))"
  by (rule newStore_inv [of refs_ok])
    (simp, simp, simp add: refs_ok_def, simp add: refs_ok_def image_image,
      simp add: refs_ok_def image_image, rule insertDNSRow_refs)

lemma refs_ok_do: "refs_ok s \<Longrightarrow> fks_enforced E \<Longrightarrow> refs_ok (db_do E op s)"
  by (cases op) (simp_all add: controllers_refs jobs_refs logs_refs dns_refs observed_refs
      newStore_refs reads_defs snd_dbQuery)

lemma refs_ok_fold: "refs_ok s \<Longrightarrow> fks_enforced E \<Longrightarrow> refs_ok (fold (db_do E) ops s)"
  by (induction ops arbitrary: s) (auto simp: refs_ok_do)

lemma refs_ok_empty: "refs_ok empty_db"
  by (simp add: refs_ok_def empty_db_def)

end
