(* ===== verification/Store_Crud.thy ===== *)
theory Store_Crud
  imports Store_Laws
begin

text \<open>
  The tables of controllers, jobs and DNS servers share one contract: a map from numbers to
  contents, read by number, changed by create, update and delete. The contract is the locale
  \<open>crud\<close>; its laws are proved for the store's operations by interpretation, and its results say
  that any sequence of operations does to the table what the successful ones do to the map, and
  that no number is ever given twice.
\<close>

datatype 'v crud_op = Create 'v | Update int 'v | Delete int

datatype crud_res = Failed | Created int | Done

text \<open>The map operations that the results of a sequence stand for.\<close>

fun abs_do :: "('v \<Rightarrow> 'v) \<Rightarrow> ('v \<Rightarrow> 'v) \<Rightarrow> 'v crud_op \<times> crud_res \<Rightarrow> (int \<Rightarrow> 'v option) \<Rightarrow> (int \<Rightarrow> 'v option)" where
  "abs_do normC normU (_, Failed) m = m"
| "abs_do normC normU (Create v, Created i) m = m(i \<mapsto> normC v)"
| "abs_do normC normU (Update i v, Done) m = (if m i = None then m else m(i \<mapsto> normU v))"
| "abs_do normC normU (Delete i, Done) m = m(i := None)"
| "abs_do normC normU (_, _) m = m"

fun created :: "crud_res list \<Rightarrow> int list" where
  "created [] = []"
| "created (Created i # rs) = i # created rs"
| "created (_ # rs) = created rs"

fun crud_run ::
    "('v \<Rightarrow> 's \<Rightarrow> int res \<times> 's) \<Rightarrow> (int \<Rightarrow> 'v \<Rightarrow> 's \<Rightarrow> unit res \<times> 's) \<Rightarrow> (int \<Rightarrow> 's \<Rightarrow> unit res \<times> 's) \<Rightarrow>
     'v crud_op list \<Rightarrow> 's \<Rightarrow> crud_res list \<times> 's" where
  "crud_run create update delete [] s = ([], s)"
| "crud_run create update delete (op # ops) s =
     (case (case op of
              Create v \<Rightarrow> (case create v s of (Inr i, s') \<Rightarrow> (Created i, s') | (Inl _, s') \<Rightarrow> (Failed, s'))
            | Update i v \<Rightarrow> (case update i v s of (Inr _, s') \<Rightarrow> (Done, s') | (Inl _, s') \<Rightarrow> (Failed, s'))
            | Delete i \<Rightarrow> (case delete i s of (Inr _, s') \<Rightarrow> (Done, s') | (Inl _, s') \<Rightarrow> (Failed, s'))) of
        (r, s1) \<Rightarrow> (case crud_run create update delete ops s1 of (rs, s2) \<Rightarrow> (r # rs, s2)))"

locale crud =
  fixes ok :: "'s \<Rightarrow> bool"
    and view :: "'s \<Rightarrow> int \<Rightarrow> 'v option"
    and top :: "'s \<Rightarrow> int"
    and create :: "'v \<Rightarrow> 's \<Rightarrow> int res \<times> 's"
    and update :: "int \<Rightarrow> 'v \<Rightarrow> 's \<Rightarrow> unit res \<times> 's"
    and delete :: "int \<Rightarrow> 's \<Rightarrow> unit res \<times> 's"
    and get :: "int \<Rightarrow> 's \<Rightarrow> 'v res \<times> 's"
    and normC normU :: "'v \<Rightarrow> 'v"
  assumes create_ok: "ok s \<Longrightarrow> ok (snd (create v s))"
    and update_ok: "ok s \<Longrightarrow> ok (snd (update i v s))"
    and delete_ok: "ok s \<Longrightarrow> ok (snd (delete i s))"
    and view_top: "ok s \<Longrightarrow> view s i \<noteq> None \<Longrightarrow> i \<le> top s"
    and create_Inr: "ok s \<Longrightarrow> create v s = (Inr i, s') \<Longrightarrow>
      top s < i \<and> top s' = i \<and> view s' = (view s)(i \<mapsto> normC v)"
    and create_Inl: "create v s = (Inl e, s') \<Longrightarrow> top s' = top s \<and> view s' = view s"
    and update_Inr: "ok s \<Longrightarrow> update i v s = (Inr u, s') \<Longrightarrow> top s' = top s \<and>
      view s' = (if view s i = None then view s else (view s)(i \<mapsto> normU v))"
    and update_Inl: "update i v s = (Inl e, s') \<Longrightarrow> top s' = top s \<and> view s' = view s"
    and delete_Inr: "ok s \<Longrightarrow> delete i s = (Inr u, s') \<Longrightarrow>
      top s' = top s \<and> view s' = (view s)(i := None)"
    and delete_Inl: "delete i s = (Inl e, s') \<Longrightarrow> top s' = top s \<and> view s' = view s"
    and get_Inr: "get i s = (Inr v, s') \<Longrightarrow> view s i = Some v"
    and get_view: "view (snd (get i s)) = view s"
begin

abbreviation "run \<equiv> crud_run create update delete"

lemma step_cases:
  assumes "ok s" and "run (op # ops) s = (rs, s2)"
  obtains r s1 rs' where "run ops s1 = (rs', s2)" "rs = r # rs'" "ok s1"
    "view s1 = abs_do normC normU (op, r) (view s)"
    "(\<forall>i. r \<noteq> Created i) \<and> top s1 = top s \<or> (\<exists>i. r = Created i \<and> top s < i \<and> top s1 = i)"
proof (cases op)
  case (Create v)
  obtain o1 s1 where c: "create v s = (o1, s1)" by fastforce
  with create_ok [OF assms(1), of v] have k: "ok s1" by simp
  show thesis
  proof (cases o1)
    case (Inl e)
    with create_Inl c k Create assms(2) show thesis
      by (intro that [of s1 "tl rs" Failed]) (auto split: prod.splits)
  next
    case (Inr i)
    with create_Inr [OF assms(1)] c k Create assms(2) show thesis
      by (intro that [of s1 "tl rs" "Created i"]) (auto split: prod.splits)
  qed
next
  case (Update i v)
  obtain o1 s1 where c: "update i v s = (o1, s1)" by fastforce
  with update_ok [OF assms(1), of i v] have k: "ok s1" by simp
  show thesis
  proof (cases o1)
    case (Inl e)
    with update_Inl c k Update assms(2) show thesis
      by (intro that [of s1 "tl rs" Failed]) (auto split: prod.splits)
  next
    case (Inr u)
    with update_Inr [OF assms(1)] c k Update assms(2) show thesis
      by (intro that [of s1 "tl rs" Done]) (auto split: prod.splits)
  qed
next
  case (Delete i)
  obtain o1 s1 where c: "delete i s = (o1, s1)" by fastforce
  with delete_ok [OF assms(1), of i] have k: "ok s1" by simp
  show thesis
  proof (cases o1)
    case (Inl e)
    with delete_Inl c k Delete assms(2) show thesis
      by (intro that [of s1 "tl rs" Failed]) (auto split: prod.splits)
  next
    case (Inr u)
    with delete_Inr [OF assms(1)] c k Delete assms(2) show thesis
      by (intro that [of s1 "tl rs" Done]) (auto split: prod.splits)
  qed
qed

theorem run_refines:
  "ok s \<Longrightarrow> run ops s = (rs, s') \<Longrightarrow>
   ok s' \<and> length rs = length ops \<and> view s' = fold (abs_do normC normU) (zip ops rs) (view s)"
proof (induction ops arbitrary: s rs)
  case (Cons op ops)
  from Cons.prems show ?case
    by (rule step_cases) (use Cons.IH in auto)
qed simp

theorem run_fresh:
  "ok s \<Longrightarrow> run ops s = (rs, s') \<Longrightarrow>
   sorted_wrt (<) (created rs) \<and> (\<forall>i \<in> set (created rs). top s < i)"
proof (induction ops arbitrary: s rs)
  case (Cons op ops)
  from Cons.prems show ?case
  proof (rule step_cases)
    fix r s1 rs'
    assume "run ops s1 = (rs', s')" and r: "rs = r # rs'" and "ok s1"
      and t: "(\<forall>i. r \<noteq> Created i) \<and> top s1 = top s \<or> (\<exists>i. r = Created i \<and> top s < i \<and> top s1 = i)"
    then have "sorted_wrt (<) (created rs') \<and> (\<forall>i \<in> set (created rs'). top s1 < i)"
      using Cons.IH by blast
    with r t show ?case by (cases r) auto
  qed
qed simp

text \<open>What was created is read back, until it is updated or deleted.\<close>

theorem create_get:
  assumes "ok s" and "create v s = (Inr i, s1)" and "get i s1 = (Inr w, s2)"
  shows "w = normC v"
  using get_Inr [OF assms(3)] create_Inr [OF assms(1,2)] by simp

end

subsection \<open>Rows by number\<close>

definition row_of :: "('r \<Rightarrow> int) \<Rightarrow> 'r list \<Rightarrow> int \<Rightarrow> 'r option" where
  "row_of rid rows i = map_of (map (\<lambda>r. (rid r, r)) rows) i"

lemma row_of_eq_None: "row_of rid rows i = None \<longleftrightarrow> i \<notin> rid ` set rows"
  by (auto simp: row_of_def map_of_eq_None_iff image_image)

lemma row_of_Some_in: "row_of rid rows i = Some r \<Longrightarrow> r \<in> set rows \<and> rid r = i"
  by (auto simp: row_of_def dest: map_of_SomeD)

lemma row_of_filter_first: "first_row (filter (\<lambda>r. rid r = i) rows) =
    (case row_of rid rows i of None \<Rightarrow> Inl errNoRows | Some r \<Rightarrow> Inr r)"
  by (induction rows) (auto simp: row_of_def)

lemma row_of_snoc:
  "rid r \<notin> rid ` set rows \<Longrightarrow> row_of rid (rows @ [r]) = (row_of rid rows)(rid r \<mapsto> r)"
  by (induction rows) (auto simp: row_of_def fun_eq_iff)

lemma row_of_map:
  "(\<And>r. rid (f r) = rid r) \<Longrightarrow>
   row_of rid (map (\<lambda>r. if rid r = k then f r else r) rows) =
     (case row_of rid rows k of None \<Rightarrow> row_of rid rows | Some r \<Rightarrow> (row_of rid rows)(k \<mapsto> f r))"
  by (induction rows) (auto simp: row_of_def fun_eq_iff split: option.splits)

lemma row_of_filter: "row_of rid (filter (\<lambda>r. rid r \<noteq> k) rows) = (row_of rid rows)(k := None)"
  by (induction rows) (auto simp: row_of_def fun_eq_iff)

lemma ids_ok_row_of: "ids_ok rid rows q \<Longrightarrow> row_of rid rows i = Some r \<Longrightarrow> i \<le> q"
  by (auto simp: ids_ok_def dest: row_of_Some_in)

lemma ids_ok_fresh: "ids_ok rid rows q \<Longrightarrow> q + 1 \<notin> rid ` set rows"
  by (force simp: ids_ok_def)

lemma dbExec_frame:
  assumes "\<And>n. g (s\<lparr>stmtNo := n\<rparr>) = g s" and "dbExec E objs f s = (Inl e, s')"
  shows "g s' = g s"
  using dbExec_Inl [OF assms(2)] assms(1) by simp

lemma snd_dbQuery_frame:
  assumes "\<And>n. g (s\<lparr>stmtNo := n\<rparr>) = g s"
  shows "g (snd (dbQuery E objs q s)) = g s"
  using assms by (simp add: snd_dbQuery)

lemma dbQuery_Inr: "dbQuery E objs q s = (Inr a, s') \<Longrightarrow>
    q (dctx E (stmtNo s)) (s\<lparr>stmtNo := Suc (stmtNo s)\<rparr>) = Inr a"
  using dbExec_Inr by (fastforce simp: dbQuery_def)

subsection \<open>Controllers\<close>

text \<open>The content of a row: without its number and its time stamps.\<close>

definition controllerContent :: "Controller \<Rightarrow> Controller" where
  "controllerContent c = c\<lparr>c_id := 0, c_createdAt := [], c_updatedAt := []\<rparr>"

definition viewController :: "db \<Rightarrow> int \<Rightarrow> Controller option" where
  "viewController s i = map_option controllerContent (row_of c_id (controllers s) i)"

definition addController :: "dbenv \<Rightarrow> Controller \<Rightarrow> db \<Rightarrow> int res \<times> db" where
  "addController E c s = (case createController E c s of ((r, _), s') \<Rightarrow> (r, s'))"

definition setController :: "dbenv \<Rightarrow> int \<Rightarrow> Controller \<Rightarrow> db \<Rightarrow> unit res \<times> db" where
  "setController E i c = updateController E (c\<lparr>c_id := i\<rparr>)"

definition readController :: "dbenv \<Rightarrow> int \<Rightarrow> db \<Rightarrow> Controller res \<times> db" where
  "readController E i s = map_prod (map_sum id controllerContent) id (getController E i s)"

lemma addController_eq:
  "addController E c s = dbExec E controllerObjs (insertController E (defaultSite c)) s"
  by (auto simp: addController_def createController_def Let_def split: prod.splits)

lemma createController_snd: "snd (createController E c s) = snd (addController E c s)"
  by (auto simp: addController_def split: prod.splits)

lemma viewController_stmtNo [simp]: "viewController (s\<lparr>stmtNo := n\<rparr>) = viewController s"
  by (simp add: viewController_def fun_eq_iff)

lemma controller_create_Inr:
  assumes "db_ok s" and "addController E v s = (Inr i, s')"
  shows "ctrlSeq s < i \<and> ctrlSeq s' = i \<and>
    viewController s' = (viewController s)(i \<mapsto> controllerContent (defaultSite v))"
proof -
  have k: "ids_ok c_id (controllers s) (ctrlSeq s)" using assms(1) by (simp add: db_ok_def)
  from dbExec_Inr [OF assms(2) [unfolded addController_eq]] show ?thesis
    using ids_ok_fresh [OF k]
    by (auto simp: insertController_def nextId_Inr viewController_def row_of_snoc
        controllerContent_def fun_eq_iff split: sum.splits)
qed

lemma controller_update_Inr:
  assumes "setController E i v s = (Inr u, s')"
  shows "ctrlSeq s' = ctrlSeq s \<and> viewController s' =
    (if viewController s i = None then viewController s
     else (viewController s)(i \<mapsto> controllerContent v))"
  using dbExec_Inr [OF assms [unfolded setController_def updateController_def]]
  by (auto simp: viewController_def row_of_map controllerContent_def fun_eq_iff split: option.splits)

lemma controller_delete_Inr:
  assumes "deleteController E i s = (Inr u, s')"
  shows "ctrlSeq s' = ctrlSeq s \<and> viewController s' = (viewController s)(i := None)"
  using dbExec_Inr [OF assms [unfolded deleteController_def]]
  by (auto simp: viewController_def row_of_filter fun_eq_iff split: if_splits)

lemma controller_get_Inr:
  assumes "readController E i s = (Inr v, s')"
  shows "viewController s i = Some v"
proof -
  obtain c where "getController E i s = (Inr c, s')" "v = controllerContent c"
    using assms by (cases "getController E i s"; cases "fst (getController E i s)")
      (auto simp: readController_def)
  with dbQuery_Inr show ?thesis
    by (fastforce simp: getController_def row_of_filter_first viewController_def split: option.splits)
qed

interpretation controllerTable: crud db_ok viewController ctrlSeq "addController E" "setController E"
  "deleteController E" "readController E" "controllerContent \<circ> defaultSite" controllerContent
  for E
proof unfold_locales
  fix s i v u e s'
  show "db_ok s \<Longrightarrow> db_ok (snd (addController E v s))"
    by (simp add: controllers_ok createController_snd [symmetric])
  show "db_ok s \<Longrightarrow> db_ok (snd (setController E i v s))"
    by (simp add: controllers_ok setController_def)
  show "db_ok s \<Longrightarrow> db_ok (snd (deleteController E i s))" by (rule controllers_ok)
  show "db_ok s \<Longrightarrow> viewController s i \<noteq> None \<Longrightarrow> i \<le> ctrlSeq s"
    by (auto simp: db_ok_def viewController_def dest: ids_ok_row_of)
  show "addController E v s = (Inl e, s') \<Longrightarrow> ctrlSeq s' = ctrlSeq s \<and> viewController s' = viewController s"
    unfolding addController_eq by (auto dest: dbExec_Inl)
  show "setController E i v s = (Inl e, s') \<Longrightarrow> ctrlSeq s' = ctrlSeq s \<and> viewController s' = viewController s"
    unfolding setController_def updateController_def by (auto dest: dbExec_Inl)
  show "deleteController E i s = (Inl e, s') \<Longrightarrow> ctrlSeq s' = ctrlSeq s \<and> viewController s' = viewController s"
    unfolding deleteController_def by (auto dest: dbExec_Inl)
  show "viewController (snd (readController E i s)) = viewController s"
    by (simp add: readController_def getController_def snd_dbQuery)
qed (simp_all add: controller_create_Inr controller_update_Inr controller_delete_Inr controller_get_Inr)

subsection \<open>Jobs\<close>

definition jobContent :: "SyncJob \<Rightarrow> SyncJob" where
  "jobContent j = j\<lparr>j_id := 0, j_ttlHours := normalizeObservedIPTTLHours (j_ttlHours j),
     j_lastRunAt := None, j_lastResult := None, j_createdAt := [], j_updatedAt := [],
     j_controllerName := []\<rparr>"

definition jobRowContent :: "job_row \<Rightarrow> SyncJob" where
  "jobRowContent r =
     \<lparr>j_id = 0, j_name = r_name r, j_controllerID = r_controllerID r,
      j_networkListID = r_networkListID r, j_hostnames = r_hostnames r, j_schedule = r_schedule r,
      j_ttlHours = normalizeObservedIPTTLHours (r_ttlHours r), j_enabled = (r_enabled r \<noteq> 0),
      j_lastRunAt = None, j_lastResult = None, j_createdAt = [], j_updatedAt = [],
      j_controllerName = []\<rparr>"

definition viewJob :: "db \<Rightarrow> int \<Rightarrow> SyncJob option" where
  "viewJob s i = map_option jobRowContent (row_of r_id (sync_jobs s) i)"

definition addJob :: "dbenv \<Rightarrow> SyncJob \<Rightarrow> db \<Rightarrow> int res \<times> db" where
  "addJob E j s = (case createJob E j s of ((r, _), s') \<Rightarrow> (r, s'))"

definition changeJob :: "dbenv \<Rightarrow> int \<Rightarrow> SyncJob \<Rightarrow> db \<Rightarrow> unit res \<times> db" where
  "changeJob E i j s = (case updateJob E (j\<lparr>j_id := i\<rparr>) s of ((r, _), s') \<Rightarrow> (r, s'))"

definition readJob :: "dbenv \<Rightarrow> int \<Rightarrow> db \<Rightarrow> SyncJob res \<times> db" where
  "readJob E i s = map_prod (map_sum id jobContent) id (getJob E i s)"

lemma addJob_eq: "addJob E j s = dbExec E jobObjs (insertJob E (normalizeJobTTL j)) s"
  by (auto simp: addJob_def createJob_def Let_def split: prod.splits)

lemma changeJob_eq:
  "changeJob E i j s = dbExec E jobObjs (setJob E (normalizeJobTTL (j\<lparr>j_id := i\<rparr>))) s"
  by (auto simp: changeJob_def updateJob_def Let_def split: prod.splits)

lemma job_snd: "snd (createJob E j s) = snd (addJob E j s)"
    "snd (updateJob E (j\<lparr>j_id := i\<rparr>) s) = snd (changeJob E i j s)"
  by (auto simp: addJob_def changeJob_def split: prod.splits)

lemma normalizeTTL_idem [simp]:
  "normalizeObservedIPTTLHours (normalizeObservedIPTTLHours h) = normalizeObservedIPTTLHours h"
  by (simp add: normalizeObservedIPTTLHours_def DefaultObservedIPTTLHours_def)

lemma boolToInt_ne [simp]: "boolToInt b \<noteq> 0 \<longleftrightarrow> b"
  by (simp add: boolToInt_def)

lemma scan_content: "jobContent (scanJob s r) = jobRowContent r"
  by (simp add: jobContent_def scanJob_def jobRowContent_def)

lemma viewJob_stmtNo [simp]: "viewJob (s\<lparr>stmtNo := n\<rparr>) = viewJob s"
  by (simp add: viewJob_def fun_eq_iff)

lemma job_create_Inr:
  assumes "db_ok s" and "addJob E v s = (Inr i, s')"
  shows "jobSeq s < i \<and> jobSeq s' = i \<and> viewJob s' = (viewJob s)(i \<mapsto> jobContent v)"
proof -
  have k: "ids_ok r_id (sync_jobs s) (jobSeq s)" using assms(1) by (simp add: db_ok_def)
  from dbExec_Inr [OF assms(2) [unfolded addJob_eq]] show ?thesis
    using ids_ok_fresh [OF k]
    by (auto simp: insertJob_def nextId_Inr viewJob_def row_of_snoc fun_eq_iff
        jobContent_def jobRowContent_def normalizeJobTTL_def split: sum.splits if_splits)
qed

lemma job_update_Inr:
  assumes "changeJob E i v s = (Inr u, s')"
  shows "jobSeq s' = jobSeq s \<and> viewJob s' =
    (if viewJob s i = None then viewJob s else (viewJob s)(i \<mapsto> jobContent v))"
proof -
  let ?v = "normalizeJobTTL (v\<lparr>j_id := i\<rparr>)"
  have m: "row_of r_id (map (\<lambda>r. if r_id r = i then setJobRow ?v t r else r) rows) =
     (case row_of r_id rows i of None \<Rightarrow> row_of r_id rows
      | Some r \<Rightarrow> (row_of r_id rows)(i \<mapsto> setJobRow ?v t r))" for t rows
    by (rule row_of_map) (simp add: setJobRow_def)
  have "j_id ?v = i" by (simp add: normalizeJobTTL_def)
  with dbExec_Inr [OF assms [unfolded changeJob_eq]] show ?thesis
    by (auto simp: setJob_def viewJob_def m fun_eq_iff split: if_splits option.splits)
      (auto simp: jobContent_def jobRowContent_def normalizeJobTTL_def setJobRow_def)
qed

lemma job_delete_Inr:
  assumes "deleteJob E i s = (Inr u, s')"
  shows "jobSeq s' = jobSeq s \<and> viewJob s' = (viewJob s)(i := None)"
  using dbExec_Inr [OF assms [unfolded deleteJob_def]]
  by (auto simp: viewJob_def row_of_filter fun_eq_iff Let_def split: if_splits option.splits)

lemma job_get_Inr:
  assumes "readJob E i s = (Inr v, s')"
  shows "viewJob s i = Some v"
proof -
  obtain j where "getJob E i s = (Inr j, s')" "v = jobContent j"
    using assms by (cases "getJob E i s"; cases "fst (getJob E i s)") (auto simp: readJob_def)
  with dbQuery_Inr show ?thesis
    by (fastforce simp: getJob_def row_of_filter_first viewJob_def scan_content split: option.splits)
qed

interpretation jobTable: crud db_ok viewJob jobSeq "addJob E" "changeJob E"
  "deleteJob E" "readJob E" jobContent jobContent
  for E
proof unfold_locales
  fix s i v u e s'
  show "db_ok s \<Longrightarrow> db_ok (snd (addJob E v s))"
    by (simp add: jobs_ok job_snd [symmetric])
  show "db_ok s \<Longrightarrow> db_ok (snd (changeJob E i v s))"
    by (simp add: jobs_ok job_snd [symmetric])
  show "db_ok s \<Longrightarrow> db_ok (snd (deleteJob E i s))" by (rule jobs_ok)
  show "db_ok s \<Longrightarrow> viewJob s i \<noteq> None \<Longrightarrow> i \<le> jobSeq s"
    by (auto simp: db_ok_def viewJob_def dest: ids_ok_row_of)
  show "addJob E v s = (Inl e, s') \<Longrightarrow> jobSeq s' = jobSeq s \<and> viewJob s' = viewJob s"
    unfolding addJob_eq by (auto dest: dbExec_Inl)
  show "changeJob E i v s = (Inl e, s') \<Longrightarrow> jobSeq s' = jobSeq s \<and> viewJob s' = viewJob s"
    unfolding changeJob_eq by (auto dest: dbExec_Inl)
  show "deleteJob E i s = (Inl e, s') \<Longrightarrow> jobSeq s' = jobSeq s \<and> viewJob s' = viewJob s"
    unfolding deleteJob_def by (auto dest: dbExec_Inl)
  show "viewJob (snd (readJob E i s)) = viewJob s"
    by (simp add: readJob_def getJob_def snd_dbQuery)
qed (simp_all add: job_create_Inr job_update_Inr job_delete_Inr job_get_Inr)

subsection \<open>DNS servers\<close>

definition dnsContent :: "DNSServer \<Rightarrow> DNSServer" where
  "dnsContent d = d\<lparr>d_id := 0, d_createdAt := [], d_updatedAt := []\<rparr>"

definition viewDNS :: "db \<Rightarrow> int \<Rightarrow> DNSServer option" where
  "viewDNS s i = map_option (dnsContent \<circ> scanDNS) (row_of s_id (dns_servers s) i)"

definition setDNSServer :: "dbenv \<Rightarrow> int \<Rightarrow> DNSServer \<Rightarrow> db \<Rightarrow> unit res \<times> db" where
  "setDNSServer E i d = updateDNSServer E (d\<lparr>d_id := i\<rparr>)"

definition readDNSServer :: "dbenv \<Rightarrow> int \<Rightarrow> db \<Rightarrow> DNSServer res \<times> db" where
  "readDNSServer E i s = map_prod (map_sum id dnsContent) id (getDNSServer E i s)"

lemma viewDNS_stmtNo [simp]: "viewDNS (s\<lparr>stmtNo := n\<rparr>) = viewDNS s"
  by (simp add: viewDNS_def fun_eq_iff)

lemma dns_create_Inr:
  assumes "db_ok s" and "createDNSServer E v s = (Inr i, s')"
  shows "dnsSeq s < i \<and> dnsSeq s' = i \<and> viewDNS s' = (viewDNS s)(i \<mapsto> dnsContent v)"
proof -
  have k: "ids_ok s_id (dns_servers s) (dnsSeq s)" using assms(1) by (simp add: db_ok_def)
  from dbExec_Inr [OF assms(2) [unfolded createDNSServer_def Let_def]] show ?thesis
    using ids_ok_fresh [OF k]
    by (auto simp: insertDNSRow_def nextId_Inr viewDNS_def row_of_snoc
        dnsContent_def scanDNS_def fun_eq_iff split: sum.splits)
qed

lemma dns_update_Inr:
  assumes "setDNSServer E i v s = (Inr u, s')"
  shows "dnsSeq s' = dnsSeq s \<and> viewDNS s' =
    (if viewDNS s i = None then viewDNS s else (viewDNS s)(i \<mapsto> dnsContent v))"
  using dbExec_Inr [OF assms [unfolded setDNSServer_def updateDNSServer_def]]
  by (auto simp: viewDNS_def row_of_map dnsContent_def scanDNS_def fun_eq_iff split: option.splits)

lemma dns_delete_Inr:
  assumes "deleteDNSServer E i s = (Inr u, s')"
  shows "dnsSeq s' = dnsSeq s \<and> viewDNS s' = (viewDNS s)(i := None)"
  using dbExec_Inr [OF assms [unfolded deleteDNSServer_def]]
  by (auto simp: viewDNS_def row_of_filter fun_eq_iff)

lemma dns_get_Inr:
  assumes "readDNSServer E i s = (Inr v, s')"
  shows "viewDNS s i = Some v"
proof -
  obtain d where "getDNSServer E i s = (Inr d, s')" "v = dnsContent d"
    using assms by (cases "getDNSServer E i s"; cases "fst (getDNSServer E i s)")
      (auto simp: readDNSServer_def)
  with dbQuery_Inr show ?thesis
    by (fastforce simp: getDNSServer_def row_of_filter_first viewDNS_def split: option.splits)
qed

interpretation dnsTable: crud db_ok viewDNS dnsSeq "createDNSServer E" "setDNSServer E"
  "deleteDNSServer E" "readDNSServer E" dnsContent dnsContent
  for E
proof unfold_locales
  fix s i v u e s'
  show "db_ok s \<Longrightarrow> db_ok (snd (createDNSServer E v s))" by (rule dns_ok)
  show "db_ok s \<Longrightarrow> db_ok (snd (setDNSServer E i v s))" by (simp add: dns_ok setDNSServer_def)
  show "db_ok s \<Longrightarrow> db_ok (snd (deleteDNSServer E i s))" by (rule dns_ok)
  show "db_ok s \<Longrightarrow> viewDNS s i \<noteq> None \<Longrightarrow> i \<le> dnsSeq s"
    by (auto simp: db_ok_def viewDNS_def dest: ids_ok_row_of)
  show "createDNSServer E v s = (Inl e, s') \<Longrightarrow> dnsSeq s' = dnsSeq s \<and> viewDNS s' = viewDNS s"
    unfolding createDNSServer_def Let_def by (auto dest: dbExec_Inl)
  show "setDNSServer E i v s = (Inl e, s') \<Longrightarrow> dnsSeq s' = dnsSeq s \<and> viewDNS s' = viewDNS s"
    unfolding setDNSServer_def updateDNSServer_def by (auto dest: dbExec_Inl)
  show "deleteDNSServer E i s = (Inl e, s') \<Longrightarrow> dnsSeq s' = dnsSeq s \<and> viewDNS s' = viewDNS s"
    unfolding deleteDNSServer_def by (auto dest: dbExec_Inl)
  show "viewDNS (snd (readDNSServer E i s)) = viewDNS s"
    by (simp add: readDNSServer_def getDNSServer_def snd_dbQuery)
qed (simp_all add: dns_create_Inr dns_update_Inr dns_delete_Inr dns_get_Inr)

end
