(* ===== verification/Store_Cache.thy ===== *)
theory Store_Cache
  imports Store_Crud
begin

text \<open>
  The cache of observed addresses as a map from job and address to its label and the times it was
  first and last seen: what storing a set of addresses, listing and expiring do to it, and that
  comparing the stored texts is comparing times.
\<close>

type_synonym sighting = "string \<times> string \<times> string"

definition sightings :: "observed_row list \<Rightarrow> (int \<times> string) \<Rightarrow> sighting option" where
  "sightings rows = map_of (map (\<lambda>r. ((o_jobID r, o_ip r), (o_source r, o_firstSeen r, o_lastSeen r))) rows)"

definition cache :: "db \<Rightarrow> int \<times> string \<Rightarrow> sighting option" where
  "cache s = sightings (job_observed_ips s)"

text \<open>Seeing an address: the label and the last time are new, the first time is kept.\<close>

definition see :: "string \<Rightarrow> string \<Rightarrow> sighting option \<Rightarrow> sighting option" where
  "see source t old = (case old of None \<Rightarrow> Some (source, t, t) | Some (_, first, _) \<Rightarrow> Some (source, first, t))"

lemma cache_stmtNo [simp]: "cache (s\<lparr>stmtNo := n\<rparr>) = cache s"
  by (simp add: cache_def)

lemma sightings_None: "sightings rows k = None \<longleftrightarrow> k \<notin> (\<lambda>r. (o_jobID r, o_ip r)) ` set rows"
  by (auto simp: sightings_def map_of_eq_None_iff image_image)

lemma sightings_snoc: "sightings (rows @ [r]) k =
    (case sightings rows k of Some v \<Rightarrow> Some v
     | None \<Rightarrow> if k = (o_jobID r, o_ip r) then Some (o_source r, o_firstSeen r, o_lastSeen r) else None)"
  by (induction rows) (auto simp: sightings_def)

lemma sightings_map: "sightings (map (\<lambda>r.
      if o_jobID r = j \<and> o_ip r = ip then r\<lparr>o_source := a, o_lastSeen := t\<rparr> else r) rows) k =
    (if k = (j, ip) then map_option (\<lambda>v. (a, fst (snd v), t)) (sightings rows k) else sightings rows k)"
  by (induction rows) (auto simp: sightings_def)

lemma sightings_Cons [simp]:
  "sightings [] k = None"
  "sightings (r # rows) k = (if k = (o_jobID r, o_ip r)
     then Some (o_source r, o_firstSeen r, o_lastSeen r) else sightings rows k)"
  by (auto simp: sightings_def)

lemma sightings_filter:
  "distinct (map (\<lambda>r. (o_jobID r, o_ip r)) rows) \<Longrightarrow>
   sightings (filter (\<lambda>r. q (o_jobID r) (o_lastSeen r)) rows) (j, ip) =
     (case sightings rows (j, ip) of None \<Rightarrow> None
      | Some (source, t0, t1) \<Rightarrow> if q j t1 then Some (source, t0, t1) else None)"
proof (induction rows)
  case (Cons r rows)
  show ?case
  proof (cases "(o_jobID r, o_ip r) = (j, ip)")
    case True
    then have "(j, ip) \<notin> (\<lambda>r. (o_jobID r, o_ip r)) ` set rows" using Cons.prems by simp
    then have "sightings (filter (\<lambda>r. q (o_jobID r) (o_lastSeen r)) rows) (j, ip) = None"
      unfolding sightings_None by auto
    with True show ?thesis by auto
  next
    case False
    with Cons show ?thesis by auto
  qed
qed simp

subsection \<open>Storing\<close>

lemma upsertRow_cache:
  assumes "upsertRow E jobID ip source seenAt ctx s = (Inr a, s')"
  shows "cache s' = (cache s)((jobID, ip) := see source seenAt (cache s (jobID, ip)))"
proof (cases "\<exists>r \<in> set (job_observed_ips s). o_jobID r = jobID \<and> o_ip r = ip")
  case True
  then have "sightings (job_observed_ips s) (jobID, ip) \<noteq> None"
    unfolding sightings_None by force
  then show ?thesis
    using True assms
    by (auto simp: upsertRow_def cache_def sightings_map see_def fun_eq_iff)
next
  case False
  then have "sightings (job_observed_ips s) (jobID, ip) = None"
    by (auto simp: sightings_None)
  then show ?thesis
    using False assms
    by (auto simp: upsertRow_def cache_def sightings_snoc see_def fun_eq_iff split: if_splits option.splits)
qed

lemma upsertLoop_cache:
  "upsertLoop E fk jobID hostIPs seenAt s = (Inr a, s') \<Longrightarrow> distinct (keys hostIPs) \<Longrightarrow>
   cache s' (j, ip) =
     (if j = jobID \<and> ip \<in> set (keys hostIPs)
      then see (get0 hostIPs ip) seenAt (cache s (j, ip)) else cache s (j, ip))"
proof (induction hostIPs arbitrary: s)
  case (Cons h hostIPs)
  obtain ip1 source where h: "h = (ip1, source)" by fastforce
  with Cons.prems obtain b s1 where
    e: "dbExec E [''job_observed_ips'']
      (\<lambda>ctx. upsertRow E jobID ip1 source seenAt (ctx\<lparr>fk_on := fk\<rparr>)) s = (Inr b, s1)" and
    l: "upsertLoop E fk jobID hostIPs seenAt s1 = (Inr a, s')"
    by (auto split: prod.splits sum.splits)
  have "cache s1 = (cache s)((jobID, ip1) := see source seenAt (cache s (jobID, ip1)))"
    using upsertRow_cache [OF dbExec_Inr [OF e]] by simp
  with Cons.IH [OF l] Cons.prems(2) h show ?case
    by (auto simp: get0_def image_iff)
qed simp

lemma upsertObservedIPs_cache:
  assumes "distinct (keys hostIPs)"
  shows "upsertObservedIPs E jobID hostIPs seenAt s = (Inr a, s') \<Longrightarrow>
      cache s' (j, ip) =
        (if j = jobID \<and> ip \<in> set (keys hostIPs)
         then see (get0 hostIPs ip) seenAt (cache s (j, ip)) else cache s (j, ip))"
    and "upsertObservedIPs E jobID hostIPs seenAt s = (Inl e, s') \<Longrightarrow> cache s' = cache s"
proof -
  have skip: "dbExec E [] (\<lambda>ctx s. (Inr (), s)) t = (r, t') \<Longrightarrow> t' = t\<lparr>stmtNo := Suc (stmtNo t)\<rparr>"
    for t r t'
    by (cases r) (auto dest: dbExec_Inr dbExec_Inl)
  show "cache s' (j, ip) =
        (if j = jobID \<and> ip \<in> set (keys hostIPs)
         then see (get0 hostIPs ip) seenAt (cache s (j, ip)) else cache s (j, ip))"
    if u: "upsertObservedIPs E jobID hostIPs seenAt s = (Inr a, s')"
  proof (cases "hostIPs = []")
    case False
    then obtain b s2 where
      "upsertLoop E (fk_on (dctx E (stmtNo s))) jobID hostIPs seenAt (s\<lparr>stmtNo := Suc (stmtNo s)\<rparr>) = (Inr b, s2)"
      "cache s' = cache s2"
      using u by (auto simp: upsertObservedIPs_def Let_def dest!: skip split: prod.splits sum.splits)
    with upsertLoop_cache [OF this(1) assms, of j ip] show ?thesis by simp
  qed (use u in \<open>simp add: upsertObservedIPs_def\<close>)
  show "cache s' = cache s" if "upsertObservedIPs E jobID hostIPs seenAt s = (Inl e, s')"
    using that
    by (auto simp: upsertObservedIPs_def Let_def dest!: skip split: if_splits prod.splits sum.splits)
qed

subsection \<open>Expiry\<close>

lemma db_ok_cache_keys:
  "db_ok s \<Longrightarrow> distinct (map (\<lambda>r. (o_jobID r, o_ip r)) (job_observed_ips s))"
  by (simp add: db_ok_def)

lemma deleteExpired_cache:
  assumes "db_ok s" and "deleteExpiredObservedIPs E jobID before s = (Inr a, s')"
  shows "cache s' (j, ip) = (case cache s (j, ip) of None \<Rightarrow> None
    | Some (source, t0, t1) \<Rightarrow> if j = jobID \<and> t1 < before then None else Some (source, t0, t1))"
  using dbExec_Inr [OF assms(2) [unfolded deleteExpiredObservedIPs_def]] db_ok_cache_keys [OF assms(1)]
    sightings_filter [of "job_observed_ips s" "\<lambda>i t. \<not> (i = jobID \<and> t < before)" j ip]
  by (auto simp: cache_def split: option.splits)

lemma deleteObserved_cache:
  assumes "db_ok s" and "deleteObservedIPs E jobID s = (Inr a, s')"
  shows "cache s' (j, ip) = (if j = jobID then None else cache s (j, ip))"
  using dbExec_Inr [OF assms(2) [unfolded deleteObservedIPs_def]] db_ok_cache_keys [OF assms(1)]
    sightings_filter [of "job_observed_ips s" "\<lambda>i t. i \<noteq> jobID" j ip]
  by (auto simp: cache_def split: option.splits)

subsection \<open>Listing\<close>

lemma map_of_fold_update:
  "map_of (fold (\<lambda>r out. AList.update (f r) (g r) out) rows out) =
     (map_of out) ++ map_of (rev (map (\<lambda>r. (f r, g r)) rows))"
  by (induction rows arbitrary: out) (auto simp: update_conv' fun_eq_iff map_add_def split: option.splits)

lemma map_of_perm:
  "distinct (map fst xs) \<Longrightarrow> set xs = set ys \<Longrightarrow> distinct (map fst ys) \<Longrightarrow> map_of xs = map_of ys"
  by (metis map_of_inject_set)

lemma distinct_keys_fold_update:
  "distinct (keys out) \<Longrightarrow> distinct (keys (fold (\<lambda>r out. AList.update (f r) (g r) out) rows out))"
  by (induction rows arbitrary: out) auto

lemma listObservedIPs_cache:
  assumes "db_ok s" and "listObservedIPs E jobID since s = (Inr m, s')"
  shows "distinct (keys m) \<and> map_of m ip = (case cache s (jobID, ip) of None \<Rightarrow> None
    | Some (source, t0, t1) \<Rightarrow> if since \<le> t1 then Some source else None)"
proof -
  let ?p = "\<lambda>r. o_jobID r = jobID \<and> since \<le> o_lastSeen r"
  let ?rows = "filter ?p (job_observed_ips s)"
  have m: "m = fold (\<lambda>r out. AList.update (o_ip r) (o_source r) out) (sort_key o_ip ?rows) []"
    using dbQuery_Inr [OF assms(2) [unfolded listObservedIPs_def]] by simp
  have d: "distinct (map o_ip ?rows)"
    using db_ok_cache_keys [OF assms(1)] by (auto simp: distinct_map inj_on_def)
  then have d': "distinct (map o_ip (sort_key o_ip ?rows))"
    by (simp add: distinct_map)
  have "map_of m = map_of (rev (map (\<lambda>r. (o_ip r, o_source r)) (sort_key o_ip ?rows)))"
    unfolding m map_of_fold_update by simp
  also have "\<dots> = map_of (map (\<lambda>r. (o_ip r, o_source r)) ?rows)"
  proof (rule map_of_perm)
    have f: "map fst (map (\<lambda>r. (o_ip r, o_source r)) rows) = map o_ip rows" for rows
      by simp
    show "distinct (map fst (rev (map (\<lambda>r. (o_ip r, o_source r)) (sort_key o_ip ?rows))))"
      unfolding rev_map [symmetric] f using d' by simp
    show "distinct (map fst (map (\<lambda>r. (o_ip r, o_source r)) ?rows))"
      unfolding f by (rule d)
  qed simp
  finally have mm: "map_of m ip = map_of (map (\<lambda>r. (o_ip r, o_source r)) ?rows) ip" by simp
  have "map_of (map (\<lambda>r. (o_ip r, o_source r)) (filter ?p rows)) ip =
    (case sightings rows (jobID, ip) of None \<Rightarrow> None
     | Some (source, t0, t1) \<Rightarrow> if since \<le> t1 then Some source else None)"
    if "distinct (map (\<lambda>r. (o_jobID r, o_ip r)) rows)" for rows
    using that
  proof (induction rows)
    case (Cons r rows)
    show ?case
    proof (cases "(o_jobID r, o_ip r) = (jobID, ip)")
      case True
      then have "sightings rows (jobID, ip) = None"
        using Cons.prems by (simp add: sightings_None)
      with True Cons show ?thesis by auto
    next
      case False
      with Cons show ?thesis by auto
    qed
  qed simp
  with mm db_ok_cache_keys [OF assms(1)] show ?thesis
    by (simp add: cache_def m distinct_keys_fold_update)
qed

end
