(* ===== verification/Store_Props.thy ===== *)
theory Store_Props
  imports Store_Cache
begin

text \<open>
  The properties of the store: invariants of everything a program can reach with its operations,
  the tables as maps, atomic recording and timely expiry of observed addresses, the lists, and
  what opening a database does.
\<close>

text \<open>A database without faults for the witnesses, with or without enforced foreign keys.\<close>

definition demo_db :: "bool \<Rightarrow> dbenv" where
  "demo_db fk = \<lparr>dctx = (\<lambda>n. \<lparr>fault = None, fk_on = fk, ctx_time = 1700000000 + int n, row_rank = (\<lambda>i. 0)\<rparr>),
     fkErr = ''FOREIGN KEY constraint failed'', fullErr = ''full'', dupColumnErr = ''duplicate column'',
     noTableErr = (\<lambda>t. ''no such table'')\<rparr>"

definition demo_controller :: Controller where
  "demo_controller = \<lparr>c_id = 0, c_name = ''home'', c_url = ''https://unifi'', c_apiKey = ''k'', c_site = [],
     c_skipTLSVerify = False, c_createdAt = [], c_updatedAt = []\<rparr>"

definition demo_job :: SyncJob where
  "demo_job = \<lparr>j_id = 0, j_name = ''allow'', j_controllerID = 1, j_networkListID = ''L1'',
     j_hostnames = ''10.0.0.1'', j_schedule = [], j_ttlHours = -5, j_enabled = True, j_lastRunAt = None,
     j_lastResult = None, j_createdAt = [], j_updatedAt = [], j_controllerName = []\<rparr>"

lemma demo_fks: "fks_enforced (demo_db True)"
  by (simp add: fks_enforced_def demo_db_def)

subsection \<open>Invariants\<close>

text \<open>
  C11: Whatever operations a program runs on a new database, and whatever statements fail, the
  tables stay well formed: numbers are unique, positive and within the 64-bit counter of their
  table, flags are 0 or 1, no retention time is negative, and an address is cached once per job.
\<close>
theorem store_invariant: "db_ok (fold (db_do E) ops empty_db)"
  by (rule db_ok_fold [OF db_ok_empty])

text \<open>
  C12: While every connection enforces foreign keys, no reference dangles in any reachable state:
  the controller of every job exists, and so does the job of every run log and cached address;
  in particular deleting a job removes its logs and its cache, and a used controller stays.
\<close>
theorem store_references:
  assumes "fks_enforced E"
  shows "refs_ok (fold (db_do E) ops empty_db)"
  by (rule refs_ok_fold [OF refs_ok_empty assms])

theorem store_references_witness:
  "refs_ok (fold (db_do (demo_db True)) [Reopen None, CreateController demo_controller, CreateJob demo_job,
     DeleteController 1, DeleteJob 1] empty_db)"
  by (rule store_references [OF demo_fks])

text \<open>
  On a connection that does not enforce foreign keys (the setting is made on one connection
  of the pool only) a controller that a job uses can be deleted, and the job then refers to nothing.
\<close>
theorem store_references_unenforced:
  "\<exists>s. db_ok s \<and> refs_ok s \<and> \<not> refs_ok (db_do (demo_db False) (DeleteController 1) s)"
proof -
  let ?row = "\<lparr>r_id = 1, r_name = ''allow'', r_controllerID = 1, r_networkListID = ''L1'',
     r_hostnames = ''10.0.0.1'', r_schedule = [], r_ttlHours = 168, r_enabled = 1, r_lastRunAt = None,
     r_lastResult = None, r_createdAt = ''t'', r_updatedAt = ''t''\<rparr>"
  let ?s = "empty_db\<lparr>schema := [''controllers'', ''sync_jobs''],
     controllers := [demo_controller\<lparr>c_id := 1\<rparr>], ctrlSeq := 1, sync_jobs := [?row], jobSeq := 1\<rparr>"
  have "db_ok ?s" by (simp add: db_ok_def ids_ok_def empty_db_def maxInt64_def demo_controller_def)
  moreover have "refs_ok ?s" by (simp add: refs_ok_def empty_db_def demo_controller_def)
  moreover have "\<not> refs_ok (db_do (demo_db False) (DeleteController 1) ?s)"
    by (simp add: refs_ok_def empty_db_def demo_controller_def deleteController_def dbExec_def demo_db_def)
  ultimately show ?thesis by blast
qed

subsection \<open>Tables as maps\<close>

text \<open>
  C13: The table of jobs is a map from numbers to jobs. Any sequence of creating, updating and
  deleting jobs changes the map as the successful operations say and the failed ones not at all:
  a created job is there with its retention time normalised, an update of a number that does not
  exist does nothing, and the numbers given to new jobs grow strictly, so none is ever reused.
\<close>
theorem jobs_refine_map:
  assumes "db_ok s"
    and "crud_run (addJob E) (changeJob E) (deleteJob E) ops s = (rs, s')"
  shows "length rs = length ops \<and>
    viewJob s' = fold (abs_do jobContent jobContent) (zip ops rs) (viewJob s) \<and>
    sorted_wrt (<) (created rs) \<and> (\<forall>i \<in> set (created rs). jobSeq s < i \<and> viewJob s i = None)"
proof -
  have "viewJob s i = None" if "jobSeq s < i" for i
    using jobTable.view_top [OF assms(1), of i] that by (cases "viewJob s i") auto
  with jobTable.run_refines [OF assms] jobTable.run_fresh [OF assms] show ?thesis by auto
qed

theorem jobs_refine_map_witness:
  "\<exists>rs s'. crud_run (addJob (demo_db True)) (changeJob (demo_db True)) (deleteJob (demo_db True))
      [Create demo_job, Delete 1] empty_db = (rs, s') \<and> length rs = 2 \<and> sorted_wrt (<) (created rs)"
proof -
  obtain rs s' where r: "crud_run (addJob (demo_db True)) (changeJob (demo_db True)) (deleteJob (demo_db True))
      [Create demo_job, Delete 1] empty_db = (rs, s')" by fastforce
  with jobs_refine_map [OF db_ok_empty r] show ?thesis by auto
qed

text \<open>
  The table of controllers is a map in the same sense, with an empty site stored as
  ''default'' when a controller is created; and a controller that is read back after creating it
  is the one that was written.
\<close>
theorem controllers_refine_map:
  assumes "db_ok s"
    and "crud_run (addController E) (setController E) (deleteController E) ops s = (rs, s')"
  shows "length rs = length ops \<and>
    viewController s' =
      fold (abs_do (controllerContent \<circ> defaultSite) controllerContent) (zip ops rs) (viewController s) \<and>
    sorted_wrt (<) (created rs) \<and>
    (addController E c s' = (Inr i, s1) \<and> readController E i s1 = (Inr c', s2) \<longrightarrow>
       c' = controllerContent (defaultSite c))"
proof -
  from controllerTable.run_refines [OF assms] have "db_ok s'" by simp
  from controllerTable.create_get [OF this] controllerTable.run_refines [OF assms]
    controllerTable.run_fresh [OF assms] show ?thesis by auto
qed

theorem controllers_refine_map_witness:
  "\<exists>rs s'. crud_run (addController (demo_db True)) (setController (demo_db True)) (deleteController (demo_db True))
      [Create demo_controller] empty_db = (rs, s') \<and> length rs = 1"
proof -
  obtain rs s' where r: "crud_run (addController (demo_db True)) (setController (demo_db True))
      (deleteController (demo_db True)) [Create demo_controller] empty_db = (rs, s')" by fastforce
  with controllers_refine_map [OF db_ok_empty r] show ?thesis by auto
qed

subsection \<open>Observed addresses\<close>

text \<open>
  C14: Recording a set of observed addresses is atomic. If it succeeds, exactly the given addresses
  of that job have the new label and the new time, keeping the time they were first seen; every
  other entry is as before. If it fails, at whatever statement, the cache is unchanged.
\<close>
theorem upsertObservedIPs_atomic:
  assumes "distinct (keys hostIPs)"
    and "upsertObservedIPs E jobID hostIPs seenAt s = (r, s')"
  shows "cache s' (j, ip) =
    (if r = Inr () \<and> j = jobID \<and> ip \<in> set (keys hostIPs)
     then see (get0 hostIPs ip) seenAt (cache s (j, ip)) else cache s (j, ip))"
proof (cases r)
  case (Inl e)
  then show ?thesis using upsertObservedIPs_cache(2) [OF assms(1)] assms(2) by simp
next
  case (Inr u)
  then show ?thesis using upsertObservedIPs_cache(1) [OF assms(1)] assms(2) by simp
qed

theorem upsertObservedIPs_atomic_witness:
  "\<exists>s'. upsertObservedIPs (demo_db False) 1 [(''10.0.0.1'', ''a'')] ''t'' (empty_db\<lparr>schema := [''job_observed_ips'']\<rparr>)
      = (Inr (), s') \<and> cache s' (1, ''10.0.0.1'') = Some (''a'', ''t'', ''t'')"
proof -
  let ?s = "empty_db\<lparr>schema := [''job_observed_ips'']\<rparr>"
  obtain r s' where u: "upsertObservedIPs (demo_db False) 1 [(''10.0.0.1'', ''a'')] ''t'' ?s = (r, s')" by fastforce
  have "fst (upsertObservedIPs (demo_db False) 1 [(''10.0.0.1'', ''a'')] ''t'' ?s) = Inr ()" by code_simp
  with u have r: "r = Inr ()" by simp
  have "distinct (keys [(''10.0.0.1'', ''a'')])" by simp
  from upsertObservedIPs_atomic [OF this u, of 1 "''10.0.0.1''"] r u show ?thesis
    by (simp add: cache_def sightings_def empty_db_def see_def get0_def)
qed

text \<open>
  Expiry goes by time although the times are kept as texts. For times of years 0 to 9999, an
  entry last seen at second \<open>seen\<close> is removed by an expiry with cutoff second \<open>cutoff\<close> exactly when
  it is older, entries of other jobs are kept, and a later listing with the same cutoff returns
  exactly the entries that are left, with their labels.
\<close>
theorem expiry_by_time:
  assumes "db_ok s" and "rfc3339_range seen" and "rfc3339_range cutoff"
    and "cache s (j, ip) = Some (source, first, rfc3339 seen)"
    and "deleteExpiredObservedIPs E jobID (rfc3339 cutoff) s = (Inr u, s1)"
    and "listObservedIPs E jobID (rfc3339 cutoff) s1 = (Inr m, s2)"
  shows "cache s1 (j, ip) = (if j = jobID \<and> seen < cutoff then None else cache s (j, ip)) \<and>
    (j = jobID \<longrightarrow> map_of m ip = (if seen < cutoff then None else Some source))"
proof -
  have "db_ok s1" using observed_ok(2) [OF assms(1), of E jobID "rfc3339 cutoff"] assms(5) by simp
  moreover have "rfc3339 seen < rfc3339 cutoff \<longleftrightarrow> seen < cutoff"
    using assms(2,3) by (rule rfc3339_less_iff)
  ultimately show ?thesis
    using deleteExpired_cache [OF assms(1,5), of j ip] listObservedIPs_cache [OF _ assms(6), of ip] assms(4)
    by (auto simp: not_less [symmetric])
qed

theorem expiry_by_time_witness:
  "rfc3339 1700000000 = ''2023-11-14T22:13:20Z'' \<and>
   (\<exists>s1 m s2. listObservedIPs (demo_db True) 1 (rfc3339 1700000001) s1 = (Inr m, s2) \<and> map_of m ''10.0.0.1'' = None)"
proof -
  let ?s = "empty_db\<lparr>schema := [''job_observed_ips''], job_observed_ips :=
     [\<lparr>o_jobID = 1, o_ip = ''10.0.0.1'', o_source = ''a'', o_firstSeen = rfc3339 1700000000, o_lastSeen = rfc3339 1700000000\<rparr>]\<rparr>"
  have ok: "db_ok ?s" by (simp add: db_ok_def ids_ok_def empty_db_def maxInt64_def)
  obtain u s1 where d: "deleteExpiredObservedIPs (demo_db True) 1 (rfc3339 1700000001) ?s = (Inr u, s1)"
    by (simp add: deleteExpiredObservedIPs_def dbExec_def demo_db_def empty_db_def)
  then have "schema s1 = [''job_observed_ips'']"
    by (auto simp: deleteExpiredObservedIPs_def dbExec_def demo_db_def empty_db_def)
  then obtain m s2 where l: "listObservedIPs (demo_db True) 1 (rfc3339 1700000001) s1 = (Inr m, s2)"
    by (simp add: listObservedIPs_def dbQuery_def dbExec_def demo_db_def)
  have "cache ?s (1, ''10.0.0.1'') = Some (''a'', rfc3339 1700000000, rfc3339 1700000000)"
    by (simp add: cache_def sightings_def)
  from expiry_by_time [OF ok _ _ this d l] l have "map_of m ''10.0.0.1'' = None"
    by (simp add: rfc3339_range_def)
  moreover have "rfc3339 1700000000 = ''2023-11-14T22:13:20Z''" by code_simp
  ultimately show ?thesis using l by blast
qed

subsection \<open>Lists\<close>

lemma sorted_order_by: "sorted (map key (order_by ctx rid key rows))"
  by (simp add: order_by_def)

lemma mset_order_by: "mset (order_by ctx rid key rows) = mset rows"
  by (simp add: order_by_def)

text \<open>
  The logs of a job are the newest ones first: the list holds only logs of that job, at most
  \<open>limit\<close> of them when the limit is not negative, in descending order of their start, and every
  log of the job that is left out is not newer than any log in the list.
\<close>
theorem getRunLogs_newest:
  assumes "getRunLogs E jobID limit s = (Inr ls, s')"
  shows "sorted_wrt (\<lambda>a b. l_startedAt b \<le> l_startedAt a) ls \<and>
    (\<exists>rest. mset ls + mset rest = mset (filter (\<lambda>l. l_jobID l = jobID) (run_logs s)) \<and>
       (\<forall>a \<in> set ls. \<forall>b \<in> set rest. l_startedAt b \<le> l_startedAt a) \<and>
       length ls = (if limit < 0 then length ls + length rest else min (nat limit) (length ls + length rest)))"
proof -
  obtain ctx where ls: "ls = (let rows = rev (order_by ctx l_id l_startedAt (filter (\<lambda>l. l_jobID l = jobID) (run_logs s)))
      in if limit < 0 then rows else take (nat limit) rows)"
    using dbQuery_Inr [OF assms [unfolded getRunLogs_def]] by (auto simp: Let_def)
  define rows where "rows = rev (order_by ctx l_id l_startedAt (filter (\<lambda>l. l_jobID l = jobID) (run_logs s)))"
  define n where "n = (if limit < 0 then length rows else nat limit)"
  have ls': "ls = take n rows" by (simp add: ls rows_def n_def Let_def)
  have sorted: "sorted_wrt (\<lambda>a b. l_startedAt b \<le> l_startedAt a) rows"
    using sorted_order_by [of l_startedAt ctx l_id "filter (\<lambda>l. l_jobID l = jobID) (run_logs s)"]
    by (simp add: rows_def sorted_wrt_rev sorted_map)
  have split: "rows = ls @ drop n rows" by (simp add: ls')
  have "mset ls + mset (drop n rows) = mset rows" using arg_cong [OF split, of mset] by simp
  moreover have "mset rows = mset (filter (\<lambda>l. l_jobID l = jobID) (run_logs s))"
    by (simp add: rows_def mset_order_by)
  moreover have "sorted_wrt (\<lambda>a b. l_startedAt b \<le> l_startedAt a) (ls @ drop n rows)"
    using sorted split by simp
  ultimately have s: "sorted_wrt (\<lambda>a b. l_startedAt b \<le> l_startedAt a) ls"
      "\<forall>a \<in> set ls. \<forall>b \<in> set (drop n rows). l_startedAt b \<le> l_startedAt a"
      "mset ls + mset (drop n rows) = mset (filter (\<lambda>l. l_jobID l = jobID) (run_logs s))"
    by (simp_all add: sorted_wrt_append)
  have "length ls + length (drop n rows) = length rows" by (simp add: ls')
  then have "length ls = (if limit < 0 then length ls + length (drop n rows)
      else min (nat limit) (length ls + length (drop n rows)))"
    by (simp only:) (simp add: ls' n_def min.commute)
  with s show ?thesis by blast
qed

theorem getRunLogs_newest_witness:
  "\<exists>ls s'. getRunLogs (demo_db True) 1 2 (empty_db\<lparr>schema := [''run_logs'']\<rparr>) = (Inr ls, s') \<and> length ls \<le> 2"
proof -
  obtain ls s' where g: "getRunLogs (demo_db True) 1 2 (empty_db\<lparr>schema := [''run_logs'']\<rparr>) = (Inr ls, s')"
    by (simp add: getRunLogs_def dbQuery_def dbExec_def demo_db_def empty_db_def)
  with getRunLogs_newest [OF g] show ?thesis by (auto simp: empty_db_def)
qed

lemma scanJob_stmtNo: "scanJob (s\<lparr>stmtNo := n\<rparr>) = scanJob s"
  by (simp add: scanJob_def controllerName_def fun_eq_iff)

text \<open>
  The servers a run uses are the addresses of the enabled rows, each row once, oldest first;
  listing jobs and listing controllers return every row once, ordered by name, and a listed job
  carries the name of its controller, or no name when that is gone.
\<close>
theorem lists_complete:
  "(\<forall>addrs s'. listEnabledDNSServerAddresses E s = (Inr addrs, s') \<longrightarrow>
      (\<exists>rows. addrs = map s_address rows \<and> sorted (map s_id rows) \<and>
         mset rows = mset (filter (\<lambda>r. s_enabled r = 1) (dns_servers s)))) \<and>
   (\<forall>js s'. listJobs E s = (Inr js, s') \<longrightarrow>
      sorted (map j_name js) \<and> mset js = mset (map (scanJob s) (sync_jobs s))) \<and>
   (\<forall>cs s'. listControllers E s = (Inr cs, s') \<longrightarrow>
      sorted (map c_name cs) \<and> mset cs = mset (controllers s))"
proof (intro conjI allI impI)
  fix addrs s' assume "listEnabledDNSServerAddresses E s = (Inr addrs, s')"
  from dbQuery_Inr [OF this [unfolded listEnabledDNSServerAddresses_def]]
  show "\<exists>rows. addrs = map s_address rows \<and> sorted (map s_id rows) \<and>
         mset rows = mset (filter (\<lambda>r. s_enabled r = 1) (dns_servers s))"
    by (intro exI [of _ "sort_key s_id (filter (\<lambda>r. s_enabled r = 1) (dns_servers s))"]) simp
next
  fix js s' assume "listJobs E s = (Inr js, s')"
  from dbQuery_Inr [OF this [unfolded listJobs_def]] 
  have js: "js = map (scanJob s) (order_by (dctx E (stmtNo s)) r_id r_name (sync_jobs s))"
    by (simp add: scanJob_stmtNo)
  have "map j_name js = map r_name (order_by (dctx E (stmtNo s)) r_id r_name (sync_jobs s))"
    by (simp add: js scanJob_def)
  then show "sorted (map j_name js)" by (simp add: sorted_order_by)
  show "mset js = mset (map (scanJob s) (sync_jobs s))" by (simp add: js mset_order_by)
next
  fix cs s' assume "listControllers E s = (Inr cs, s')"
  from dbQuery_Inr [OF this [unfolded listControllers_def]]
  show "sorted (map c_name cs)" "mset cs = mset (controllers s)"
    by (auto simp: sorted_order_by mset_order_by)
qed

theorem lists_complete_witness:
  "\<exists>js s'. listJobs (demo_db True) (empty_db\<lparr>schema := ''controllers'' # jobObjs\<rparr>) = (Inr js, s') \<and> js = []"
proof -
  obtain js s' where g: "listJobs (demo_db True) (empty_db\<lparr>schema := ''controllers'' # jobObjs\<rparr>) = (Inr js, s')"
    by (simp add: listJobs_def dbQuery_def dbExec_def demo_db_def empty_db_def Let_def)
  with lists_complete [of "demo_db True" "empty_db\<lparr>schema := ''controllers'' # jobObjs\<rparr>"] show ?thesis
    by (auto simp: empty_db_def)
qed

subsection \<open>Opening\<close>

definition quiet :: "dbenv \<Rightarrow> bool" where
  "quiet E \<longleftrightarrow> (\<forall>n. fault (dctx E n) = None)"

definition allObjs :: "string list" where
  "allObjs = [''controllers'', ''controllers.skip_tls_verify'', ''sync_jobs'', ''run_logs'',
     ''sync_jobs.observed_ip_ttl_hours'', ''dns_servers'', ''job_observed_ips'']"

lemma quiet_exec:
  "quiet E \<Longrightarrow> set objs \<subseteq> set (schema s) \<Longrightarrow>
   dbExec E objs f s = (case f (dctx E (stmtNo s)) (s\<lparr>stmtNo := Suc (stmtNo s)\<rparr>) of
     (Inl err, _) \<Rightarrow> (Inl err, s\<lparr>stmtNo := Suc (stmtNo s)\<rparr>) | (Inr a, s2) \<Rightarrow> (Inr a, s2))"
  by (rule dbExec_calm) (simp add: calm_def quiet_def)

lemma quiet_tables:
  assumes "quiet E"
  shows "pragma E s = (Inr (), s\<lparr>stmtNo := Suc (stmtNo s)\<rparr>)"
    "createTable E objs s = (Inr (), (if hd objs \<in> set (schema s) then s
        else s\<lparr>schema := fold add_key objs (schema s)\<rparr>)\<lparr>stmtNo := Suc (stmtNo s)\<rparr>)"
    "col \<in> set (schema s) \<Longrightarrow> snd (addColumn E tab col fill s) = s\<lparr>stmtNo := Suc (stmtNo s)\<rparr>"
    "tab \<in> set (schema s) \<Longrightarrow> col \<notin> set (schema s) \<Longrightarrow> snd (addColumn E tab col fill s) =
        fill (s\<lparr>stmtNo := Suc (stmtNo s), schema := add_key col (schema s)\<rparr>)"
    "''dns_servers'' \<in> set (schema s) \<Longrightarrow>
       countDNS E s = (Inr (length (dns_servers s)), s\<lparr>stmtNo := Suc (stmtNo s)\<rparr>)"
  using assms
  by (simp_all add: pragma_def createTable_def countDNS_def dbQuery_def quiet_exec)
    (simp_all add: addColumn_def dbExec_def quiet_def Let_def)

lemma seedDNS_quiet:
  assumes "quiet E" and "''dns_servers'' \<in> set (schema s)" and "dnsSeq s + int (length ds) \<le> maxInt64"
  shows "let s' = seedDNS E now ds s in schema s' = schema s \<and>
    map (\<lambda>r. (s_name r, s_address r, s_enabled r)) (dns_servers s') =
      map (\<lambda>r. (s_name r, s_address r, s_enabled r)) (dns_servers s) @ map (\<lambda>(n, a). (n, a, 1)) ds \<and>
    controllers s' = controllers s \<and> sync_jobs s' = sync_jobs s"
  using assms(2,3)
proof (induction ds arbitrary: s)
  case (Cons d ds)
  obtain n a where d: "d = (n, a)" by fastforce
  let ?s = "snd (dbExec E [''dns_servers''] (insertDNSRow E n a 1 now) s)"
  have "schema ?s = schema s" "dnsSeq ?s = dnsSeq s + 1" "controllers ?s = controllers s"
    "sync_jobs ?s = sync_jobs s"
    "map (\<lambda>r. (s_name r, s_address r, s_enabled r)) (dns_servers ?s) =
       map (\<lambda>r. (s_name r, s_address r, s_enabled r)) (dns_servers s) @ [(n, a, 1)]"
    using assms(1) Cons.prems by (simp_all add: quiet_exec insertDNSRow_def nextId_def)
  with Cons.IH [of ?s] Cons.prems show ?case by (simp add: d Let_def)
qed simp

lemma newStore_contract:
  assumes "quiet E"
  shows "(case newStore E None empty_db of (r, s) \<Rightarrow> r = Inr () \<and> set (schema s) = set allObjs \<and>
      map (\<lambda>r. (s_name r, s_address r, s_enabled r)) (dns_servers s) = map (\<lambda>(n, a). (n, a, 1)) defaultDNS) \<and>
    (set allObjs \<subseteq> set (schema s) \<and> dns_servers s \<noteq> [] \<longrightarrow>
      newStore E None s = (Inr (), s\<lparr>stmtNo := stmtNo s + 11\<rparr>))"
proof -
  define s1 where "s1 = empty_db\<lparr>schema := [''controllers'', ''controllers.skip_tls_verify'', ''sync_jobs'',
      ''run_logs'', ''sync_jobs.observed_ip_ttl_hours'', ''dns_servers'', ''job_observed_ips''],
      stmtNo := Suc (Suc (Suc (Suc (Suc (Suc (Suc (Suc 3)))))))\<rparr>"
  have "migrate E (empty_db\<lparr>stmtNo := n\<rparr>) = (Inr (), seedDNS E (clockNow E s0) defaultDNS s0)"
    if "s0 = empty_db\<lparr>schema := [''controllers'', ''controllers.skip_tls_verify'', ''sync_jobs'',
      ''run_logs'', ''sync_jobs.observed_ip_ttl_hours'', ''dns_servers'', ''job_observed_ips''],
      stmtNo := Suc (Suc (Suc (Suc (Suc (Suc (Suc (Suc n)))))))\<rparr>" for n s0
    unfolding that using assms by (simp add: migrate_def quiet_tables empty_db_def add_key_def Let_def)
  then have "migrate E (empty_db\<lparr>stmtNo := 3\<rparr>) = (Inr (), seedDNS E (clockNow E s1) defaultDNS s1)"
    using s1_def by blast
  moreover have "empty_db\<lparr>stmtNo := Suc (Suc (Suc (stmtNo empty_db)))\<rparr> = empty_db\<lparr>stmtNo := 3\<rparr>"
    by (simp add: empty_db_def)
  ultimately have new: "newStore E None empty_db = (Inr (), seedDNS E (clockNow E s1) defaultDNS s1)"
    using assms by (simp add: newStore_def quiet_tables)
  have s1: "schema s1 = allObjs" "dns_servers s1 = []" "dnsSeq s1 = 0"
    by (simp_all add: s1_def allObjs_def empty_db_def)
  have "''dns_servers'' \<in> set (schema s1)" "dnsSeq s1 + int (length defaultDNS) \<le> maxInt64"
    by (simp_all add: s1 allObjs_def defaultDNS_def maxInt64_def)
  from seedDNS_quiet [OF assms this, of "clockNow E s1"]
  have first: "case newStore E None empty_db of (r, s) \<Rightarrow> r = Inr () \<and> set (schema s) = set allObjs \<and>
      map (\<lambda>r. (s_name r, s_address r, s_enabled r)) (dns_servers s) = map (\<lambda>(n, a). (n, a, 1)) defaultDNS"
    by (simp add: new s1 Let_def)
  have "newStore E None s = (Inr (), s\<lparr>stmtNo := stmtNo s + 11\<rparr>)"
    if "set allObjs \<subseteq> set (schema s)" "dns_servers s \<noteq> []"
    using that assms
    by (simp add: newStore_def migrate_def quiet_tables allObjs_def Let_def)
  with first show ?thesis by blast
qed

text \<open>
  Opening works from nothing and again. Without faults, opening a new database creates every
  table and column and the eight public resolvers, all enabled; opening a complete database that
  has a DNS server changes nothing in it.
\<close>
theorem newStore_complete:
  assumes "quiet E"
  shows "(case newStore E None empty_db of (r, s) \<Rightarrow> r = Inr () \<and> set (schema s) = set allObjs \<and>
      map (\<lambda>r. (s_name r, s_address r, s_enabled r)) (dns_servers s) = map (\<lambda>(n, a). (n, a, 1)) defaultDNS) \<and>
    (set allObjs \<subseteq> set (schema s) \<and> dns_servers s \<noteq> [] \<longrightarrow>
      newStore E None s = (Inr (), s\<lparr>stmtNo := stmtNo s + 11\<rparr>))"
  by (rule newStore_contract [OF assms])

theorem newStore_complete_witness:
  "fst (newStore (demo_db True) None empty_db) = Inr ()"
proof -
  have "quiet (demo_db True)" by (simp add: quiet_def demo_db_def)
  from newStore_complete [OF this, THEN conjunct1] show ?thesis by (simp add: case_prod_beta)
qed

text \<open>
  The public resolvers are not only entered on the first run: without faults, opening a
  complete database in which all DNS servers have been deleted enters them again, enabled.
\<close>
theorem newStore_reseeds:
  assumes "quiet E" and "set allObjs \<subseteq> set (schema s)" and "dns_servers s = []"
    and "dnsSeq s + 8 \<le> maxInt64"
  shows "map s_address (dns_servers (snd (newStore E None s))) = map snd defaultDNS"
proof -
  let ?s = "s\<lparr>stmtNo := Suc (Suc (Suc (Suc (Suc (Suc (Suc (Suc (Suc (Suc (Suc (stmtNo s)))))))))))\<rparr>"
  have new: "newStore E None s = (Inr (), seedDNS E (clockNow E ?s) defaultDNS ?s)"
    using assms(1-3) by (simp add: newStore_def migrate_def quiet_tables allObjs_def Let_def)
  have "''dns_servers'' \<in> set (schema ?s)" "dnsSeq ?s + int (length defaultDNS) \<le> maxInt64"
    using assms(2,4) by (auto simp: allObjs_def defaultDNS_def)
  from seedDNS_quiet [OF assms(1) this, of "clockNow E ?s"] assms(3)
  have "map (\<lambda>r. (s_name r, s_address r, s_enabled r)) (dns_servers (snd (newStore E None s))) =
      map (\<lambda>(n, a). (n, a, 1)) defaultDNS" by (simp add: new Let_def)
  from arg_cong [OF this, of "map (fst \<circ> snd)"] show ?thesis by (simp add: comp_def case_prod_beta)
qed

theorem newStore_reseeds_witness:
  "map s_address (dns_servers (snd (newStore (demo_db True) None (empty_db\<lparr>schema := allObjs, dnsSeq := 8\<rparr>))))
     = map snd defaultDNS"
  by (rule newStore_reseeds) (simp_all add: quiet_def demo_db_def empty_db_def maxInt64_def)

end
