(* ===== verification/Unifi_Client.thy ===== *)
theory Unifi_Client
  imports Go_Strings
begin

text \<open>
  The client of the controller's integration API, \<^verbatim>\<open>internal/unifi/client.go\<close>:
  requests, detection of the API path, resolution of the site, and reading and writing a traffic
  matching list, with the decoding of list items.

  The HTTP transport is an argument (\<open>send\<close>, one round trip, from the history of calls and
  the round trips of the current one), as are the parsers for URLs and JSON texts;
  \<open>http_env\<close> collects them. \<^verbatim>\<open>http.Client.Do\<close> is modelled: it
  follows redirects, as the client sets no policy of its own, so one call makes up to ten requests, the
  hops of its entry in the history. JSON texts are parsed to values of the type \<open>json\<close>, and
  what \<^verbatim>\<open>encoding/json\<close> then does to fill a struct is modelled: members match
  field names without regard to case, later members overwrite, null leaves a field alone.
\<close>

datatype json = JNull | JBool bool | JNum string | JStr string | JArr "json list"
  | JObj "(string \<times> json) list"

record Site =
  st_id :: string
  st_internalReference :: string
  st_name :: string

record TrafficMatchItem =
  it_type :: string
  it_value :: string
  it_start :: string
  it_stop :: string

record NetworkList =
  nl_type :: string
  nl_id :: string
  nl_name :: string
  nl_items :: "TrafficMatchItem list"

record networkListUpdate =
  up_type :: string
  up_name :: string
  up_items :: "TrafficMatchItem list"

record request =
  rq_method :: string
  rq_url :: string
  rq_headers :: "(string \<times> string) list"
  rq_body :: "string option"

record response =
  rs_status :: int
  rs_contentType :: string
  rs_location :: string
  rs_body :: "string res"

record hop =
  hp_request :: request
  hp_result :: "response res"

text \<open>One call of \<^verbatim>\<open>Do\<close>: the request it was given, the requests it made, and what it returned.\<close>

record http_ev =
  he_skipTLSVerify :: bool
  he_request :: request
  he_hops :: "hop list"
  he_result :: "response res"

type_synonym http_trace = "http_ev list"

record parsed_url =
  pu_scheme :: string
  pu_host :: string
  pu_path :: string
  pu_rawQuery :: string
  pu_fragment :: string
  pu_hasUser :: bool

record http_env =
  send :: "http_trace \<Rightarrow> hop list \<Rightarrow> bool \<Rightarrow> request \<Rightarrow> response res"
  resolveURL :: "string \<Rightarrow> string \<Rightarrow> string res"
  refererForURL :: "string \<Rightarrow> string \<Rightarrow> string"
  shownURL :: "string \<Rightarrow> string"
  stripBodyHeaders :: bool
  newRequestErr :: "string \<Rightarrow> string \<Rightarrow> string option"
  parseURL :: "string \<Rightarrow> parsed_url res"
  escapeHost :: "string \<Rightarrow> string"
  parseJSON :: "string \<Rightarrow> json res"
  textJSON :: "json \<Rightarrow> string"
  typeErr :: "string \<Rightarrow> string"
  renderJSON :: "json \<Rightarrow> string res"
  quoteGo :: "string \<Rightarrow> string"
  lowerUnicode :: "string \<Rightarrow> string"

record Client =
  cl_baseURL :: string
  cl_site :: string
  cl_siteID :: string
  cl_apiBase :: string
  cl_apiKey :: string
  cl_skipTLSVerify :: bool

subsection \<open>Decoding\<close>

text \<open>
  Names fold as \<^verbatim>\<open>encoding/json\<close> folds them: ASCII letters by case, and the two other
  characters that fold to an ASCII letter, U+017F to s and U+212A to k.
\<close>

fun foldName :: "string \<Rightarrow> string" where
  "foldName (a # b # c # cs) =
     (if code a = 197 \<and> code b = 191 then CHR ''s'' # foldName (c # cs)
      else if code a = 226 \<and> code b = 132 \<and> code c = 170 then CHR ''k'' # foldName cs
      else lower_char a # foldName (b # c # cs))"
| "foldName [a, b] =
     (if code a = 197 \<and> code b = 191 then ''s'' else lower_char a # foldName [b])"
| "foldName [a] = [lower_char a]"
| "foldName [] = []"

definition members :: "string \<Rightarrow> (string \<times> json) list \<Rightarrow> json list" where
  "members name obj = map snd (filter (\<lambda>(k, v). foldName k = foldName name) obj)"

fun setString :: "http_env \<Rightarrow> string \<Rightarrow> json list \<Rightarrow> string \<Rightarrow> string res" where
  "setString H name [] s = Inr s"
| "setString H name (JStr t # vs) s = setString H name vs t"
| "setString H name (JNull # vs) s = setString H name vs s"
| "setString H name (_ # vs) s = Inl (typeErr H name)"

definition stringField :: "http_env \<Rightarrow> string \<Rightarrow> (string \<times> json) list \<Rightarrow> string res" where
  "stringField H name obj = setString H name (members name obj) []"

definition rawField :: "string \<Rightarrow> (string \<times> json) list \<Rightarrow> json option" where
  "rawField name obj = (case rev (members name obj) of [] \<Rightarrow> None | v # _ \<Rightarrow> Some v)"

fun scalarToString :: "http_env \<Rightarrow> json option \<Rightarrow> string res" where
  "scalarToString H None = Inr []"
| "scalarToString H (Some JNull) = Inr []"
| "scalarToString H (Some (JStr s)) = Inr s"
| "scalarToString H (Some (JNum n)) = Inr n"
| "scalarToString H (Some (JBool b)) = Inr (if b then ''true'' else ''false'')"
| "scalarToString H (Some v) = Inl (''unsupported scalar type: '' @ textJSON H v)"

text \<open>An object, or null, which leaves the struct with its zero values.\<close>

fun objectOf :: "http_env \<Rightarrow> json \<Rightarrow> (string \<times> json) list res" where
  "objectOf H (JObj obj) = Inr obj"
| "objectOf H JNull = Inr []"
| "objectOf H _ = Inl (typeErr H [])"

definition unmarshalItem :: "http_env \<Rightarrow> json \<Rightarrow> TrafficMatchItem res" where
  "unmarshalItem H v =
     (case objectOf H v of Inl err \<Rightarrow> Inl err | Inr obj \<Rightarrow>
     (case stringField H ''type'' obj of Inl err \<Rightarrow> Inl err | Inr ty \<Rightarrow>
     (case scalarToString H (rawField ''value'' obj) of
        Inl err \<Rightarrow> Inl (''decode item.value: '' @ err) | Inr val \<Rightarrow>
     (case scalarToString H (rawField ''start'' obj) of
        Inl err \<Rightarrow> Inl (''decode item.start: '' @ err) | Inr start \<Rightarrow>
     (case scalarToString H (rawField ''stop'' obj) of
        Inl err \<Rightarrow> Inl (''decode item.stop: '' @ err) | Inr stop \<Rightarrow>
        Inr \<lparr>it_type = ty, it_value = val, it_start = start, it_stop = stop\<rparr>)))))"

fun unmarshalAll :: "(json \<Rightarrow> 'a res) \<Rightarrow> json list \<Rightarrow> 'a list res" where
  "unmarshalAll f [] = Inr []"
| "unmarshalAll f (v # vs) =
     (case f v of Inl err \<Rightarrow> Inl err
      | Inr a \<Rightarrow> (case unmarshalAll f vs of Inl err \<Rightarrow> Inl err | Inr as \<Rightarrow> Inr (a # as)))"

fun unmarshalSlice :: "http_env \<Rightarrow> (json \<Rightarrow> 'a res) \<Rightarrow> json \<Rightarrow> 'a list res" where
  "unmarshalSlice H f (JArr vs) = unmarshalAll f vs"
| "unmarshalSlice H f JNull = Inr []"
| "unmarshalSlice H f _ = Inl (typeErr H [])"

definition unmarshalSite :: "http_env \<Rightarrow> json \<Rightarrow> Site res" where
  "unmarshalSite H v =
     (case objectOf H v of Inl err \<Rightarrow> Inl err | Inr obj \<Rightarrow>
     (case stringField H ''id'' obj of Inl err \<Rightarrow> Inl err | Inr i \<Rightarrow>
     (case stringField H ''internalReference'' obj of Inl err \<Rightarrow> Inl err | Inr ref \<Rightarrow>
     (case stringField H ''name'' obj of Inl err \<Rightarrow> Inl err | Inr name \<Rightarrow>
        Inr \<lparr>st_id = i, st_internalReference = ref, st_name = name\<rparr>))))"

definition unmarshalNetworkList :: "http_env \<Rightarrow> json \<Rightarrow> NetworkList res" where
  "unmarshalNetworkList H v =
     (case objectOf H v of Inl err \<Rightarrow> Inl err | Inr obj \<Rightarrow>
     (case stringField H ''type'' obj of Inl err \<Rightarrow> Inl err | Inr ty \<Rightarrow>
     (case stringField H ''id'' obj of Inl err \<Rightarrow> Inl err | Inr i \<Rightarrow>
     (case stringField H ''name'' obj of Inl err \<Rightarrow> Inl err | Inr name \<Rightarrow>
     (case unmarshalAll (unmarshalSlice H (unmarshalItem H)) (members ''items'' obj) of
        Inl err \<Rightarrow> Inl err
      | Inr decoded \<Rightarrow> Inr \<lparr>nl_type = ty, nl_id = i, nl_name = name,
          nl_items = (if decoded = [] then [] else last decoded)\<rparr>)))))"

text \<open>
  A paged response: its counters must be integers or null, and its data is kept for later.
  Data that is missing is an empty text, which no later decoding accepts.
\<close>

definition intJSON :: "json \<Rightarrow> bool" where
  "intJSON v \<longleftrightarrow> (case v of JNull \<Rightarrow> True
     | JNum n \<Rightarrow> (let ds = (if hasPrefix n ''-'' then tl n else n) in
         ds \<noteq> [] \<and> (\<forall>c \<in> set ds. is_digit c) \<and>
         (if hasPrefix n ''-'' then digits_val 0 ds \<le> 2 ^ 63 else digits_val 0 ds < 2 ^ 63))
     | _ \<Rightarrow> False)"

definition unmarshalPage :: "http_env \<Rightarrow> string \<Rightarrow> json option res" where
  "unmarshalPage H body =
     (case parseJSON H body of Inl err \<Rightarrow> Inl err | Inr v \<Rightarrow>
     (case objectOf H v of Inl err \<Rightarrow> Inl err | Inr obj \<Rightarrow>
        (case filter (\<lambda>name. \<not> (\<forall>w \<in> set (members name obj). intJSON w))
                [''offset'', ''limit'', ''count'', ''totalCount''] of
           name # _ \<Rightarrow> Inl (typeErr H name)
         | [] \<Rightarrow> Inr (rawField ''data'' obj))))"

definition unmarshalData :: "http_env \<Rightarrow> (json \<Rightarrow> 'a res) \<Rightarrow> json option \<Rightarrow> 'a list res" where
  "unmarshalData H f raw =
     (case raw of None \<Rightarrow> Inl ''unexpected end of JSON input'' | Some v \<Rightarrow> unmarshalSlice H f v)"

subsection \<open>Encoding\<close>

text \<open>The values that \<^verbatim>\<open>json.Marshal\<close> renders: fields in order, empty optional ones left out.\<close>

definition itemJSON :: "TrafficMatchItem \<Rightarrow> json" where
  "itemJSON it = JObj ((''type'', JStr (it_type it)) #
     filter (\<lambda>(k, v). v \<noteq> JStr [])
       [(''value'', JStr (it_value it)), (''start'', JStr (it_start it)), (''stop'', JStr (it_stop it))])"

definition updateJSON :: "networkListUpdate \<Rightarrow> json" where
  "updateJSON up = JObj [(''type'', JStr (up_type up)), (''name'', JStr (up_name up)),
     (''items'', JArr (map itemJSON (up_items up)))]"

definition marshalUpdate :: "http_env \<Rightarrow> networkListUpdate \<Rightarrow> string res" where
  "marshalUpdate H up = renderJSON H (updateJSON up)"

subsection \<open>Requests\<close>

text \<open>
  \<^verbatim>\<open>redirectBehavior\<close> of \<^verbatim>\<open>net/http\<close> (of Go 1.25, which \<^verbatim>\<open>go.mod\<close> names): the method of the next request and whether it has the body. A body
  can always be read again here, as it is a \<^verbatim>\<open>bytes.Reader\<close>.
\<close>

definition redirectBehavior :: "string \<Rightarrow> int \<Rightarrow> (string \<times> bool) option" where
  "redirectBehavior method status =
     (if status \<in> {301, 302, 303}
      then Some (if method \<noteq> ''GET'' \<and> method \<noteq> ''HEAD'' then ''GET'' else method, False)
      else if status \<in> {307, 308} then Some (method, True)
      else None)"

text \<open>
  The next request: the headers of the first one, which only drops those that
  \<^verbatim>\<open>net/http\<close> knows to be sensitive, so the API key stays; the newer versions
  also drop those of a body that is not sent.
\<close>

definition redirectRequest :: "http_env \<Rightarrow> request \<Rightarrow> request \<Rightarrow> string \<Rightarrow> string \<Rightarrow> bool \<Rightarrow> request" where
  "redirectRequest H ireq prev method url includeBody =
     \<lparr>rq_method = method, rq_url = url,
      rq_headers = filter (\<lambda>(k, v). \<not> (k = ''Content-Type'' \<and> \<not> includeBody \<and> stripBodyHeaders H)) (rq_headers ireq) @
        (let ref = refererForURL H (rq_url prev) url in if ref = [] then [] else [(''Referer'', ref)]),
      rq_body = (if includeBody then rq_body ireq else None)\<rparr>"

definition urlError :: "request \<Rightarrow> string \<Rightarrow> string \<Rightarrow> string" where
  "urlError ireq url err =
     (case rq_method ireq of [] \<Rightarrow> ''Get'' | c # cs \<Rightarrow> c # map lower_char cs) @ '' '' @ url @ '': '' @ err"

function clientDo :: "http_env \<Rightarrow> http_trace \<Rightarrow> bool \<Rightarrow> request \<Rightarrow> bool \<Rightarrow> request \<Rightarrow> hop list \<Rightarrow>
    response res \<times> hop list" where
  "clientDo H tr skip ireq includeBody req hops =
     (let result = send H tr hops skip req;
          hops = hops @ [\<lparr>hp_request = req, hp_result = result\<rparr>] in
      case result of
        Inl err \<Rightarrow> (Inl (urlError ireq (shownURL H (rq_url req)) err), hops)
      | Inr resp \<Rightarrow>
      case redirectBehavior (rq_method req) (rs_status resp) of
        None \<Rightarrow> (Inr resp, hops)
      | Some (redirectMethod, includeBodyOnHop) \<Rightarrow>
          if rs_location resp = [] then (Inr resp, hops)
          else case resolveURL H (rq_url req) (rs_location resp) of
            Inl err \<Rightarrow> (Inl (urlError ireq (shownURL H (rq_url req))
                (''failed to parse Location header '' @ quoteGo H (rs_location resp) @ '': '' @ err)), hops)
          | Inr url \<Rightarrow>
              if length hops \<ge> 10
              then (Inl (urlError ireq (quoteGo H (rs_location resp)) ''stopped after 10 redirects''), hops)
              else let includeBody = (includeBody \<and> includeBodyOnHop) in
                clientDo H tr skip ireq includeBody
                  (redirectRequest H ireq req redirectMethod url includeBody) hops)"
  by pat_completeness auto
termination
  by (relation "measure (\<lambda>(H, tr, skip, ireq, includeBody, req, hops). 10 - length hops)") auto

declare clientDo.simps [simp del]

definition snippet :: "string \<Rightarrow> string" where
  "snippet body = (if length body > 200 then take 200 body @ ''...'' else body)"

definition doRequest :: "http_env \<Rightarrow> Client \<Rightarrow> string \<Rightarrow> string \<Rightarrow> string option \<Rightarrow> http_trace \<Rightarrow>
    string res \<times> http_trace" where
  "doRequest H c method path body tr =
     (if \<not> hasPrefix path ''/'' then (Inl (''request path must start with '' @ [CHR 0x27, CHR ''/'', CHR 0x27]), tr)
      else if contains path ''://'' then (Inl ''request path must not contain a URL scheme'', tr)
      else case newRequestErr H method (cl_baseURL c @ path) of Some err \<Rightarrow> (Inl err, tr)
      | None \<Rightarrow>
        let req = \<lparr>rq_method = method, rq_url = cl_baseURL c @ path,
              rq_headers = [(''X-API-Key'', cl_apiKey c), (''Accept'', ''application/json'')] @
                (if body \<noteq> None then [(''Content-Type'', ''application/json'')] else []),
              rq_body = body\<rparr> in
        (case clientDo H tr (cl_skipTLSVerify c) req True req [] of (result, hops) \<Rightarrow>
         let tr = tr @ [\<lparr>he_skipTLSVerify = cl_skipTLSVerify c, he_request = req, he_hops = hops, he_result = result\<rparr>] in
         case result of Inl err \<Rightarrow> (Inl err, tr)
         | Inr resp \<Rightarrow>
           (case rs_body resp of Inl err \<Rightarrow> (Inl (''read body: '' @ err), tr)
            | Inr respBody \<Rightarrow>
              if rs_status resp < 200 \<or> rs_status resp \<ge> 300
              then (Inl (''HTTP '' @ itoa_int (rs_status resp) @ '': '' @ snippet respBody), tr)
              else if hasPrefix (rs_contentType resp) ''text/html'' \<or> hasPrefix respBody ''<''
              then (Inl (''controller returned HTML instead of JSON (check URL and API key): ''
                      @ snippet respBody), tr)
              else (Inr respBody, tr))))"

subsection \<open>Construction\<close>

definition trimSlashes :: "string \<Rightarrow> string" where
  "trimSlashes s = rev (dropWhile (\<lambda>c. c = CHR ''/'') (rev (dropWhile (\<lambda>c. c = CHR ''/'') s)))"

definition normalizeControllerBaseURL :: "http_env \<Rightarrow> string \<Rightarrow> string res" where
  "normalizeControllerBaseURL H raw =
     (case parseURL H (trimSpace raw) of
        Inl err \<Rightarrow> Inl (''invalid controller URL: '' @ err)
      | Inr parsed \<Rightarrow>
          if pu_scheme parsed \<noteq> ''https'' \<and> pu_scheme parsed \<noteq> ''http''
          then Inl ''controller URL must use http or https''
          else if pu_host parsed = [] then Inl ''controller URL must include a host''
          else if pu_hasUser parsed then Inl ''controller URL must not include credentials''
          else if pu_rawQuery parsed \<noteq> [] \<or> pu_fragment parsed \<noteq> []
          then Inl ''controller URL must not include query or fragment''
          else if pu_path parsed \<noteq> [] \<and> trimSlashes (pu_path parsed) \<noteq> []
          then Inl ''controller URL must be the controller origin only (no path)''
          else Inr (toLower (lowerUnicode H) (pu_scheme parsed) @ ''://'' @
                 escapeHost H (toLower (lowerUnicode H) (pu_host parsed))))"

definition newClient :: "http_env \<Rightarrow> string \<Rightarrow> string \<Rightarrow> string \<Rightarrow> bool \<Rightarrow> Client res" where
  "newClient H baseURL site apiKey skipTLSVerify =
     (if apiKey = [] then Inl ''API key is required''
      else case normalizeControllerBaseURL H baseURL of
        Inl err \<Rightarrow> Inl err
      | Inr url \<Rightarrow> Inr \<lparr>cl_baseURL = url, cl_site = site, cl_siteID = [], cl_apiBase = [],
                        cl_apiKey = apiKey, cl_skipTLSVerify = skipTLSVerify\<rparr>)"

subsection \<open>Discovery\<close>

definition apiCandidates :: "string list" where
  "apiCandidates = [''/proxy/network/integration/v1'', ''/integration/v1'']"

fun probeBases :: "http_env \<Rightarrow> Client \<Rightarrow> string list \<Rightarrow> http_trace \<Rightarrow> string option \<times> http_trace" where
  "probeBases H c [] tr = (None, tr)"
| "probeBases H c (base # bases) tr =
     (case doRequest H c ''GET'' (base @ ''/sites?limit=1'') None tr of
        (Inl _, tr') \<Rightarrow> probeBases H c bases tr'
      | (Inr body, tr') \<Rightarrow>
          (case unmarshalPage H body of
             Inr _ \<Rightarrow> (Some base, tr')
           | Inl _ \<Rightarrow> probeBases H c bases tr'))"

definition emDash :: string where
  "emDash = [CHR 0xE2, CHR 0x80, CHR 0x94]"

definition detectAPIBase :: "http_env \<Rightarrow> Client \<Rightarrow> http_trace \<Rightarrow> (string res \<times> Client) \<times> http_trace" where
  "detectAPIBase H c tr =
     (if cl_apiBase c \<noteq> [] then ((Inr (cl_apiBase c), c), tr)
      else case probeBases H c apiCandidates tr of
        (Some base, tr') \<Rightarrow> ((Inr base, c\<lparr>cl_apiBase := base\<rparr>), tr')
      | (None, tr') \<Rightarrow>
          ((Inl (''could not reach integration API at '' @ cl_baseURL c @ '' '' @ emDash @
             '' tried /proxy/network/integration/v1 and /integration/v1; check URL and API key''), c), tr'))"

definition looksLikeUUID :: "string \<Rightarrow> bool" where
  "looksLikeUUID site \<longleftrightarrow> length site = 36 \<and> length (filter (\<lambda>c. c = CHR ''-'') site) = 4"

definition matchesSite :: "string \<Rightarrow> Site \<Rightarrow> bool" where
  "matchesSite site s \<longleftrightarrow> st_internalReference s = site \<or> st_name s = site \<or> st_id s = site"

definition resolveSiteID :: "http_env \<Rightarrow> Client \<Rightarrow> http_trace \<Rightarrow> (string res \<times> Client) \<times> http_trace" where
  "resolveSiteID H c tr =
     (if cl_siteID c \<noteq> [] then ((Inr (cl_siteID c), c), tr)
      else if looksLikeUUID (cl_site c) then
        (case detectAPIBase H c tr of
           ((Inl err, c), tr) \<Rightarrow> ((Inl err, c), tr)
         | ((Inr _, c), tr) \<Rightarrow> ((Inr (cl_site c), c\<lparr>cl_siteID := cl_site c\<rparr>), tr))
      else
        (case detectAPIBase H c tr of
           ((Inl err, c), tr) \<Rightarrow> ((Inl err, c), tr)
         | ((Inr apiBase, c), tr) \<Rightarrow>
        (case doRequest H c ''GET'' (apiBase @ ''/sites?limit=200'') None tr of
           (Inl err, tr) \<Rightarrow> ((Inl (''list sites: '' @ err), c), tr)
         | (Inr body, tr) \<Rightarrow>
        (case unmarshalPage H body of
           Inl err \<Rightarrow> ((Inl (''decode sites response: '' @ err), c), tr)
         | Inr raw \<Rightarrow>
        (case unmarshalData H (unmarshalSite H) raw of
           Inl err \<Rightarrow> ((Inl (''decode sites: '' @ err), c), tr)
         | Inr sites \<Rightarrow>
        (case filter (matchesSite (cl_site c)) sites of
           s # _ \<Rightarrow> ((Inr (st_id s), c\<lparr>cl_siteID := st_id s\<rparr>), tr)
         | [] \<Rightarrow> ((Inl (''site '' @ quoteGo H (cl_site c) @ '' not found (available: '' @
                   itoa (length sites) @ '' sites)''), c), tr)))))))"

subsection \<open>Lists\<close>

text \<open>Data that is null leaves the slice nil, which is the value None.\<close>

definition listNetworkLists ::
    "http_env \<Rightarrow> Client \<Rightarrow> http_trace \<Rightarrow> (NetworkList list option res \<times> Client) \<times> http_trace" where
  "listNetworkLists H c tr =
     (case resolveSiteID H c tr of
        ((Inl err, c), tr) \<Rightarrow> ((Inl err, c), tr)
      | ((Inr siteID, c), tr) \<Rightarrow>
     (case doRequest H c ''GET''
             (cl_apiBase c @ ''/sites/'' @ siteID @ ''/traffic-matching-lists?limit=200'') None tr of
        (Inl err, tr) \<Rightarrow> ((Inl err, c), tr)
      | (Inr body, tr) \<Rightarrow>
     (case unmarshalPage H body of
        Inl err \<Rightarrow> ((Inl (''decode traffic matching lists response: '' @ err), c), tr)
      | Inr raw \<Rightarrow>
     (case unmarshalData H (unmarshalNetworkList H) raw of
        Inl err \<Rightarrow> ((Inl (''decode traffic matching lists: '' @ err), c), tr)
      | Inr nls \<Rightarrow> ((Inr (if raw = Some JNull then None else Some nls), c), tr)))))"

definition listPath :: "Client \<Rightarrow> string \<Rightarrow> string \<Rightarrow> string" where
  "listPath c siteID listID =
     cl_apiBase c @ ''/sites/'' @ siteID @ ''/traffic-matching-lists/'' @ listID"

definition getNetworkList ::
    "http_env \<Rightarrow> Client \<Rightarrow> string \<Rightarrow> http_trace \<Rightarrow> (NetworkList res \<times> Client) \<times> http_trace" where
  "getNetworkList H c listID tr =
     (case resolveSiteID H c tr of
        ((Inl err, c), tr) \<Rightarrow> ((Inl err, c), tr)
      | ((Inr siteID, c), tr) \<Rightarrow>
     (case doRequest H c ''GET'' (listPath c siteID listID) None tr of
        (Inl err, tr) \<Rightarrow> ((Inl err, c), tr)
      | (Inr body, tr) \<Rightarrow>
     (case (case parseJSON H body of Inl err \<Rightarrow> Inl err | Inr v \<Rightarrow> unmarshalNetworkList H v) of
        Inl err \<Rightarrow> ((Inl (''decode traffic matching list: '' @ err), c), tr)
      | Inr nl \<Rightarrow> ((Inr nl, c), tr))))"

definition updateNetworkList ::
    "http_env \<Rightarrow> Client \<Rightarrow> NetworkList \<Rightarrow> http_trace \<Rightarrow> (unit res \<times> Client) \<times> http_trace" where
  "updateNetworkList H c nl tr =
     (case resolveSiteID H c tr of
        ((Inl err, c), tr) \<Rightarrow> ((Inl err, c), tr)
      | ((Inr siteID, c), tr) \<Rightarrow>
     (case marshalUpdate H \<lparr>up_type = nl_type nl, up_name = nl_name nl, up_items = nl_items nl\<rparr> of
        Inl err \<Rightarrow> ((Inl (''encode traffic matching list: '' @ err), c), tr)
      | Inr payload \<Rightarrow>
     (case doRequest H c ''PUT'' (listPath c siteID (nl_id nl)) (Some payload) tr of
        (Inl err, tr) \<Rightarrow> ((Inl err, c), tr)
      | (Inr _, tr) \<Rightarrow> ((Inr (), c), tr))))"

end
