(* ===== verification/Unifi_Props.thy ===== *)
theory Unifi_Props
  imports Unifi_Client
begin

text \<open>
  The properties of the controller client: which requests its operations make, what they carry,
  that discovery is done once, what a list item decodes to, and which controller URLs are accepted.
\<close>

subsection \<open>Requests\<close>

text \<open>The request that \<open>doRequest\<close> makes, and reads: GET requests with the client's key.\<close>

definition mkRequest :: "Client \<Rightarrow> string \<Rightarrow> string \<Rightarrow> string option \<Rightarrow> request" where
  "mkRequest c method path body =
     \<lparr>rq_method = method, rq_url = cl_baseURL c @ path,
      rq_headers = [(''X-API-Key'', cl_apiKey c), (''Accept'', ''application/json'')] @
        (if body \<noteq> None then [(''Content-Type'', ''application/json'')] else []),
      rq_body = body\<rparr>"

definition request_by :: "Client \<Rightarrow> string \<Rightarrow> string \<Rightarrow> string option \<Rightarrow> http_ev \<Rightarrow> bool" where
  "request_by c method path body e \<longleftrightarrow>
     he_skipTLSVerify e = cl_skipTLSVerify c \<and> he_request e = mkRequest c method path body"

text \<open>
  One call of \<^verbatim>\<open>Do\<close>: it makes between one and ten requests, the first as it was told and each further
  one where the answer before it redirected, all with the client's key, and returns the last answer
  when it returns an answer. A redirect tells the next method, and whether the body is sent again.
\<close>

definition follows_hop :: "http_env \<Rightarrow> hop \<Rightarrow> hop \<Rightarrow> bool" where
  "follows_hop H h h' \<longleftrightarrow> (\<exists>resp keep. hp_result h = Inr resp \<and> rs_location resp \<noteq> [] \<and>
     redirectBehavior (rq_method (hp_request h)) (rs_status resp) = Some (rq_method (hp_request h'), keep) \<and>
     resolveURL H (rq_url (hp_request h)) (rs_location resp) = Inr (rq_url (hp_request h')) \<and>
     rq_body (hp_request h') = (if keep then rq_body (hp_request h) else None))"

definition carries_key :: "string \<Rightarrow> request \<Rightarrow> bool" where
  "carries_key key req \<longleftrightarrow> (''X-API-Key'', key) \<in> set (rq_headers req)"

definition sent_by :: "http_env \<Rightarrow> string \<Rightarrow> bool \<Rightarrow> hop \<Rightarrow> bool" where
  "sent_by H key skip h \<longleftrightarrow> carries_key key (hp_request h) \<and>
     (\<exists>tr hops. hp_result h = send H tr hops skip (hp_request h))"

definition call :: "http_env \<Rightarrow> Client \<Rightarrow> http_ev \<Rightarrow> bool" where
  "call H c e \<longleftrightarrow> he_hops e \<noteq> [] \<and> length (he_hops e) \<le> 10 \<and>
     hp_request (hd (he_hops e)) = he_request e \<and> successively (follows_hop H) (he_hops e) \<and>
     (\<forall>h \<in> set (he_hops e). sent_by H (cl_apiKey c) (cl_skipTLSVerify c) h) \<and>
     (\<forall>resp. he_result e = Inr resp \<longrightarrow> hp_result (last (he_hops e)) = Inr resp)"

definition bare_get :: "hop \<Rightarrow> bool" where
  "bare_get h \<longleftrightarrow> rq_method (hp_request h) = ''GET'' \<and> rq_body (hp_request h) = None"

definition is_read :: "http_env \<Rightarrow> Client \<Rightarrow> http_ev \<Rightarrow> bool" where
  "is_read H c e \<longleftrightarrow> (\<exists>path. hasPrefix path ''/'' \<and> request_by c ''GET'' path None e) \<and> call H c e \<and>
     (\<forall>h \<in> set (he_hops e). bare_get h)"

definition accepted :: "http_ev \<Rightarrow> bool" where
  "accepted e \<longleftrightarrow> (\<exists>resp. he_result e = Inr resp \<and> 200 \<le> rs_status resp \<and> rs_status resp < 300)"

text \<open>
  The requests that a PUT leads to: the PUT, repeated where an answer redirects it as it is, and then
  GETs without a body, if one of the answers was a 301, 302 or 303.
\<close>

definition put_hops :: "string \<Rightarrow> hop list \<Rightarrow> bool" where
  "put_hops payload hops \<longleftrightarrow> (\<exists>puts gets. hops = puts @ gets \<and> puts \<noteq> [] \<and>
     (\<forall>h \<in> set puts. rq_method (hp_request h) = ''PUT'' \<and> rq_body (hp_request h) = Some payload) \<and>
     (\<forall>h \<in> set gets. bare_get h) \<and>
     (gets \<noteq> [] \<longrightarrow> (\<exists>resp. hp_result (last puts) = Inr resp \<and> rs_status resp \<in> {301, 302, 303})))"

definition same_client :: "Client \<Rightarrow> Client \<Rightarrow> bool" where
  "same_client c c' \<longleftrightarrow> cl_baseURL c' = cl_baseURL c \<and> cl_site c' = cl_site c \<and>
     cl_apiKey c' = cl_apiKey c \<and> cl_skipTLSVerify c' = cl_skipTLSVerify c"

lemma same_client_refl [simp]: "same_client c c"
  by (simp add: same_client_def)

lemma same_client_trans: "same_client a b \<Longrightarrow> same_client b c \<Longrightarrow> same_client a c"
  by (simp add: same_client_def)

lemma request_by_same: "same_client c c' \<Longrightarrow> request_by c' m p b = request_by c m p b"
  by (simp add: same_client_def request_by_def mkRequest_def fun_eq_iff)

lemma call_same: "same_client c c' \<Longrightarrow> call H c' = call H c"
  by (simp add: same_client_def call_def fun_eq_iff)

lemma is_read_same: "same_client c c' \<Longrightarrow> is_read H c' = is_read H c"
  by (simp add: is_read_def request_by_same call_same fun_eq_iff)

text \<open>One step of the loop of \<^verbatim>\<open>Do\<close>: it returns with this request the last, or it follows a redirect.\<close>

lemma clientDo_step:
  assumes "clientDo H tr skip ireq ib req hops = (r, hops')"
  obtains "hops' = hops @ [\<lparr>hp_request = req, hp_result = send H tr hops skip req\<rparr>]"
      "\<forall>resp. r = Inr resp \<longrightarrow> send H tr hops skip req = Inr resp"
  | resp m keep url where "send H tr hops skip req = Inr resp" "length hops < 9" "rs_location resp \<noteq> []"
      "redirectBehavior (rq_method req) (rs_status resp) = Some (m, keep)"
      "resolveURL H (rq_url req) (rs_location resp) = Inr url"
      "clientDo H tr skip ireq (ib \<and> keep) (redirectRequest H ireq req m url (ib \<and> keep))
         (hops @ [\<lparr>hp_request = req, hp_result = Inr resp\<rparr>]) = (r, hops')"
proof (cases "send H tr hops skip req")
  case (Inl err)
  then show thesis using assms by (intro that(1)) (auto simp: clientDo.simps [of H tr skip ireq ib req])
next
  case resp: (Inr resp)
  note stop = that(1)
  note run = assms [unfolded clientDo.simps [of H tr skip ireq ib req] Let_def resp sum.case]
  have stays: thesis if "hops' = hops @ [\<lparr>hp_request = req, hp_result = Inr resp\<rparr>]" "\<forall>a. r = Inr a \<longrightarrow> a = resp"
    using that resp by (intro stop) auto
  show thesis
  proof (cases "redirectBehavior (rq_method req) (rs_status resp)")
    case None
    then show thesis using run by (intro stays) auto
  next
    case (Some mk)
    obtain m keep where mk: "mk = (m, keep)" by fastforce
    note run = run [unfolded Some mk option.case prod.case]
    show thesis
    proof (cases "rs_location resp = [] \<or> (\<exists>err. resolveURL H (rq_url req) (rs_location resp) = Inl err) \<or> length hops \<ge> 9")
      case True
      then show thesis using run by (intro stays) (auto split: if_splits sum.splits)
    next
      case False
      then obtain url where url: "resolveURL H (rq_url req) (rs_location resp) = Inr url" by (metis sumE)
      show thesis
        by (rule that(2) [OF resp _ _ _ url]) (use False url run Some mk in auto)
    qed
  qed
qed

lemma carries_redirect: "carries_key key ireq \<Longrightarrow> carries_key key (redirectRequest H ireq req m url ib)"
  by (simp add: carries_key_def redirectRequest_def)

lemma redirectRequest_fields [simp]:
  "rq_method (redirectRequest H ireq req m url ib) = m" "rq_url (redirectRequest H ireq req m url ib) = url"
  "rq_body (redirectRequest H ireq req m url ib) = (if ib then rq_body ireq else None)"
  by (simp_all add: redirectRequest_def)

lemma clientDo_hops:
  assumes "clientDo H tr skip ireq ib req hops = (r, hops')" and "length hops \<le> 9"
    and "rq_body req = (if ib then rq_body ireq else None)" and "carries_key key ireq" and "carries_key key req"
  shows "\<exists>new. hops' = hops @ new \<and> new \<noteq> [] \<and> length hops' \<le> 10 \<and> hp_request (hd new) = req \<and>
    successively (follows_hop H) new \<and> (\<forall>h \<in> set new. sent_by H key skip h) \<and>
    (\<forall>resp. r = Inr resp \<longrightarrow> hp_result (last new) = Inr resp)"
  using assms
proof (induction "9 - length hops" arbitrary: ib req hops rule: less_induct)
  case less
  from less.prems(1) show ?case
  proof (cases rule: clientDo_step)
    case 1
    then show ?thesis using less.prems by (auto simp: sent_by_def)
  next
    case (2 resp m keep url)
    let ?h = "\<lparr>hp_request = req, hp_result = Inr resp\<rparr>"
    let ?next = "redirectRequest H ireq req m url (ib \<and> keep)"
    have "9 - length (hops @ [?h]) < 9 - length hops" using 2(2) by simp
    from less.hyps [OF this 2(6)] 2(2) less.prems obtain new where
      n: "hops' = (hops @ [?h]) @ new" "new \<noteq> []" "length hops' \<le> 10" "hp_request (hd new) = ?next"
        "successively (follows_hop H) new" "\<forall>h \<in> set new. sent_by H key skip h"
        "\<forall>resp. r = Inr resp \<longrightarrow> hp_result (last new) = Inr resp"
      using carries_redirect [of key ireq H req m url "ib \<and> keep"] by auto
    have "follows_hop H ?h (hd new)" using 2 n(4) less.prems(3) by (simp add: follows_hop_def)
    moreover have "sent_by H key skip ?h" using 2(1) less.prems(5) unfolding sent_by_def by (metis hop.select_convs)
    ultimately show ?thesis using n less.prems
      by (intro exI [of _ "?h # new"]) (auto simp: successively_Cons)
  qed
qed

lemma hops_of_get:
  "successively (follows_hop H) hops \<Longrightarrow> hops \<noteq> [] \<Longrightarrow> bare_get (hd hops) \<Longrightarrow> \<forall>h \<in> set hops. bare_get h"
proof (induction hops)
  case (Cons h hops)
  show ?case
  proof (cases hops)
    case (Cons h' hops')
    then have "follows_hop H h h'" using Cons.prems by (simp add: successively_Cons)
    then have "bare_get h'" using Cons.prems(3)
      by (auto simp: follows_hop_def bare_get_def redirectBehavior_def split: if_splits)
    then show ?thesis using Cons.IH Cons.prems Cons by (simp add: successively_Cons)
  qed (use Cons.prems in simp)
qed simp

lemma hops_of_put:
  assumes "successively (follows_hop H) hops" and "hops \<noteq> []"
    and "rq_method (hp_request (hd hops)) = ''PUT''" and "rq_body (hp_request (hd hops)) = Some payload"
  shows "put_hops payload hops"
  using assms
proof (induction hops)
  case (Cons h hops)
  let ?put = "\<lambda>h. rq_method (hp_request h) = ''PUT'' \<and> rq_body (hp_request h) = Some payload"
  show ?case
  proof (cases hops)
    case Nil
    with Cons.prems show ?thesis unfolding put_hops_def
      by (intro exI [of _ "[h]"] exI [of _ "[]"]) simp
  next
    case (Cons h' hops')
    then have s: "follows_hop H h h'" "successively (follows_hop H) hops" using Cons.prems
      by (simp_all add: successively_Cons)
    then obtain resp keep where r: "hp_result h = Inr resp"
      "redirectBehavior ''PUT'' (rs_status resp) = Some (rq_method (hp_request h'), keep)"
      "rq_body (hp_request h') = (if keep then Some payload else None)"
      using Cons.prems by (auto simp: follows_hop_def)
    show ?thesis
    proof (cases "rs_status resp \<in> {301, 302, 303}")
      case True
      then have "bare_get h'" using r by (auto simp: redirectBehavior_def bare_get_def)
      then have "\<forall>g \<in> set hops. bare_get g" using hops_of_get [OF s(2)] Cons by simp
      with True r(1) Cons.prems show ?thesis unfolding put_hops_def
        by (intro exI [of _ "[h]"] exI [of _ hops]) simp
    next
      case False
      then have "?put h'" using r by (simp add: redirectBehavior_def split: if_splits)
      then have "put_hops payload hops" using Cons.IH s(2) Cons by simp
      then obtain puts gets where "hops = puts @ gets" "puts \<noteq> []" "\<forall>g \<in> set puts. ?put g"
        "\<forall>g \<in> set gets. bare_get g"
        "gets \<noteq> [] \<longrightarrow> (\<exists>resp. hp_result (last puts) = Inr resp \<and> rs_status resp \<in> {301, 302, 303})"
        unfolding put_hops_def by blast
      with Cons.prems show ?thesis unfolding put_hops_def
        by (intro exI [of _ "h # puts"] exI [of _ gets]) simp
    qed
  qed
qed simp

lemma doRequest_trace:
  assumes "doRequest H c m p b tr = (r, tr')"
  obtains "tr' = tr" "\<exists>e. r = Inl e"
  | e where "tr' = tr @ [e]" "request_by c m p b e" "hasPrefix p ''/''" "call H c e"
      "\<forall>body. r = Inr body \<longrightarrow> (\<exists>resp. he_result e = Inr resp \<and> rs_body resp = Inr body \<and>
        200 \<le> rs_status resp \<and> rs_status resp < 300)"
proof -
  let ?req = "mkRequest c m p b"
  obtain res hops where d: "clientDo H tr (cl_skipTLSVerify c) ?req True ?req [] = (res, hops)" by fastforce
  have "carries_key (cl_apiKey c) ?req" by (simp add: carries_key_def mkRequest_def)
  with clientDo_hops [OF d] have call: "call H c \<lparr>he_skipTLSVerify = cl_skipTLSVerify c,
      he_request = ?req, he_hops = hops, he_result = res\<rparr>"
    by (auto simp: call_def)
  note run = assms [unfolded doRequest_def mkRequest_def [symmetric] Let_def d prod.case]
  show thesis
  proof (cases "hasPrefix p ''/'' \<and> \<not> contains p ''://'' \<and> newRequestErr H m (cl_baseURL c @ p) = None")
    case True
    show thesis
      by (rule that(2) [OF _ _ _ call])
        (use True run in \<open>auto simp: request_by_def split: if_splits sum.splits\<close>)
  next
    case False
    then show thesis using run by (intro that(1)) (auto split: if_splits option.splits)
  qed
qed

text \<open>A step that only reads: it appends at most \<open>n\<close> reads and keeps the client's settings.\<close>

definition reads :: "http_env \<Rightarrow> nat \<Rightarrow> Client \<Rightarrow> http_trace \<Rightarrow> Client \<Rightarrow> http_trace \<Rightarrow> bool" where
  "reads H n c tr c' tr' \<longleftrightarrow>
     same_client c c' \<and> (\<exists>evs. tr' = tr @ evs \<and> length evs \<le> n \<and> (\<forall>e \<in> set evs. is_read H c e))"

lemma reads_refl [simp]: "reads H n c tr c tr"
  by (simp add: reads_def)

lemma reads_trans: "reads H m c tr c1 tr1 \<Longrightarrow> reads H n c1 tr1 c2 tr2 \<Longrightarrow> reads H (m + n) c tr c2 tr2"
  unfolding reads_def
  by (auto simp: is_read_same intro: same_client_trans add_mono)

lemma reads_mono: "reads H m c tr c' tr' \<Longrightarrow> m \<le> n \<Longrightarrow> reads H n c tr c' tr'"
  by (auto simp: reads_def)

lemma doRequest_reads: "doRequest H c ''GET'' p None tr = (r, tr') \<Longrightarrow> reads H 1 c tr c tr'"
proof (erule doRequest_trace)
  fix e
  assume e: "tr' = tr @ [e]" "request_by c ''GET'' p None e" "hasPrefix p ''/''" "call H c e"
  have "bare_get (hd (he_hops e))" using e(2,4) by (auto simp: call_def request_by_def mkRequest_def bare_get_def)
  then have "\<forall>h \<in> set (he_hops e). bare_get h" using e(4) hops_of_get unfolding call_def by blast
  with e show "reads H 1 c tr c tr'" by (auto simp: reads_def is_read_def)
qed simp

lemma probeBases_reads: "probeBases H c bases tr = (r, tr') \<Longrightarrow> reads H (length bases) c tr c tr'"
proof (induction bases arbitrary: tr)
  case (Cons base bases)
  obtain b tr1 where d: "doRequest H c ''GET'' (base @ ''/sites?limit=1'') None tr = (b, tr1)" by fastforce
  note one = doRequest_reads [OF d]
  have "tr1 = tr' \<or> probeBases H c bases tr1 = (r, tr')"
    using Cons.prems d by (auto split: sum.splits)
  then have "reads H (length bases) c tr1 c tr'" using Cons.IH by auto
  from reads_trans [OF one this] show ?case by simp
qed simp

lemma probeBases_in: "probeBases H c bases tr = (Some base, tr') \<Longrightarrow> base \<in> set bases"
  by (induction bases arbitrary: tr) (auto split: prod.splits sum.splits)

lemma detectAPIBase_reads:
  assumes "detectAPIBase H c tr = ((r, c'), tr')"
  shows "reads H 2 c tr c' tr'"
proof (cases "cl_apiBase c \<noteq> []")
  case False
  obtain b tr1 where p: "probeBases H c apiCandidates tr = (b, tr1)" by fastforce
  from probeBases_reads [OF p] have "reads H 2 c tr c tr1" by (simp add: apiCandidates_def numeral_2_eq_2)
  then show ?thesis
    using assms False p by (auto simp: detectAPIBase_def reads_def same_client_def split: option.splits)
qed (use assms in \<open>simp add: detectAPIBase_def\<close>)

lemma detectAPIBase_base:
  "detectAPIBase H c tr = ((Inr base, c'), tr') \<Longrightarrow> cl_apiBase c' = base \<and> base \<noteq> []"
  by (auto simp: detectAPIBase_def dest!: probeBases_in split: if_splits prod.splits option.splits)
    (simp add: apiCandidates_def)

lemma resolveSiteID_reads:
  assumes "resolveSiteID H c tr = ((r, c'), tr')"
  shows "reads H 3 c tr c' tr'"
proof (cases "cl_siteID c \<noteq> []")
  case False
  obtain b c1 tr1 where d: "detectAPIBase H c tr = ((b, c1), tr1)" by (metis prod.exhaust)
  note two = detectAPIBase_reads [OF d]
  show ?thesis
  proof (cases "looksLikeUUID (cl_site c) \<or> (\<exists>e. b = Inl e)")
    case True
    with assms False d have "tr' = tr1" "same_client c1 c'"
      by (auto simp: resolveSiteID_def same_client_def split: sum.splits if_splits)
    with two show ?thesis by (auto simp: reads_def intro: same_client_trans)
  next
    case no: False
    then obtain base where b: "b = Inr base" by (cases b) auto
    obtain o1 tr2 where q: "doRequest H c1 ''GET'' (base @ ''/sites?limit=200'') None tr1 = (o1, tr2)"
      by fastforce
    from reads_trans [OF two doRequest_reads [OF q]] have t: "reads H 3 c tr c1 tr2" by simp
    have "tr' = tr2" "same_client c1 c'"
      using assms False d no b q
      by (auto simp: resolveSiteID_def same_client_def split: sum.splits list.splits)
    with t show ?thesis by (auto simp: reads_def intro: same_client_trans)
  qed
qed (use assms in \<open>simp add: resolveSiteID_def\<close>)

text \<open>After it succeeded, the next resolution answers from the client alone.\<close>

lemma resolveSiteID_cached:
  assumes "resolveSiteID H c tr = ((Inr sid, c'), tr')" and "sid \<noteq> []"
  shows "cl_siteID c' = sid \<and> resolveSiteID H c' tr'' = ((Inr sid, c'), tr'')"
proof -
  have "cl_siteID c' = sid"
    using assms(1)
    by (auto simp: resolveSiteID_def split: if_splits prod.splits sum.splits list.splits)
  with assms(2) show ?thesis by (simp add: resolveSiteID_def)
qed

lemma getNetworkList_contract:
  "(let ((r, c'), tr') = getNetworkList H c listID tr in reads H 4 c tr c' tr') \<and>
   (let ((r, c'), tr') = listNetworkLists H c tr in reads H 4 c tr c' tr')"
proof
  obtain o1 c1 tr1 where s: "resolveSiteID H c tr = ((o1, c1), tr1)" by (metis prod.exhaust)
  note three = resolveSiteID_reads [OF s]
  then have four: "reads H 4 c tr c1 tr1" by (rule reads_mono) simp
  have one: "doRequest H c1 ''GET'' p None tr1 = (r, tr2) \<Longrightarrow> reads H 4 c tr c1 tr2" for p r tr2
    using reads_trans [OF three doRequest_reads] by fastforce
  show "let ((r, c'), tr') = getNetworkList H c listID tr in reads H 4 c tr c' tr'"
    using s four by (auto simp: getNetworkList_def dest: one split: prod.splits sum.splits)
  show "let ((r, c'), tr') = listNetworkLists H c tr in reads H 4 c tr c' tr'"
    using s four by (auto simp: listNetworkLists_def dest: one split: prod.splits sum.splits)
qed

lemma updateNetworkList_contract:
  assumes "updateNetworkList H c nl tr = ((r, c'), tr')"
  shows "\<exists>tr1. reads H 3 c tr c' tr1 \<and>
    (tr' = tr1 \<and> (\<exists>err. r = Inl err) \<or>
     (\<exists>payload sid e. tr' = tr1 @ [e] \<and>
        marshalUpdate H \<lparr>up_type = nl_type nl, up_name = nl_name nl, up_items = nl_items nl\<rparr> = Inr payload \<and>
        request_by c ''PUT'' (listPath c' sid (nl_id nl)) (Some payload) e \<and>
        call H c e \<and> put_hops payload (he_hops e) \<and> (r = Inr () \<longrightarrow> accepted e)))"
proof -
  obtain o1 c1 tr1 where s: "resolveSiteID H c tr = ((o1, c1), tr1)" by (metis prod.exhaust)
  note three = resolveSiteID_reads [OF s]
  show ?thesis
  proof (cases "(\<exists>e. o1 = Inl e) \<or> (\<exists>e. marshalUpdate H
      \<lparr>up_type = nl_type nl, up_name = nl_name nl, up_items = nl_items nl\<rparr> = Inl e)")
    case True
    with assms s have "tr' = tr1" "c' = c1" "\<exists>err. r = Inl err"
      by (auto simp: updateNetworkList_def split: sum.splits prod.splits)
    with three show ?thesis by blast
  next
    case False
    then obtain sid payload where o1: "o1 = Inr sid" and
      p: "marshalUpdate H \<lparr>up_type = nl_type nl, up_name = nl_name nl, up_items = nl_items nl\<rparr> = Inr payload"
      by (metis sumE)
    obtain o2 tr2 where d: "doRequest H c1 ''PUT'' (listPath c1 sid (nl_id nl)) (Some payload) tr1 = (o2, tr2)"
      by fastforce
    have c': "c' = c1" "tr' = tr2" "r = Inr () \<Longrightarrow> \<exists>body. o2 = Inr body" "\<exists>e. o2 = Inl e \<Longrightarrow> \<exists>e. r = Inl e"
      using assms s o1 p d by (auto simp: updateNetworkList_def split: sum.splits)
    have sc: "same_client c c1" using three by (simp add: reads_def)
    from d show ?thesis
    proof (rule doRequest_trace)
      assume "tr2 = tr1" "\<exists>e. o2 = Inl e"
      with three c' show ?thesis by blast
    next
      fix e
      assume e: "tr2 = tr1 @ [e]" "request_by c1 ''PUT'' (listPath c1 sid (nl_id nl)) (Some payload) e"
        "call H c1 e"
        "\<forall>body. o2 = Inr body \<longrightarrow> (\<exists>resp. he_result e = Inr resp \<and> rs_body resp = Inr body \<and>
          200 \<le> rs_status resp \<and> rs_status resp < 300)"
      then have sent: "request_by c ''PUT'' (listPath c' sid (nl_id nl)) (Some payload) e" "call H c e"
        using sc c'(1) by (simp_all add: request_by_same call_same)
      moreover have "put_hops payload (he_hops e)"
        using sent by (intro hops_of_put [of H]) (simp_all add: call_def request_by_def mkRequest_def)
      moreover have "r = Inr () \<longrightarrow> accepted e" using e(4) c'(3) unfolding accepted_def by blast
      ultimately show ?thesis using three p e(1) unfolding c'(1,2)
        by (intro exI [of _ tr1] conjI disjI2 exI [of _ payload] exI [of _ sid] exI [of _ e]) simp_all
    qed
  qed
qed

text \<open>
  C29: Reading never writes. Fetching one list, or all lists, makes at most four calls of \<^verbatim>\<open>Do\<close>. The
  first request of each call is a GET without a body to the controller's own address, with the API
  key and the TLS setting of the client; each further one is where the answer before it redirected
  to, whatever host that is, and is again a GET without a body, with the same key; a call makes at
  most ten. The client's settings stay as they are, whether it succeeds or fails.
\<close>
theorem getNetworkList_reads:
  "(let ((r, c'), tr') = getNetworkList H c listID tr in reads H 4 c tr c' tr') \<and>
   (let ((r, c'), tr') = listNetworkLists H c tr in reads H 4 c tr c' tr')"
  by (rule getNetworkList_contract)

text \<open>
  C30: An update is one PUT. Updating a list makes at most three calls of \<^verbatim>\<open>Do\<close>
  that read, to find the site, and then at most one more, a PUT of the encoded list to the path of that
  list; when the list cannot be encoded it is not made. That call sends nothing but this PUT, again
  where an answer redirects it as it is, and, once an answer was a 301, 302 or 303, GETs without a body.
  When the update succeeds the last of these requests was answered with a 2xx status, so the PUT itself
  was, unless it was redirected by a 301, 302 or 303.
\<close>
theorem updateNetworkList_one_put:
  assumes "updateNetworkList H c nl tr = ((r, c'), tr')"
  shows "\<exists>tr1. reads H 3 c tr c' tr1 \<and>
    (tr' = tr1 \<and> (\<exists>err. r = Inl err) \<or>
     (\<exists>payload sid e. tr' = tr1 @ [e] \<and>
        marshalUpdate H \<lparr>up_type = nl_type nl, up_name = nl_name nl, up_items = nl_items nl\<rparr> = Inr payload \<and>
        request_by c ''PUT'' (listPath c' sid (nl_id nl)) (Some payload) e \<and>
        call H c e \<and> put_hops payload (he_hops e) \<and> (r = Inr () \<longrightarrow> accepted e)))"
  by (rule updateNetworkList_contract [OF assms])

text \<open>
  That exception is real: where the PUT is answered by a redirect to another page, and that page by JSON, the
  update reports success although no PUT was accepted.
\<close>

theorem redirected_put_lost:
  fixes H c p payload tr page resp url
  defines "put \<equiv> mkRequest c ''PUT'' p (Some payload)"
  defines "found \<equiv> \<lparr>rs_status = 302, rs_contentType = [], rs_location = page, rs_body = Inr []\<rparr>"
  defines "get \<equiv> redirectRequest H put put ''GET'' url False"
  assumes "hasPrefix p ''/''" "\<not> contains p ''://''" "newRequestErr H ''PUT'' (cl_baseURL c @ p) = None"
    and put: "send H tr [] (cl_skipTLSVerify c) put = Inr found" "page \<noteq> []"
      "resolveURL H (rq_url put) page = Inr url"
    and get: "send H tr [\<lparr>hp_request = put, hp_result = Inr found\<rparr>] (cl_skipTLSVerify c) get = Inr resp"
      "rs_status resp = 200" "rs_contentType resp = ''application/json''" "rs_body resp = Inr ''{}''"
  shows "\<exists>e. doRequest H c ''PUT'' p (Some payload) tr = (Inr ''{}'', tr @ [e]) \<and>
    he_hops e = [\<lparr>hp_request = put, hp_result = Inr found\<rparr>, \<lparr>hp_request = get, hp_result = Inr resp\<rparr>]"
proof -
  have last: "clientDo H tr (cl_skipTLSVerify c) put False get [\<lparr>hp_request = put, hp_result = Inr found\<rparr>] =
      (Inr resp, [\<lparr>hp_request = put, hp_result = Inr found\<rparr>, \<lparr>hp_request = get, hp_result = Inr resp\<rparr>])"
    using get by (simp add: clientDo.simps [of H tr _ _ False] redirectBehavior_def Let_def)
  have "redirectBehavior (rq_method put) (rs_status found) = Some (''GET'', False)"
    by (simp add: put_def found_def redirectBehavior_def mkRequest_def)
  moreover have "rs_location found = page" by (simp add: found_def)
  ultimately have "clientDo H tr (cl_skipTLSVerify c) put True put [] =
      (Inr resp, [\<lparr>hp_request = put, hp_result = Inr found\<rparr>, \<lparr>hp_request = get, hp_result = Inr resp\<rparr>])"
    using put last by (subst clientDo.simps) (simp add: get_def [symmetric] Let_def)
  moreover have "\<not> hasPrefix ''application/json'' ''text/html''" "\<not> hasPrefix ''{}'' ''<''"
    by code_simp+
  ultimately show ?thesis using assms(4-6) get
    unfolding doRequest_def mkRequest_def [symmetric] put_def [symmetric] Let_def by simp
qed

text \<open>A small controller for the witnesses: one site and one list.\<close>

definition demo_http :: http_env where
  "demo_http = \<lparr>
     send = (\<lambda>tr hops skip req. Inr \<lparr>rs_status = 200, rs_contentType = ''application/json'', rs_location = [],
       rs_body = Inr (if contains (rq_url req) ''/traffic'' then ''list'' else ''page'')\<rparr>),
     resolveURL = (\<lambda>base ref. Inr ref), refererForURL = (\<lambda>last new. last), shownURL = (\<lambda>u. u),
     stripBodyHeaders = False, newRequestErr = (\<lambda>m u. None),
     parseURL = (\<lambda>u. Inr \<lparr>pu_scheme = ''https'', pu_host = ''Unifi'', pu_path = ''/'', pu_rawQuery = [],
       pu_fragment = [], pu_hasUser = False\<rparr>),
     escapeHost = (\<lambda>h. h),
     parseJSON = (\<lambda>body. if body = ''page''
       then Inr (JObj [(''data'', JArr [JObj [(''id'', JStr ''s1''), (''name'', JStr ''default'')]])])
       else Inr (JObj [(''id'', JStr ''L1''), (''name'', JStr ''allow''), (''type'', JStr ''IPV4_ADDRESSES''),
              (''items'', JArr [JObj [(''type'', JStr ''IP_ADDRESS''), (''Value'', JStr ''10.0.0.9'')]])])),
     textJSON = (\<lambda>v. []), typeErr = (\<lambda>f. ''cannot unmarshal''), renderJSON = (\<lambda>v. Inr ''body''),
     quoteGo = (\<lambda>s. s), lowerUnicode = (\<lambda>s. s)\<rparr>"

definition demo_client :: Client where
  "demo_client = \<lparr>cl_baseURL = ''https://unifi'', cl_site = ''default'', cl_siteID = [], cl_apiBase = [],
     cl_apiKey = ''k'', cl_skipTLSVerify = False\<rparr>"

theorem updateNetworkList_one_put_witness:
  "\<exists>tr1 payload sid e. snd (updateNetworkList demo_http demo_client
       \<lparr>nl_type = ''IPV4_ADDRESSES'', nl_id = ''L1'', nl_name = ''allow'', nl_items = []\<rparr> []) = tr1 @ [e] \<and>
     rq_method (he_request e) = ''PUT'' \<and> rq_body (he_request e) = Some payload"
proof -
  let ?nl = "\<lparr>nl_type = ''IPV4_ADDRESSES'', nl_id = ''L1'', nl_name = ''allow'', nl_items = []\<rparr>"
  obtain r c' tr' where u: "updateNetworkList demo_http demo_client ?nl [] = ((r, c'), tr')"
    by (metis prod.exhaust)
  have "fst (fst (updateNetworkList demo_http demo_client ?nl [])) = Inr ()" by code_simp
  with u have "r = Inr ()" by simp
  with updateNetworkList_one_put [OF u] u show ?thesis
    by (auto simp: request_by_def mkRequest_def)
qed

text \<open>
  Discovery happens once. After a successful operation on a site with an identifier, fetching
  a list with the same client makes exactly one request attempt: it appends at most one event to
  the history, the GET of that list under the path found before.
\<close>
theorem getNetworkList_cached:
  assumes "resolveSiteID H c tr = ((Inr sid, c'), tr')" and "sid \<noteq> []"
  shows "let ((r, c''), tr'') = getNetworkList H c' listID tr' in
    c'' = c' \<and> (tr'' = tr' \<and> (\<exists>err. r = Inl err) \<or>
      (\<exists>e. tr'' = tr' @ [e] \<and> request_by c' ''GET'' (listPath c' sid listID) None e))"
proof -
  have r: "resolveSiteID H c' tr' = ((Inr sid, c'), tr')"
    using resolveSiteID_cached [OF assms] by simp
  obtain o1 tr1 where d: "doRequest H c' ''GET'' (listPath c' sid listID) None tr' = (o1, tr1)"
    by fastforce
  from d show ?thesis
    by (rule doRequest_trace) (use r d in \<open>auto simp: getNetworkList_def split: sum.splits\<close>)
qed

theorem getNetworkList_cached_witness:
  "\<exists>c' tr'. resolveSiteID demo_http demo_client [] = ((Inr ''s1'', c'), tr') \<and>
     (let ((r, c''), tr'') = getNetworkList demo_http c' ''L1'' tr' in
        c'' = c' \<and> (tr'' = tr' \<and> (\<exists>err. r = Inl err) \<or>
          (\<exists>e. tr'' = tr' @ [e] \<and> request_by c' ''GET'' (listPath c' ''s1'' ''L1'') None e)))"
proof -
  obtain r c' tr' where s: "resolveSiteID demo_http demo_client [] = ((r, c'), tr')"
    by (metis prod.exhaust)
  have "fst (fst (resolveSiteID demo_http demo_client [])) = Inr ''s1''" by code_simp
  with s have "r = Inr ''s1''" by simp
  with s getNetworkList_cached [OF s [unfolded this], of "''L1''"] show ?thesis by blast
qed

lemma folded_names:
  "foldName ''type'' = ''type''" "foldName ''value'' = ''value''" "foldName ''start'' = ''start''"
  "foldName ''stop'' = ''stop''" "foldName ''id'' = ''id''" "foldName ''name'' = ''name''"
  "foldName ''items'' = ''items''"
  by code_simp+

declare foldName.simps [simp del]

lemma unmarshal_item: "unmarshalItem H (itemJSON it) = Inr it"
  by (cases it; cases "it_value it"; cases "it_start it"; cases "it_stop it")
    (simp_all add: unmarshalItem_def itemJSON_def stringField_def rawField_def members_def folded_names)

lemma unmarshal_items: "unmarshalAll (unmarshalItem H) (map itemJSON its) = Inr its"
  by (induction its) (simp_all add: unmarshal_item)

lemma updateJSON_items: "updateJSON up = updateJSON up' \<Longrightarrow> up_items up = up_items up'"
proof -
  assume "updateJSON up = updateJSON up'"
  then have "map itemJSON (up_items up) = map itemJSON (up_items up')" by (simp add: updateJSON_def)
  then have "(Inr (up_items up) :: TrafficMatchItem list res) = Inr (up_items up')"
    using unmarshal_items [of undefined] by metis
  then show ?thesis by simp
qed

text \<open>
  C31: What is sent is read back: decoding the encoded form of a list of items gives these items,
  the empty optional fields included; and an item of a ports list, whose values are numbers,
  decodes to their decimal texts.
\<close>
theorem items_roundtrip:
  "unmarshalNetworkList H (updateJSON \<lparr>up_type = ty, up_name = name, up_items = items\<rparr>) =
     Inr \<lparr>nl_type = ty, nl_id = [], nl_name = name, nl_items = items\<rparr> \<and>
   unmarshalItem H (JObj [(''type'', JStr ''PORT_NUMBER_RANGE''), (''start'', JNum a), (''stop'', JNum b)]) =
     Inr \<lparr>it_type = ''PORT_NUMBER_RANGE'', it_value = [], it_start = a, it_stop = b\<rparr>"
  by (simp add: unmarshal_items unmarshalNetworkList_def updateJSON_def unmarshalItem_def stringField_def
      rawField_def members_def folded_names)

lemma dropWhile_none: "rev (dropWhile P (rev (dropWhile P xs))) = [] \<Longrightarrow> \<forall>x \<in> set xs. P x"
proof -
  assume "rev (dropWhile P (rev (dropWhile P xs))) = []"
  then have "\<forall>x \<in> set (dropWhile P xs). P x" by (simp only: rev_is_Nil_conv dropWhile_eq_Nil_conv set_rev)
  then have "dropWhile P xs = []"
    by (cases "dropWhile P xs") (use hd_dropWhile [of P xs] in force)+
  then show ?thesis by (simp only: dropWhile_eq_Nil_conv)
qed

text \<open>
  A client is only made for an origin and a key. If the client is made, the key is not
  empty, the URL parsed to an http or https origin without credentials, query, fragment or path,
  and the base URL of every request is that scheme and host in lower case; no site and no API
  path are known yet.
\<close>
theorem newClient_origin:
  assumes "newClient H raw site apiKey skip = Inr c"
  shows "apiKey \<noteq> [] \<and> cl_apiKey c = apiKey \<and> cl_skipTLSVerify c = skip \<and> cl_siteID c = [] \<and>
    cl_apiBase c = [] \<and>
    (\<exists>u. parseURL H (trimSpace raw) = Inr u \<and> pu_scheme u \<in> {''http'', ''https''} \<and> pu_host u \<noteq> [] \<and>
       \<not> pu_hasUser u \<and> pu_rawQuery u = [] \<and> pu_fragment u = [] \<and> set (pu_path u) \<subseteq> {CHR ''/''} \<and>
       cl_baseURL c = pu_scheme u @ ''://'' @ escapeHost H (toLower (lowerUnicode H) (pu_host u)))"
proof -
  have slashes: "set p \<subseteq> {CHR ''/''}" if t: "trimSlashes p = []" for p
    using dropWhile_none [OF t [unfolded trimSlashes_def]] by blast
  have low: "toLower f ''http'' = ''http''" "toLower f ''https'' = ''https''" for f
    by (simp_all add: toLower_def is_ascii_def code_def lower_char_def)
  obtain url where k: "apiKey \<noteq> []" and n: "normalizeControllerBaseURL H raw = Inr url" and
    c: "c = \<lparr>cl_baseURL = url, cl_site = site, cl_siteID = [], cl_apiBase = [],
          cl_apiKey = apiKey, cl_skipTLSVerify = skip\<rparr>"
    using assms by (simp add: newClient_def split: if_split_asm sum.split_asm)
  obtain u where u: "parseURL H (trimSpace raw) = Inr u"
    using n by (cases "parseURL H (trimSpace raw)") (simp_all add: normalizeControllerBaseURL_def)
  have guard: "(if a then Inl x else y) = (Inr z :: string res) \<longleftrightarrow> \<not> a \<and> y = Inr z" for a x y z
    by simp
  note n' = n [unfolded normalizeControllerBaseURL_def u sum.case guard]
  have conds: "pu_scheme u = ''https'' \<or> pu_scheme u = ''http''" "pu_host u \<noteq> []" "\<not> pu_hasUser u"
    "pu_rawQuery u = [] \<and> pu_fragment u = []" "pu_path u = [] \<or> trimSlashes (pu_path u) = []"
    using n' by blast+
  have "url = toLower (lowerUnicode H) (pu_scheme u) @ ''://'' @
      escapeHost H (toLower (lowerUnicode H) (pu_host u))"
    using n' by (simp only: sum.inject)
  moreover have "toLower (lowerUnicode H) (pu_scheme u) = pu_scheme u"
    using conds(1) low by metis
  moreover have "set (pu_path u) \<subseteq> {CHR ''/''}"
    using conds(5)
  proof
    assume "pu_path u = []"
    then show ?thesis by simp
  qed (rule slashes)
  moreover have "pu_scheme u \<in> {''http'', ''https''}" using conds(1) by blast
  ultimately have "\<exists>u. parseURL H (trimSpace raw) = Inr u \<and> pu_scheme u \<in> {''http'', ''https''} \<and>
      pu_host u \<noteq> [] \<and> \<not> pu_hasUser u \<and> pu_rawQuery u = [] \<and> pu_fragment u = [] \<and>
      set (pu_path u) \<subseteq> {CHR ''/''} \<and>
      url = pu_scheme u @ ''://'' @ escapeHost H (toLower (lowerUnicode H) (pu_host u))"
    using u conds(2,3,4) by (intro exI [of _ u]) (simp only: simp_thms)
  with k show ?thesis unfolding c by (simp only: Client.simps simp_thms)
qed

theorem newClient_origin_witness:
  "\<exists>c. newClient demo_http ''https://Unifi/'' ''default'' ''k'' True = Inr c \<and> cl_baseURL c = ''https://unifi''"
proof -
  have "newClient demo_http ''https://Unifi/'' ''default'' ''k'' True =
      Inr \<lparr>cl_baseURL = ''https://unifi'', cl_site = ''default'', cl_siteID = [], cl_apiBase = [],
           cl_apiKey = ''k'', cl_skipTLSVerify = True\<rparr>" by code_simp
  with newClient_origin [OF this] show ?thesis by simp
qed

end
