(* ===== verification/Sync_Lists.thy ===== *)
theory Sync_Lists
  imports Resolver_Text Store Unifi_Client
begin

text \<open>
  The pure part of \<^verbatim>\<open>internal/syncer/syncer.go\<close> (lines 149 to 267): the order of the
  addresses, the difference between the old and the new list, its text, the conversion from and
  to list items, the merge with cached addresses and the retention time. The iteration order of a
  map is the argument \<open>order\<close>, which permutes the keys.
\<close>

subsection \<open>Order\<close>

text \<open>The comparison \<^verbatim>\<open>SortedIPs\<close> writes out again, with \<^verbatim>\<open>bytes.Compare\<close>.\<close>

definition sortedIPsLess :: "string \<Rightarrow> string \<Rightarrow> bool" where
  "sortedIPsLess left right =
     (case (ipSortKey left, ipSortKey right) of
        (Some (leftKey, leftPrefix), Some (rightKey, rightPrefix)) \<Rightarrow>
          if leftKey \<noteq> rightKey then leftKey < rightKey else leftPrefix < rightPrefix
      | (Some _, None) \<Rightarrow> True
      | (None, Some _) \<Rightarrow> False
      | (None, None) \<Rightarrow> left < right)"

definition sortedIPs :: "(string list \<Rightarrow> string list) \<Rightarrow> (string, string) gomap \<Rightarrow> string list" where
  "sortedIPs order hostIPs = sort_slice sortedIPsLess (order (keys hostIPs))"

subsection \<open>Differences\<close>

fun diffNew :: "string set \<Rightarrow> string list \<Rightarrow> string list \<Rightarrow> string list \<Rightarrow> string list \<times> string list" where
  "diffNew oldSet [] added kept = (added, kept)"
| "diffNew oldSet (ip # newIPs) added kept =
     (if ip \<in> oldSet then diffNew oldSet newIPs added (kept @ [ip])
      else diffNew oldSet newIPs (added @ [ip]) kept)"

fun diffOld :: "string set \<Rightarrow> string list \<Rightarrow> string list \<Rightarrow> string list" where
  "diffOld newSet [] removed = removed"
| "diffOld newSet (ip # oldIPs) removed =
     (if ip \<notin> newSet then diffOld newSet oldIPs (removed @ [ip]) else diffOld newSet oldIPs removed)"

definition diffIPs :: "string list \<Rightarrow> string list \<Rightarrow> string list \<times> string list \<times> string list" where
  "diffIPs oldIPs newIPs =
     (case diffNew (set oldIPs) newIPs [] [] of
        (added, kept) \<Rightarrow> (added, diffOld (set newIPs) oldIPs [], kept))"

definition diffLine :: "string \<Rightarrow> string \<Rightarrow> string \<Rightarrow> string" where
  "diffLine mark ip host = mark @ ip @ '' ('' @ host @ '')'' @ ''\<newline>''"

definition formatDiff ::
    "string list \<Rightarrow> string list \<Rightarrow> string list \<Rightarrow> (string, string) gomap \<Rightarrow> string" where
  "formatDiff added removed kept hostIPs =
     concat (map (\<lambda>ip. diffLine ''+ '' ip (get0 hostIPs ip)) added) @
     concat (map (\<lambda>ip. diffLine ''- '' ip
       (let host = get0 hostIPs ip in if host = [] then ''unknown'' else host)) removed) @
     concat (map (\<lambda>ip. diffLine ''  '' ip (get0 hostIPs ip)) kept)"

subsection \<open>List items\<close>

fun extractIPsFromItems :: "TrafficMatchItem list \<Rightarrow> string list" where
  "extractIPsFromItems [] = []"
| "extractIPsFromItems (item # items) =
     (if it_type item = ''IP_ADDRESS'' \<or> it_type item = ''SUBNET''
      then it_value item # extractIPsFromItems items else extractIPsFromItems items)"

definition ipToItem :: "string \<Rightarrow> TrafficMatchItem" where
  "ipToItem ip =
     (if contains ip ''/'' then \<lparr>it_type = ''SUBNET'', it_value = ip, it_start = [], it_stop = []\<rparr>
      else \<lparr>it_type = ''IP_ADDRESS'', it_value = ip, it_start = [], it_stop = []\<rparr>)"

definition ipsToItems :: "string list \<Rightarrow> TrafficMatchItem list" where
  "ipsToItems ips = map ipToItem ips"

subsection \<open>Merging and retention\<close>

definition mergeResolvedIPs ::
    "(string, string) gomap \<Rightarrow> (string, string) gomap \<Rightarrow> (string, string) gomap" where
  "mergeResolvedIPs observed current =
     fold (\<lambda>(ip, source) m. fold (\<lambda>part m. addResolvedSource m ip part) (split_on '', '' source) m)
       current (fold (\<lambda>(ip, source) m. AList.update ip source m) observed [])"

definition durationHours :: "int \<Rightarrow> int" where
  \<comment> \<open>\<^verbatim>\<open>time.Duration(h) * time.Hour\<close>, in nanoseconds, on 64 bits\<close>
  "durationHours h = sint (word_of_int h * 3600000000000 :: 64 word)"

definition observedIPRetention :: "SyncJob option \<Rightarrow> int" where
  "observedIPRetention job =
     (case job of
        None \<Rightarrow> durationHours DefaultObservedIPTTLHours
      | Some j \<Rightarrow> if j_ttlHours j \<le> 0 then 0 else durationHours (j_ttlHours j))"

subsection \<open>Lemmas: order\<close>

lemma sortedIPsLess_eq: "sortedIPsLess = bytesLessIP"
  by (intro ext)
    (auto simp: sortedIPsLess_def bytesLessIP_def bytesCompare_lex Let_def
      split: option.splits prod.splits)

interpretation sorted_ips: slice_order sortedIPsLess ip_key
  by unfold_locales (simp add: sortedIPsLess_eq bytesLessIP_key)

lemma set_sortedIPs: "mset (order (keys m)) = mset (keys m) \<Longrightarrow> set (sortedIPs order m) = fst ` set m"
  by (metis (no_types, lifting) list.set_map set_mset_mset set_sort_slice sortedIPs_def)

subsection \<open>Lemmas: differences\<close>

lemma diffNew_filter:
  "diffNew old new added kept =
     (added @ filter (\<lambda>ip. ip \<notin> old) new, kept @ filter (\<lambda>ip. ip \<in> old) new)"
  by (induction old new added kept rule: diffNew.induct) auto

lemma diffOld_filter: "diffOld new old removed = removed @ filter (\<lambda>ip. ip \<notin> new) old"
  by (induction new old removed rule: diffOld.induct) auto

lemma diffIPs_filter:
  "diffIPs old new = (filter (\<lambda>ip. ip \<notin> set old) new, filter (\<lambda>ip. ip \<notin> set new) old,
     filter (\<lambda>ip. ip \<in> set old) new)"
  by (simp add: diffIPs_def diffNew_filter diffOld_filter)

subsection \<open>Lemmas: items\<close>

lemma extract_ipsToItems: "extractIPsFromItems (ipsToItems ips) = ips"
  by (induction ips) (auto simp: ipsToItems_def ipToItem_def)

lemma contains_slash: "contains s ''/'' \<longleftrightarrow> CHR ''/'' \<in> set s"
  by (induction s) auto

subsection \<open>Lemmas: merging\<close>

lemma keys_fold_parts [simp]:
  "fst ` set (fold (\<lambda>part m. addResolvedSource m ip part) parts m) =
     fst ` set m \<union> (if parts = [] then {} else {ip})"
  by (induction parts arbitrary: m) auto

lemma distinct_fold_parts [simp]:
  "distinct (keys m) \<Longrightarrow> distinct (keys (fold (\<lambda>part m. addResolvedSource m ip part) parts m))"
  by (induction parts arbitrary: m) auto

lemma keys_copy: "fst ` set (fold (\<lambda>(ip, source) m. AList.update ip source m) observed m) =
    fst ` set observed \<union> fst ` set m"
  by (induction observed arbitrary: m) (simp_all add: case_prod_beta)

lemma distinct_copy: "distinct (keys m) \<Longrightarrow>
    distinct (keys (fold (\<lambda>(ip, source) m. AList.update ip source m) observed m))"
  by (induction observed arbitrary: m) auto

lemma map_of_copy: "map_of (fold (\<lambda>(ip, source) m. AList.update ip source m) observed m) =
    map_of m ++ map_of (rev observed)"
  by (induction observed arbitrary: m) (auto simp: update_conv' fun_eq_iff map_add_def split: option.splits)

lemma keys_mergeResolvedIPs:
  "fst ` set (mergeResolvedIPs observed current) = fst ` set observed \<union> fst ` set current"
proof -
  have "fst ` set (fold (\<lambda>(ip, source) m. fold (\<lambda>part m. addResolvedSource m ip part) (split_on '', '' source) m)
      current m) = fst ` set m \<union> fst ` set current" for m
    by (induction current arbitrary: m) (simp_all add: case_prod_beta)
  then show ?thesis by (simp add: mergeResolvedIPs_def keys_copy)
qed

lemma distinct_mergeResolvedIPs: "distinct (keys (mergeResolvedIPs observed current))"
proof -
  have "distinct (keys m) \<Longrightarrow> distinct (keys (fold (\<lambda>(ip, source) m.
      fold (\<lambda>part m. addResolvedSource m ip part) (split_on '', '' source) m) current m))" for m
    by (induction current arbitrary: m) auto
  then show ?thesis by (simp add: mergeResolvedIPs_def distinct_copy)
qed

subsection \<open>Lemmas: retention\<close>

lemma durationHours_exact:
  assumes "0 \<le> h" and "h \<le> 2562047"
  shows "durationHours h = h * 3600000000000"
proof -
  have "word_of_int h * 3600000000000 = (word_of_int (h * 3600000000000) :: 64 word)"
    by simp
  moreover have "sint (word_of_int (h * 3600000000000) :: 64 word) = h * 3600000000000"
    unfolding sint_sbintrunc' by (rule signed_take_bit_int_eq_self) (use assms in simp_all)
  ultimately show ?thesis by (simp add: durationHours_def)
qed

lemma durationHours_overflow: "durationHours 2562048 < 0"
  by (simp add: durationHours_def)

end
