(* ===== verification/Sync_Props.thy ===== *)
theory Sync_Props
  imports Sync_Lists
begin

text \<open>
  The properties of the pure part of the syncer: the difference of two lists, the order in which
  addresses are written, the conversion to list items, the merge of labels and the retention time.
\<close>

text \<open>
  C32: The difference is right. The added addresses are those of the new list that the old one does
  not have, the removed ones those of the old list that the new one does not have, the kept ones
  those of the new list that the old one has, each in its list's order; kept and added together
  are the new list, and there is nothing to change exactly when both lists have the same addresses.
\<close>
theorem diffIPs_correct:
  "case diffIPs old new of (added, removed, kept) \<Rightarrow>
     set added = set new - set old \<and> set removed = set old - set new \<and> set kept = set old \<inter> set new \<and>
     mset kept + mset added = mset new \<and>
     added = filter (\<lambda>ip. ip \<in> set added) new \<and> kept = filter (\<lambda>ip. ip \<in> set kept) new \<and>
     removed = filter (\<lambda>ip. ip \<in> set removed) old \<and>
     (added = [] \<and> removed = [] \<longleftrightarrow> set old = set new)"
proof -
  have p: "mset (filter P xs) + mset (filter (\<lambda>x. \<not> P x) xs) = mset xs" for P and xs :: "string list"
    by (induction xs) simp_all
  have f: "filter (\<lambda>ip. ip \<in> set (filter P xs)) xs = filter P xs" for P and xs :: "string list"
    by (rule filter_cong) auto
  show ?thesis
    unfolding diffIPs_filter prod.case f
    using p [of "\<lambda>ip. ip \<in> set old" new]
    by (auto simp: filter_empty_conv)
qed

text \<open>
  C33: The order of the addresses does not depend on the iteration order of the map. When all
  entries are canonical and none is a network of a single host (/32), any two iteration orders
  give the same list: all the keys, sorted by address bytes and then by prefix length.
\<close>
theorem sortedIPs_stable:
  assumes "mset (order1 (keys m)) = mset (keys m)" and "mset (order2 (keys m)) = mset (keys m)"
    and "\<forall>e \<in> set (keys m). entry_text e \<and> \<not> host_net e"
  shows "sortedIPs order1 m = sortedIPs order2 m \<and> mset (sortedIPs order1 m) = mset (keys m) \<and>
    sorted (map ip_key (sortedIPs order1 m))"
proof -
  have s: "set (order2 (keys m)) = set (keys m)" using assms(2) by (metis set_mset_mset)
  have "inj_on ip_key (set (order2 (keys m)))"
    unfolding s by (rule inj_on_subset [OF ip_key_inj]) (use assms(3) in auto)
  then have "sort_slice sortedIPsLess (order1 (keys m)) = sort_slice sortedIPsLess (order2 (keys m))"
    using assms(1,2) by (intro sorted_ips.sort_slice_perm) simp_all
  then show ?thesis
    by (simp only: sortedIPs_def mset_sort_slice assms(1,2) sorted_ips.sorted_sort_slice simp_thms)
qed

theorem sortedIPs_stable_witness:
  "sortedIPs rev [(''10.0.0.2'', ''a''), (''10.0.0.1'', ''b'')] =
   sortedIPs id [(''10.0.0.2'', ''a''), (''10.0.0.1'', ''b'')]"
proof -
  have "normalizeIPv4Literal ''10.0.0.2'' = Some ''10.0.0.2''" "normalizeIPv4Literal ''10.0.0.1'' = Some ''10.0.0.1''"
    "\<not> host_net ''10.0.0.2''" "\<not> host_net ''10.0.0.1''" by code_simp+
  then have "\<forall>e \<in> set (keys [(''10.0.0.2'', ''a''), (''10.0.0.1'', ''b'')]). entry_text e \<and> \<not> host_net e"
    by (auto simp: entry_text_def dest: normalizeIPv4Literal_text)
  with sortedIPs_stable [of rev "[(''10.0.0.2'', ''a''), (''10.0.0.1'', ''b'')]" id] show ?thesis by simp
qed

text \<open>
  The restriction is needed: an address and the same address as a network of one host compare
  as equal, so their order is the iteration order of the map.
\<close>
theorem sortedIPs_tie:
  "sortedIPs id [(''10.0.0.1'', ''a''), (''10.0.0.1/32'', ''b'')] = [''10.0.0.1'', ''10.0.0.1/32''] \<and>
   sortedIPs rev [(''10.0.0.1'', ''a''), (''10.0.0.1/32'', ''b'')] = [''10.0.0.1/32'', ''10.0.0.1'']"
proof -
  have "''10.0.0.1'' = ip4_string [10, 0, 0, 1]" "''10.0.0.1/32'' = cidr4_string [10, 0, 0, 1] 32"
    "map2 (\<lambda>a m. a AND m) [10, 0, 0, 1] (cidrMask 32 32) = [10, 0, 0, 1]" by code_simp+
  then have k: "ip_key ''10.0.0.1'' = ip_key ''10.0.0.1/32''"
    by (simp only: ip_key_ip4_string ip_key_cidr4_string list.size order_refl)
  have "\<not> sortedIPsLess ''10.0.0.1'' ''10.0.0.1/32''" "\<not> sortedIPsLess ''10.0.0.1/32'' ''10.0.0.1''"
    unfolding sortedIPsLess_eq bytesLessIP_key k by simp_all
  then show ?thesis by (simp add: sortedIPs_def sort_slice_def)
qed

text \<open>
  The comparison that the list is sorted with, written out a second time with the library's
  byte comparison, is the comparison of the resolver, and both are a strict order: the order of
  the sort key, with address bytes compared lexicographically.
\<close>
theorem sortedIPsLess_equiv:
  "sortedIPsLess = bytesLessIP \<and> (\<forall>l r. bytesLessIP l r \<longleftrightarrow> ip_key l < ip_key r) \<and>
   (\<forall>l r. (bytesCompare l r < 0 \<longleftrightarrow> l < r) \<and> (bytesCompare l r = 0 \<longleftrightarrow> l = r) \<and>
          bytesCompare r l = - bytesCompare l r)"
proof -
  have "bytesCompare r l + bytesCompare l r = 0" for l r
    by (induction l r rule: bytesCompare.induct) auto
  then have "bytesCompare r l = - bytesCompare l r" for l r
    by (simp only: eq_neg_iff_add_eq_0)
  note neg = this
  show ?thesis
    unfolding sortedIPsLess_eq bytesLessIP_key bytesCompare_lex
    by (intro conjI allI refl neg)
qed

text \<open>
  What is written to the controller reads back as the addresses it was made from, in order:
  every address becomes one item with no range, a subnet exactly when it has a slash.
\<close>
theorem ipsToItems_roundtrip:
  "extractIPsFromItems (ipsToItems ips) = ips \<and> length (ipsToItems ips) = length ips \<and>
   (\<forall>it \<in> set (ipsToItems ips). it_start it = [] \<and> it_stop it = [] \<and>
      it_type it = (if CHR ''/'' \<in> set (it_value it) then ''SUBNET'' else ''IP_ADDRESS''))"
  by (simp add: extract_ipsToItems)
    (auto simp: ipsToItems_def ipToItem_def contains_slash)

theorem ipsToItems_roundtrip_witness:
  "it_type (hd (ipsToItems [''10.0.0.0/8''])) = ''SUBNET''"
  using ipsToItems_roundtrip [of "[''10.0.0.0/8'']"]
  by (simp add: ipsToItems_def ipToItem_def)

lemma fold_parts_labels:
  "\<forall>part \<in> set parts. atomic_label part \<Longrightarrow>
   labels (fold (\<lambda>part m. addResolvedSource m ip part) parts m) e =
     (if e = ip then fold add_key parts (labels m e) else labels m e)"
  by (induction parts arbitrary: m) (auto simp: labels_addResolvedSource)

lemma fold_current_labels:
  "\<forall>(ip, source) \<in> set current. \<forall>part \<in> set (split_on '', '' source). atomic_label part \<Longrightarrow>
   distinct (keys current) \<Longrightarrow>
   labels (fold (\<lambda>(ip, source) m. fold (\<lambda>part m. addResolvedSource m ip part) (split_on '', '' source) m)
       current m) e =
     (case map_of current e of None \<Rightarrow> labels m e
      | Some source \<Rightarrow> fold add_key (split_on '', '' source) (labels m e))"
proof (induction current arbitrary: m)
  case (Cons c current)
  obtain ip source where c: "c = (ip, source)" by fastforce
  let ?m = "fold (\<lambda>part m. addResolvedSource m ip part) (split_on '', '' source) m"
  have "labels (fold (\<lambda>(ip, source) m. fold (\<lambda>part m. addResolvedSource m ip part) (split_on '', '' source) m)
      current ?m) e = (case map_of current e of None \<Rightarrow> labels ?m e
      | Some source \<Rightarrow> fold add_key (split_on '', '' source) (labels ?m e))"
    by (rule Cons.IH) (use Cons.prems in auto)
  moreover have "labels ?m e = (if e = ip then fold add_key (split_on '', '' source) (labels m e) else labels m e)"
    by (rule fold_parts_labels) (use Cons.prems c in auto)
  moreover have "map_of current ip = None"
    using Cons.prems(2) c by (simp add: map_of_eq_None_iff image_iff)
  ultimately show ?case by (cases "e = ip") (simp_all add: c split: option.splits)
qed simp

text \<open>
  Merging cached and current addresses loses nothing. The merged map has exactly the addresses
  of both, and the labels of an address are the cached ones followed by those current labels that
  are new, in their order.
\<close>
theorem mergeResolvedIPs_union:
  assumes "distinct (keys observed)" and "distinct (keys current)"
    and "\<forall>(ip, source) \<in> set current. \<forall>part \<in> set (split_on '', '' source). atomic_label part"
  shows "set (keys (mergeResolvedIPs observed current)) = set (keys observed) \<union> set (keys current) \<and>
    distinct (keys (mergeResolvedIPs observed current)) \<and>
    (\<forall>ip. labels (mergeResolvedIPs observed current) ip =
       (case map_of current ip of None \<Rightarrow> labels observed ip
        | Some source \<Rightarrow> fold add_key (split_on '', '' source) (labels observed ip)))"
proof -
  define copy where "copy = fold (\<lambda>(ip, source) m. AList.update ip source m) observed []"
  have m: "mergeResolvedIPs observed current = fold (\<lambda>(ip, source) m.
      fold (\<lambda>part m. addResolvedSource m ip part) (split_on '', '' source) m) current copy"
    by (simp only: mergeResolvedIPs_def copy_def)
  have "map_of copy = map_of observed"
    using assms(1) by (simp add: copy_def map_of_copy map_of_inject_set rev_map [symmetric])
  then have l: "labels copy = labels observed" by (simp add: labels_def get0_def fun_eq_iff)
  show ?thesis
    using fold_current_labels [OF assms(3,2), of copy] unfolding l
    by (simp add: keys_mergeResolvedIPs distinct_mergeResolvedIPs m [symmetric])
qed

theorem mergeResolvedIPs_union_witness:
  "labels (mergeResolvedIPs [(''10.0.0.1'', ''old'')] [(''10.0.0.1'', ''new'')]) ''10.0.0.1'' = [''old'', ''new'']"
proof -
  have "\<forall>(ip, source) \<in> set [(''10.0.0.1'', ''new'')]. \<forall>part \<in> set (split_on '', '' source). atomic_label part"
    by code_simp
  with mergeResolvedIPs_union [of "[(''10.0.0.1'', ''old'')]" "[(''10.0.0.1'', ''new'')]"]
  have "labels (mergeResolvedIPs [(''10.0.0.1'', ''old'')] [(''10.0.0.1'', ''new'')]) ''10.0.0.1'' =
      fold add_key (split_on '', '' ''new'') (labels [(''10.0.0.1'', ''old'')] ''10.0.0.1'')" by simp
  moreover have "fold add_key (split_on '', '' ''new'') (labels [(''10.0.0.1'', ''old'')] ''10.0.0.1'')
      = [''old'', ''new'']" by code_simp
  ultimately show ?thesis by simp
qed

text \<open>
  C34: The retention time is exact up to 2562047 hours (292 years): zero for a TTL of zero or less,
  otherwise that many hours in nanoseconds, a positive number. One hour more wraps around to a
  negative time, which the caller treats like a TTL of zero.
\<close>
theorem observedIPRetention_exact:
  "observedIPRetention None = 168 * 3600000000000 \<and>
   (j_ttlHours j \<le> 0 \<longrightarrow> observedIPRetention (Some j) = 0) \<and>
   (0 < j_ttlHours j \<and> j_ttlHours j \<le> 2562047 \<longrightarrow>
      observedIPRetention (Some j) = j_ttlHours j * 3600000000000 \<and> 0 < observedIPRetention (Some j)) \<and>
   (j_ttlHours j = 2562048 \<longrightarrow> observedIPRetention (Some j) < 0)"
  by (auto simp: observedIPRetention_def DefaultObservedIPTTLHours_def durationHours_exact durationHours_overflow)

theorem observedIPRetention_exact_witness:
  "observedIPRetention (Some (\<lparr>j_id = 1, j_name = [], j_controllerID = 1, j_networkListID = [],
     j_hostnames = [], j_schedule = [], j_ttlHours = 24, j_enabled = True, j_lastRunAt = None,
     j_lastResult = None, j_createdAt = [], j_updatedAt = [], j_controllerName = []\<rparr>)) = 86400000000000"
  using observedIPRetention_exact [of "\<lparr>j_id = 1, j_name = [], j_controllerID = 1, j_networkListID = [],
     j_hostnames = [], j_schedule = [], j_ttlHours = 24, j_enabled = True, j_lastRunAt = None,
     j_lastResult = None, j_createdAt = [], j_updatedAt = [], j_controllerName = []\<rparr>"] by simp

end
