(* ===== verification/Syncer.thy ===== *)
theory Syncer
  imports Dns_Resolver Store_Cache Unifi_Client Sync_Lists
begin

text \<open>
  The execution of a sync job, \<^verbatim>\<open>internal/syncer/syncer.go\<close> (lines 16 to 147):
  the store, the resolver, the controller client and the pure list functions put together. A world holds
  the database, the DNS and HTTP histories and the set of jobs that are running; \<open>sync_env\<close>
  holds the environments of the parts and the iteration order of the map that is sorted.

  \<^verbatim>\<open>execute\<close> is one function of the code; here it is the composition of three,
  one for each of its parts: resolving the hosts, keeping recently seen addresses, and pushing the list.
\<close>

record SyncResult =
  sr_status :: string
  sr_message :: string
  sr_changesMade :: nat
  sr_details :: string

record world =
  w_db :: db
  w_dns :: trace
  w_http :: http_trace
  w_running :: "int list"

record sync_env =
  e_db :: dbenv
  e_dns :: dns_env
  e_http :: http_env
  e_order :: "string list \<Rightarrow> string list"

definition errorResult :: "string \<Rightarrow> SyncResult" where
  "errorResult msg = \<lparr>sr_status = ''error'', sr_message = msg, sr_changesMade = 0, sr_details = []\<rparr>"

definition withDb :: "(db \<Rightarrow> 'a \<times> db) \<Rightarrow> world \<Rightarrow> 'a \<times> world" where
  "withDb f w = (case f (w_db w) of (a, s) \<Rightarrow> (a, w\<lparr>w_db := s\<rparr>))"

definition nowSeconds :: "sync_env \<Rightarrow> world \<Rightarrow> int" where
  "nowSeconds E w = ctx_time (dctx (e_db E) (stmtNo (w_db w)))"

subsection \<open>Resolving the hosts\<close>

definition resolveJob ::
    "sync_env \<Rightarrow> SyncJob \<Rightarrow> world \<Rightarrow> (SyncResult + (string, string) gomap) \<times> world" where
  "resolveJob E job w =
     (case withDb (listEnabledDNSServerAddresses (e_db E)) w of
        (Inl err, w) \<Rightarrow> (Inl (errorResult (''load DNS servers: '' @ err)), w)
      | (Inr servers, w) \<Rightarrow>
          if servers = []
          then (Inl (errorResult ''no DNS servers configured: add at least one enabled DNS server''), w)
          else (case resolveHostnames (e_dns E) (j_hostnames job) servers (w_dns w) of
              (Inl err, tr) \<Rightarrow> (Inl (errorResult (''DNS resolution: '' @ err)), w\<lparr>w_dns := tr\<rparr>)
            | (Inr hostIPs, tr) \<Rightarrow> (Inr hostIPs, w\<lparr>w_dns := tr\<rparr>)))"

subsection \<open>Keeping recently seen addresses\<close>

text \<open>
  The cutoff is \<open>retention\<close> nanoseconds before the clock. The clock is read in seconds, as
  the texts it becomes have no more; a retention that does not wrap is a whole number of hours, and of
  one that wraps the part below a second is dropped.
\<close>

definition retainIPs ::
    "sync_env \<Rightarrow> SyncJob \<Rightarrow> (string, string) gomap \<Rightarrow> world \<Rightarrow> (SyncResult + (string, string) gomap) \<times> world" where
  "retainIPs E job hostIPs w =
     (let now = nowSeconds E w; retention = observedIPRetention (Some job) in
      if retention > 0 then
        let retentionCutoff = rfc3339 (now - retention div 1000000000) in
        (case withDb (upsertObservedIPs (e_db E) (j_id job) hostIPs (rfc3339 now)) w of
           (Inl err, w) \<Rightarrow> (Inl (errorResult (''record observed IPs: '' @ err)), w)
         | (Inr _, w) \<Rightarrow>
        (case withDb (deleteExpiredObservedIPs (e_db E) (j_id job) retentionCutoff) w of
           (Inl err, w) \<Rightarrow> (Inl (errorResult (''cleanup observed IPs: '' @ err)), w)
         | (Inr _, w) \<Rightarrow>
        (case withDb (listObservedIPs (e_db E) (j_id job) retentionCutoff) w of
           (Inl err, w) \<Rightarrow> (Inl (errorResult (''load observed IPs: '' @ err)), w)
         | (Inr observedIPs, w) \<Rightarrow> (Inr (mergeResolvedIPs observedIPs hostIPs), w))))
      else
        (case withDb (deleteObservedIPs (e_db E) (j_id job)) w of
           (Inl err, w) \<Rightarrow> (Inl (errorResult (''clear observed IPs: '' @ err)), w)
         | (Inr _, w) \<Rightarrow> (Inr hostIPs, w)))"

subsection \<open>Pushing the list\<close>

definition pushIPs ::
    "sync_env \<Rightarrow> SyncJob \<Rightarrow> (string, string) gomap \<Rightarrow> world \<Rightarrow> SyncResult \<times> world" where
  "pushIPs E job hostIPs w =
     (case withDb (getController (e_db E) (j_controllerID job)) w of
        (Inl err, w) \<Rightarrow> (errorResult (''load controller: '' @ err), w)
      | (Inr ctrl, w) \<Rightarrow>
     (case newClient (e_http E) (c_url ctrl) (c_site ctrl) (c_apiKey ctrl) (c_skipTLSVerify ctrl) of
        Inl err \<Rightarrow> (errorResult (''UniFi API client: '' @ err), w)
      | Inr client \<Rightarrow>
     (case getNetworkList (e_http E) client (j_networkListID job) (w_http w) of
        ((Inl err, client), tr) \<Rightarrow> (errorResult (''get network list: '' @ err), w\<lparr>w_http := tr\<rparr>)
      | ((Inr nl, client), tr) \<Rightarrow>
          let w = w\<lparr>w_http := tr\<rparr>;
              newIPs = sortedIPs (e_order E) hostIPs;
              oldIPs = sort (extractIPsFromItems (nl_items nl));
              (added, removed, kept) = diffIPs oldIPs newIPs in
          if added = [] \<and> removed = []
          then (\<lparr>sr_status = ''success'',
                 sr_message = ''No changes needed ('' @ itoa (length kept) @ '' IPs match)'',
                 sr_changesMade = 0, sr_details = []\<rparr>, w)
          else (case updateNetworkList (e_http E) client (nl\<lparr>nl_items := ipsToItems newIPs\<rparr>) (w_http w) of
              ((Inl err, client), tr) \<Rightarrow>
                (errorResult (''update network list: '' @ err), w\<lparr>w_http := tr\<rparr>)
            | ((Inr _, client), tr) \<Rightarrow>
                (\<lparr>sr_status = ''success'',
                  sr_message = ''Updated: +'' @ itoa (length added) @ '' -'' @ itoa (length removed) @
                    '' (='' @ itoa (length kept) @ '' kept)'',
                  sr_changesMade = length added + length removed,
                  sr_details = formatDiff added removed kept hostIPs\<rparr>, w\<lparr>w_http := tr\<rparr>)))))"

definition execute :: "sync_env \<Rightarrow> SyncJob \<Rightarrow> world \<Rightarrow> SyncResult \<times> world" where
  "execute E job w =
     (case resolveJob E job w of
        (Inl r, w) \<Rightarrow> (r, w)
      | (Inr hostIPs, w) \<Rightarrow>
     (case retainIPs E job hostIPs w of
        (Inl r, w) \<Rightarrow> (r, w)
      | (Inr hostIPs, w) \<Rightarrow> pushIPs E job hostIPs w))"

subsection \<open>Running a job\<close>

definition runJob :: "sync_env \<Rightarrow> int \<Rightarrow> world \<Rightarrow> SyncResult \<times> world" where
  \<comment> \<open>the body of \<^verbatim>\<open>Run\<close> after the job is marked as running\<close>
  "runJob E jobID w =
     (case withDb (getJob (e_db E) jobID) w of
        (Inl err, w) \<Rightarrow> (errorResult (''load job: '' @ err), w)
      | (Inr job, w) \<Rightarrow>
          let runLog = \<lparr>l_id = 0, l_jobID = jobID, l_startedAt = rfc3339 (nowSeconds E w),
                        l_finishedAt = None, l_status = ''running'', l_message = [],
                        l_changesMade = 0, l_details = []\<rparr> in
          (case withDb (createRunLog (e_db E) runLog) w of
             (Inl err, w) \<Rightarrow> (errorResult (''create run log: '' @ err), w)
           | (Inr logID, w) \<Rightarrow>
               (case execute E job w of (result, w) \<Rightarrow>
                  let finished = rfc3339 (nowSeconds E w);
                      runLog = runLog\<lparr>l_id := logID, l_finishedAt := Some finished,
                        l_status := sr_status result, l_message := sr_message result,
                        l_changesMade := int (sr_changesMade result), l_details := sr_details result\<rparr>;
                      (_, w) = withDb (updateRunLog (e_db E) runLog) w;
                      (_, w) = withDb (updateJobLastRun (e_db E) jobID finished
                        (sr_status result @ '': '' @ sr_message result)) w in
                  (result, w))))"

definition run :: "sync_env \<Rightarrow> int \<Rightarrow> world \<Rightarrow> SyncResult \<times> world" where
  "run E jobID w =
     (if jobID \<in> set (w_running w)
      then (\<lparr>sr_status = ''skipped'', sr_message = ''Job is already running'', sr_changesMade = 0,
             sr_details = []\<rparr>, w)
      else case runJob E jobID (w\<lparr>w_running := jobID # w_running w\<rparr>) of
        (result, w) \<Rightarrow> (result, w\<lparr>w_running := removeAll jobID (w_running w)\<rparr>))"

end
