(* ===== verification/Syncer_Laws.thy ===== *)
theory Syncer_Laws
  imports Syncer Unifi_Props
begin

text \<open>
  What each part of an execution does to the world: which histories it extends, which tables it
  changes, and which addresses it passes on.
\<close>

subsection \<open>Frames\<close>

text \<open>An execution changes nothing in the database but the cache of observed addresses.\<close>

definition only_cache :: "db \<Rightarrow> db \<Rightarrow> bool" where
  "only_cache s0 s \<longleftrightarrow> controllers s = controllers s0 \<and> ctrlSeq s = ctrlSeq s0 \<and>
     sync_jobs s = sync_jobs s0 \<and> jobSeq s = jobSeq s0 \<and> run_logs s = run_logs s0 \<and>
     logSeq s = logSeq s0 \<and> schema s = schema s0 \<and> dns_servers s = dns_servers s0 \<and> dnsSeq s = dnsSeq s0"

lemma only_cache_refl [simp]: "only_cache s s"
  by (simp add: only_cache_def)

lemma only_cache_stmtNo: "only_cache s0 s \<Longrightarrow> only_cache s0 (s\<lparr>stmtNo := n\<rparr>)"
  by (simp add: only_cache_def)

lemma only_cache_obs: "only_cache s0 s \<Longrightarrow> only_cache s0 (s\<lparr>job_observed_ips := obs\<rparr>)"
  by (simp add: only_cache_def)

lemma only_cache_trans: "only_cache a b \<Longrightarrow> only_cache b c \<Longrightarrow> only_cache a c"
  by (simp add: only_cache_def)

lemma dbQuery_only_cache: "dbQuery E objs q s = (r, s') \<Longrightarrow> only_cache s s'"
  using snd_dbQuery [of E objs q s] only_cache_stmtNo [OF only_cache_refl] by (metis snd_conv)

lemma upsert_only_cache: "only_cache s (snd (upsertObservedIPs E j m t s))"
  by (rule upsertObservedIPs_inv [where P = "only_cache s"])
    (auto intro: only_cache_stmtNo only_cache_obs simp: upsertRow_def split: if_splits)

lemma expire_only_cache: "only_cache s (snd (deleteExpiredObservedIPs E j t s))"
  unfolding deleteExpiredObservedIPs_def
  by (rule dbExec_inv) (auto intro: only_cache_stmtNo only_cache_obs)

lemma clear_only_cache: "only_cache s (snd (deleteObservedIPs E j s))"
  unfolding deleteObservedIPs_def
  by (rule dbExec_inv) (auto intro: only_cache_stmtNo only_cache_obs)

subsection \<open>Resolving\<close>

lemma resolveJob_frame:
  assumes "resolveJob E job w = (r, w')"
  shows "only_cache (w_db w) (w_db w') \<and> w_http w' = w_http w \<and> w_running w' = w_running w"
  using assms
  by (auto simp: resolveJob_def withDb_def listEnabledDNSServerAddresses_def
      dest!: dbQuery_only_cache split: prod.splits sum.splits if_splits)

lemma dbQuery_ok: "dbQuery E objs q s = (r, s') \<Longrightarrow> db_ok s' = db_ok s"
  using snd_dbQuery [of E objs q s] by simp

lemma dbQuery_cache: "dbQuery E objs q s = (r, s') \<Longrightarrow> cache s' = cache s"
  using snd_dbQuery [of E objs q s] by simp

lemma resolveJob_cache: "resolveJob E job w = (r, w') \<Longrightarrow> cache (w_db w') = cache (w_db w)"
  by (auto simp: resolveJob_def withDb_def listEnabledDNSServerAddresses_def
      dest!: dbQuery_cache split: prod.splits sum.splits if_splits)

text \<open>The addresses of the host list: written there, or answered by DNS in this execution.\<close>

lemma resolveJob_sound:
  assumes "map_order_ok (e_dns E)" and "resolveJob E job w = (Inr hostIPs, w')"
  shows "\<exists>evs. w_dns w' = w_dns w @ evs \<and> distinct (keys hostIPs) \<and>
    (\<forall>e \<in> set (keys hostIPs). entry_text e \<and>
       (e \<in> direct_entries (host_lines (j_hostnames job)) \<or> e \<in> all_ips evs)) \<and>
    direct_entries (host_lines (j_hostnames job)) \<subseteq> set (keys hostIPs)"
proof -
  obtain servers where "resolveHostnames (e_dns E) (j_hostnames job) servers (w_dns w) = (Inr hostIPs, w_dns w')"
    using assms(2)
    by (auto simp: resolveJob_def withDb_def split: prod.splits sum.splits if_splits)
  from resolveHostnames_contract [OF assms(1) this] show ?thesis by blast
qed

subsection \<open>Retaining\<close>

lemma observed_only_cache:
  "upsertObservedIPs X j m t s = (a, s') \<Longrightarrow> only_cache s s'"
  "deleteExpiredObservedIPs X j t s = (b, s') \<Longrightarrow> only_cache s s'"
  "deleteObservedIPs X j s = (c, s') \<Longrightarrow> only_cache s s'"
  "listObservedIPs X j t s = (d, s') \<Longrightarrow> only_cache s s'"
  using upsert_only_cache [of s X j m t] expire_only_cache [of s X j t] clear_only_cache [of s X j]
  by (auto simp: listObservedIPs_def dest: dbQuery_only_cache)

text \<open>With a retention time it is three operations on the database; the first failure ends it.\<close>

lemma retainIPs_steps:
  assumes "retainIPs E job hostIPs w = (r, w')" and "0 < observedIPRetention (Some job)"
  defines "limit \<equiv> rfc3339 (nowSeconds E w - observedIPRetention (Some job) div 1000000000)"
  obtains e s1 where
      "upsertObservedIPs (e_db E) (j_id job) hostIPs (rfc3339 (nowSeconds E w)) (w_db w) = (Inl e, s1)"
      "r = Inl (errorResult (''record observed IPs: '' @ e))" "w' = w\<lparr>w_db := s1\<rparr>"
  | s1 e s2 where
      "upsertObservedIPs (e_db E) (j_id job) hostIPs (rfc3339 (nowSeconds E w)) (w_db w) = (Inr (), s1)"
      "deleteExpiredObservedIPs (e_db E) (j_id job) limit s1 = (Inl e, s2)"
      "r = Inl (errorResult (''cleanup observed IPs: '' @ e))" "w' = w\<lparr>w_db := s2\<rparr>"
  | s1 s2 e s3 where
      "upsertObservedIPs (e_db E) (j_id job) hostIPs (rfc3339 (nowSeconds E w)) (w_db w) = (Inr (), s1)"
      "deleteExpiredObservedIPs (e_db E) (j_id job) limit s1 = (Inr (), s2)"
      "listObservedIPs (e_db E) (j_id job) limit s2 = (Inl e, s3)"
      "r = Inl (errorResult (''load observed IPs: '' @ e))" "w' = w\<lparr>w_db := s3\<rparr>"
  | s1 s2 obs s3 where
      "upsertObservedIPs (e_db E) (j_id job) hostIPs (rfc3339 (nowSeconds E w)) (w_db w) = (Inr (), s1)"
      "deleteExpiredObservedIPs (e_db E) (j_id job) limit s1 = (Inr (), s2)"
      "listObservedIPs (e_db E) (j_id job) limit s2 = (Inr obs, s3)"
      "r = Inr (mergeResolvedIPs obs hostIPs)" "w' = w\<lparr>w_db := s3\<rparr>"
proof -
  obtain a1 s1 where 1: "upsertObservedIPs (e_db E) (j_id job) hostIPs (rfc3339 (nowSeconds E w)) (w_db w) = (a1, s1)"
    by fastforce
  obtain a2 s2 where 2: "deleteExpiredObservedIPs (e_db E) (j_id job) limit s1 = (a2, s2)" by fastforce
  obtain a3 s3 where 3: "listObservedIPs (e_db E) (j_id job) limit s2 = (a3, s3)" by fastforce
  note r = assms(1) [unfolded retainIPs_def Let_def withDb_def limit_def [symmetric]]
  show ?thesis
  proof (cases a1)
    case (Inl e)
    with 1 r assms(2) that(1) show ?thesis by simp
  next
    case i1: (Inr u)
    show ?thesis
    proof (cases a2)
      case (Inl e)
      with 1 2 i1 r assms(2) that(2) show ?thesis by simp
    next
      case i2: (Inr u)
      with 1 2 3 i1 r assms(2) that(3,4) show ?thesis by (cases a3) simp_all
    qed
  qed
qed

lemma retainIPs_off:
  assumes "retainIPs E job hostIPs w = (r, w')" and "observedIPRetention (Some job) \<le> 0"
  shows "\<exists>a s1. deleteObservedIPs (e_db E) (j_id job) (w_db w) = (a, s1) \<and> w' = w\<lparr>w_db := s1\<rparr> \<and>
    r = (case a of Inl e \<Rightarrow> Inl (errorResult (''clear observed IPs: '' @ e)) | Inr _ \<Rightarrow> Inr hostIPs)"
  using assms
  by (cases "deleteObservedIPs (e_db E) (j_id job) (w_db w)")
    (auto simp: retainIPs_def withDb_def Let_def split: sum.splits)

lemma retainIPs_frame:
  assumes "retainIPs E job hostIPs w = (r, w')"
  shows "only_cache (w_db w) (w_db w') \<and> w_http w' = w_http w \<and> w_running w' = w_running w \<and>
    w_dns w' = w_dns w"
proof (cases "0 < observedIPRetention (Some job)")
  case True
  from assms this show ?thesis
    by (rule retainIPs_steps) (auto dest!: observed_only_cache intro: only_cache_trans)
next
  case False
  then show ?thesis using retainIPs_off [OF assms] by (auto dest: observed_only_cache)
qed

text \<open>
  With a retention time the list is the current addresses and the cached ones that were last seen
  at the cutoff or later; without one it is the current addresses, and the cache is emptied.
\<close>

definition fresh_ips :: "db \<Rightarrow> int \<Rightarrow> string \<Rightarrow> string set" where
  "fresh_ips s j cutoff = {ip. \<exists>source t0 t1. cache s (j, ip) = Some (source, t0, t1) \<and> cutoff \<le> t1}"

lemma retainIPs_exact:
  assumes "db_ok (w_db w)" and "distinct (keys hostIPs)"
    and "0 < observedIPRetention (Some job)"
    and "retainIPs E job hostIPs w = (Inr m, w')"
  shows "set (keys m) = set (keys hostIPs) \<union>
      fresh_ips (w_db w) (j_id job) (rfc3339 (nowSeconds E w - observedIPRetention (Some job) div 1000000000)) \<and>
    distinct (keys m) \<and> db_ok (w_db w')"
proof -
  let ?cut = "rfc3339 (nowSeconds E w - observedIPRetention (Some job) div 1000000000)"
  let ?j = "j_id job"
  obtain s1 s2 obs s3 where
    u: "upsertObservedIPs (e_db E) ?j hostIPs (rfc3339 (nowSeconds E w)) (w_db w) = (Inr (), s1)" and
    d: "deleteExpiredObservedIPs (e_db E) ?j ?cut s1 = (Inr (), s2)" and
    l: "listObservedIPs (e_db E) ?j ?cut s2 = (Inr obs, s3)" and
    m: "m = mergeResolvedIPs obs hostIPs" and w': "w_db w' = s3"
    using assms(4,3) by (rule retainIPs_steps) auto
  have ok1: "db_ok s1" using observed_ok(1) [OF assms(1), of "e_db E" ?j hostIPs "rfc3339 (nowSeconds E w)"] u by simp
  have ok2: "db_ok s2" using observed_ok(2) [OF ok1, of "e_db E" ?j ?cut] d by simp
  have ok3: "db_ok s3"
    using ok2 dbQuery_ok [OF l [unfolded listObservedIPs_def]] by simp
  have listed: "ip \<in> set (keys obs) \<longleftrightarrow>
      (\<exists>source t0 t1. cache s1 (?j, ip) = Some (source, t0, t1) \<and> ?cut \<le> t1)" for ip
    using listObservedIPs_cache [OF ok2 l, of ip] deleteExpired_cache [OF ok1 d, of ?j ip]
      map_of_eq_None_iff [of obs ip]
    by (auto simp: not_less split: option.splits if_splits)
  have same: "cache s1 (?j, ip) = cache (w_db w) (?j, ip)" if "ip \<notin> set (keys hostIPs)" for ip
    using upsertObservedIPs_cache(1) [OF assms(2) u, of ?j ip] that by simp
  have "ip \<in> set (keys obs) \<longleftrightarrow> ip \<in> fresh_ips (w_db w) ?j ?cut" if "ip \<notin> set (keys hostIPs)" for ip
    unfolding listed fresh_ips_def mem_Collect_eq same [OF that] by (rule refl)
  then have "set (keys hostIPs) \<union> set (keys obs) = set (keys hostIPs) \<union> fresh_ips (w_db w) ?j ?cut"
    by blast
  then show ?thesis
    using ok3 w' by (simp add: m keys_mergeResolvedIPs distinct_mergeResolvedIPs Un_commute)
qed

lemma retainIPs_none:
  assumes "observedIPRetention (Some job) \<le> 0" and "retainIPs E job hostIPs w = (Inr m, w')"
    and "db_ok (w_db w)"
  shows "m = hostIPs \<and> cache (w_db w') (j_id job, ip) = None"
proof -
  obtain a s1 where "deleteObservedIPs (e_db E) (j_id job) (w_db w) = (a, s1)" "w' = w\<lparr>w_db := s1\<rparr>"
    "Inr m = (case a of Inl e \<Rightarrow> Inl (errorResult (''clear observed IPs: '' @ e)) | Inr _ \<Rightarrow> Inr hostIPs)"
    using retainIPs_off [OF assms(2,1)] by blast
  then show ?thesis
    using deleteObserved_cache [OF assms(3)] by (cases a) auto
qed

end
