(* ===== verification/Syncer_Push.thy ===== *)
theory Syncer_Push
  imports Syncer_Laws Sync_Props
begin

text \<open>
  What pushing a list does: the requests it makes to the controller of the job, when it writes,
  and what its result says about them.
\<close>

subsection \<open>Requests of a push\<close>

definition put_of :: "sync_env \<Rightarrow> Client \<Rightarrow> SyncJob \<Rightarrow> http_trace \<Rightarrow> string list \<Rightarrow> http_ev \<Rightarrow> bool" where
  \<comment> \<open>the PUT of the fetched list with its items replaced by \<open>ips\<close>, which are other addresses\<close>
  "put_of E c job tr ips e \<longleftrightarrow> (\<exists>nl c1 tr1 c2 sid payload.
     getNetworkList (e_http E) c (j_networkListID job) tr = ((Inr nl, c1), tr1) \<and>
     set (extractIPsFromItems (nl_items nl)) \<noteq> set ips \<and>
     marshalUpdate (e_http E)
       \<lparr>up_type = nl_type nl, up_name = nl_name nl, up_items = ipsToItems ips\<rparr> = Inr payload \<and>
     request_by c ''PUT'' (listPath c2 sid (nl_id nl)) (Some payload) e \<and>
     call (e_http E) c e \<and> put_hops payload (he_hops e))"

text \<open>
  The result tells what happened: it is an error, or the list matched and nothing was written, or
  the one write was accepted and the numbers are those of the difference.
\<close>

definition push_outcome :: "string list \<Rightarrow> SyncResult \<Rightarrow> http_ev list \<Rightarrow> bool" where
  "push_outcome ips r put \<longleftrightarrow>
     sr_status r = ''error'' \<and> sr_changesMade r = 0 \<or>
     sr_status r = ''success'' \<and> sr_changesMade r = 0 \<and> put = [] \<or>
     sr_status r = ''success'' \<and> 0 < sr_changesMade r \<and> (\<exists>e. put = [e] \<and> accepted e)"

lemma errorResult_fields [simp]:
  "sr_status (errorResult e) = ''error''" "sr_changesMade (errorResult e) = 0"
  by (simp_all add: errorResult_def)

lemma diffIPs_empty: "diffIPs (sort old) new = (added, removed, kept) \<Longrightarrow>
    (added = [] \<and> removed = []) = (set old = set new) \<and>
    (length added + length removed = 0) = (set old = set new)"
  by (auto simp: diffIPs_filter filter_empty_conv)

lemma getNetworkList_trace:
  "getNetworkList H c i tr = ((r, c'), tr') \<Longrightarrow> reads H 4 c tr c' tr'"
  using getNetworkList_contract [of H c i tr] by simp

text \<open>The calls of a push: at most seven that read, then at most one that writes.\<close>

definition push_requests ::
    "sync_env \<Rightarrow> Client \<Rightarrow> SyncJob \<Rightarrow> http_trace \<Rightarrow> string list \<Rightarrow> SyncResult \<Rightarrow> http_trace \<Rightarrow> bool" where
  "push_requests E c job tr ips r tr' \<longleftrightarrow> (\<exists>rs put. tr' = tr @ rs @ put \<and> length rs \<le> 7 \<and> length put \<le> 1 \<and>
     push_outcome ips r put \<and> (\<forall>e \<in> set rs. is_read (e_http E) c e) \<and> (\<forall>e \<in> set put. put_of E c job tr ips e))"

lemma push_requestsI:
  "tr' = tr @ rs @ put \<Longrightarrow> length rs \<le> 7 \<Longrightarrow> length put \<le> 1 \<Longrightarrow> push_outcome ips r put \<Longrightarrow>
   \<forall>e \<in> set rs. is_read (e_http E) c e \<Longrightarrow> \<forall>e \<in> set put. put_of E c job tr ips e \<Longrightarrow> push_requests E c job tr ips r tr'"
  unfolding push_requests_def by (intro exI [of _ rs] exI [of _ put] conjI)

lemma update_requests:
  assumes n: "getNetworkList (e_http E) c (j_networkListID job) tr = ((Inr nl, c1), tr1)"
    and ne: "set (extractIPsFromItems (nl_items nl)) \<noteq> set ips"
    and u: "updateNetworkList (e_http E) c1 (nl\<lparr>nl_items := ipsToItems ips\<rparr>) tr1 = ((o1, c2), tr2)"
    and r: "sr_status r = ''error'' \<and> sr_changesMade r = 0 \<or>
      sr_status r = ''success'' \<and> 0 < sr_changesMade r \<and> o1 = Inr ()"
  shows "push_requests E c job tr ips r tr2"
proof -
  from getNetworkList_trace [OF n] obtain rs1 where same: "same_client c c1" and
    rs1: "tr1 = tr @ rs1" "length rs1 \<le> 4" "\<forall>e \<in> set rs1. is_read (e_http E) c e"
    by (auto simp: reads_def)
  let ?payload = "marshalUpdate (e_http E) \<lparr>up_type = nl_type nl, up_name = nl_name nl, up_items = ipsToItems ips\<rparr>"
  from updateNetworkList_contract [OF u, simplified] obtain tr3 where
    t3: "reads (e_http E) 3 c1 tr1 c2 tr3" and
    cases: "tr2 = tr3 \<and> (\<exists>err. o1 = Inl err) \<or> (\<exists>payload sid e. tr2 = tr3 @ [e] \<and> ?payload = Inr payload \<and>
      request_by c1 ''PUT'' (listPath c2 sid (nl_id nl)) (Some payload) e \<and>
      call (e_http E) c1 e \<and> put_hops payload (he_hops e) \<and> (o1 = Inr () \<longrightarrow> accepted e))"
    by blast
  from t3 obtain rs2 where rs2: "tr3 = tr1 @ rs2" "length rs2 \<le> 3" "\<forall>e \<in> set rs2. is_read (e_http E) c e"
    using is_read_same [OF same] by (auto simp: reads_def)
  from cases show ?thesis
  proof (elim disjE exE conjE)
    fix err assume "tr2 = tr3" "o1 = Inl err"
    then show ?thesis using r rs1 rs2
      by (intro push_requestsI [of _ _ "rs1 @ rs2" "[]"]) (auto simp: push_outcome_def)
  next
    fix payload sid e
    assume e: "tr2 = tr3 @ [e]" "?payload = Inr payload"
      "request_by c1 ''PUT'' (listPath c2 sid (nl_id nl)) (Some payload) e" "call (e_http E) c1 e"
      "put_hops payload (he_hops e)" "o1 = Inr () \<longrightarrow> accepted e"
    have "put_of E c job tr ips e"
      using n ne e(2-5) request_by_same [OF same] call_same [OF same] unfolding put_of_def
      by (intro exI [of _ nl] exI [of _ c1] exI [of _ tr1] exI [of _ c2] exI [of _ sid] exI [of _ payload]) simp
    then show ?thesis using r rs1 rs2 e(1,6)
      by (intro push_requestsI [of _ _ "rs1 @ rs2" "[e]"]) (auto simp: push_outcome_def)
  qed
qed

lemma pushIPs_requests:
  assumes "pushIPs E job m w = (r, w')"
    and g: "getController (e_db E) (j_controllerID job) (w_db w) = (Inr ctrl, s)"
    and c: "newClient (e_http E) (c_url ctrl) (c_site ctrl) (c_apiKey ctrl) (c_skipTLSVerify ctrl) = Inr c"
  shows "push_requests E c job (w_http w) (sortedIPs (e_order E) m) r (w_http w') \<and>
    w' = w\<lparr>w_db := s, w_http := w_http w'\<rparr>"
proof -
  define ips where "ips = sortedIPs (e_order E) m"
  obtain b c1 tr1 where n: "getNetworkList (e_http E) c (j_networkListID job) (w_http w) = ((b, c1), tr1)"
    by (metis prod.exhaust)
  note p = assms(1) [unfolded pushIPs_def withDb_def g prod.case sum.case c ips_def [symmetric]]
  from getNetworkList_trace [OF n] obtain rs1 where
    rs1: "tr1 = w_http w @ rs1" "length rs1 \<le> 4" "\<forall>e \<in> set rs1. is_read (e_http E) c e"
    by (auto simp: reads_def)
  have quiet: "push_requests E c job (w_http w) ips r (w_http w')"
    if "w_http w' = tr1" "push_outcome ips r []"
    using that rs1 by (intro push_requestsI [of _ _ rs1 "[]"]) auto
  have "push_requests E c job (w_http w) ips r (w_http w') \<and> w' = w\<lparr>w_db := s, w_http := w_http w'\<rparr>"
  proof (cases b)
    case (Inl e)
    then show ?thesis using p n quiet by (auto simp: push_outcome_def)
  next
    case nl: (Inr nl)
    obtain added removed kept where
      d: "diffIPs (sort (extractIPsFromItems (nl_items nl))) ips = (added, removed, kept)"
      by (metis prod.exhaust)
    obtain o1 c2 tr2 where
      u: "updateNetworkList (e_http E) c1 (nl\<lparr>nl_items := ipsToItems ips\<rparr>) tr1 = ((o1, c2), tr2)"
      by (metis prod.exhaust)
    show ?thesis
    proof (cases "added = [] \<and> removed = []")
      case True
      then have "r = \<lparr>sr_status = ''success'', sr_message = ''No changes needed ('' @ itoa (length kept) @ '' IPs match)'',
          sr_changesMade = 0, sr_details = []\<rparr>" "w' = w\<lparr>w_db := s, w_http := tr1\<rparr>"
        using p n nl d by (simp_all add: Let_def)
      then show ?thesis using quiet by (simp add: push_outcome_def)
    next
      case False
      then have ne: "set (extractIPsFromItems (nl_items nl)) \<noteq> set ips" using diffIPs_empty [OF d] by blast
      have "sr_status r = ''error'' \<and> sr_changesMade r = 0 \<or>
          sr_status r = ''success'' \<and> 0 < sr_changesMade r \<and> o1 = Inr ()"
        using p n nl d False u by (cases o1) (auto simp: Let_def)
      note update_requests [OF n [unfolded nl] ne u this]
      moreover have "w' = w\<lparr>w_db := s, w_http := tr2\<rparr>"
        using p n nl d False u by (cases o1) (auto simp: Let_def)
      ultimately show ?thesis by simp
    qed
  qed
  then show ?thesis by (simp only: ips_def)
qed

text \<open>A push only changes the HTTP history, and only if the controller and its client are there.\<close>

definition client_for :: "sync_env \<Rightarrow> SyncJob \<Rightarrow> db \<Rightarrow> Client \<Rightarrow> bool" where
  "client_for E job s c \<longleftrightarrow> (\<exists>ctrl s'. getController (e_db E) (j_controllerID job) s = (Inr ctrl, s') \<and>
     newClient (e_http E) (c_url ctrl) (c_site ctrl) (c_apiKey ctrl) (c_skipTLSVerify ctrl) = Inr c)"

lemma pushIPs_contract:
  assumes "pushIPs E job m w = (r, w')"
  shows "only_cache (w_db w) (w_db w') \<and> cache (w_db w') = cache (w_db w) \<and> w_dns w' = w_dns w \<and>
    w_running w' = w_running w \<and>
    (w_http w' = w_http w \<and> sr_status r = ''error'' \<and> sr_changesMade r = 0 \<or>
     (\<exists>c. client_for E job (w_db w) c \<and>
        push_requests E c job (w_http w) (sortedIPs (e_order E) m) r (w_http w')))"
proof -
  obtain a s where g: "getController (e_db E) (j_controllerID job) (w_db w) = (a, s)" by fastforce
  have db: "only_cache (w_db w) s" "cache s = cache (w_db w)"
    using g dbQuery_only_cache dbQuery_cache by (simp_all add: getController_def)
  note p = assms [unfolded pushIPs_def withDb_def g prod.case]
  show ?thesis
  proof (cases "\<exists>ctrl c. a = Inr ctrl \<and>
      newClient (e_http E) (c_url ctrl) (c_site ctrl) (c_apiKey ctrl) (c_skipTLSVerify ctrl) = Inr c")
    case True
    then obtain ctrl c where c: "a = Inr ctrl"
      "newClient (e_http E) (c_url ctrl) (c_site ctrl) (c_apiKey ctrl) (c_skipTLSVerify ctrl) = Inr c" by blast
    then have "client_for E job (w_db w) c" using g by (auto simp: client_for_def)
    moreover from pushIPs_requests [OF assms g [unfolded c(1)] c(2)] obtain tr where
      "push_requests E c job (w_http w) (sortedIPs (e_order E) m) r (w_http w')"
      and "w' = w\<lparr>w_db := s, w_http := tr\<rparr>" by blast
    ultimately show ?thesis using db by auto
  next
    case False
    then show ?thesis using p db by (auto split: sum.splits)
  qed
qed

end
