(* ===== verification/Syncer_Props.thy ===== *)
theory Syncer_Props
  imports Syncer_Push Store_Props Resolver_Props
begin

text \<open>
  The properties of a sync as a whole: where the addresses of the written list come from and
  which addresses it must contain, what a failed resolution leaves alone, how long an address
  stays after it was last seen, what the run log records, and that a job never runs twice at once.
\<close>

subsection \<open>A small world for the witnesses\<close>

definition demo_sync :: sync_env where
  "demo_sync = \<lparr>e_db = demo_db True, e_dns = demo_dns, e_http = demo_http, e_order = (\<lambda>xs. xs)\<rparr>"

definition demo_world :: world where
  "demo_world = \<lparr>w_db = empty_db\<lparr>
     schema := [''controllers'', ''controllers.skip_tls_verify'', ''sync_jobs'', ''sync_jobs.observed_ip_ttl_hours'',
       ''run_logs'', ''dns_servers'', ''job_observed_ips''],
     controllers := [demo_controller\<lparr>c_id := 1\<rparr>], ctrlSeq := 1,
     sync_jobs := [\<lparr>r_id = 1, r_name = ''allow'', r_controllerID = 1, r_networkListID = ''L1'',
       r_hostnames = ''10.0.0.1'', r_schedule = [], r_ttlHours = 24, r_enabled = 1, r_lastRunAt = None,
       r_lastResult = None, r_createdAt = ''t'', r_updatedAt = ''t''\<rparr>], jobSeq := 1,
     dns_servers := [\<lparr>s_id = 1, s_name = ''dns'', s_address = ''8.8.8.8:53'', s_enabled = 1,
       s_createdAt = ''t'', s_updatedAt = ''t''\<rparr>], dnsSeq := 1\<rparr>,
     w_dns = [], w_http = [], w_running = []\<rparr>"

definition demo_sync_job :: SyncJob where
  "demo_sync_job = demo_job\<lparr>j_id := 1, j_ttlHours := 24, j_enabled := True\<rparr>"

lemma demo_world_ok: "db_ok (w_db demo_world)"
  by (simp add: demo_world_def db_ok_def ids_ok_def empty_db_def maxInt64_def demo_controller_def is_flag_def)

subsection \<open>Provenance\<close>

definition retention_cutoff :: "SyncJob \<Rightarrow> int \<Rightarrow> string" where
  "retention_cutoff job now = rfc3339 (now - observedIPRetention (Some job) div 1000000000)"

text \<open>The cached addresses that the next execution keeps: those seen since the cutoff, if there is one.\<close>

definition kept_ips :: "sync_env \<Rightarrow> SyncJob \<Rightarrow> world \<Rightarrow> string set" where
  "kept_ips E job w = (if 0 < observedIPRetention (Some job)
     then fresh_ips (w_db w) (j_id job)
       (retention_cutoff job (ctx_time (dctx (e_db E) (Suc (stmtNo (w_db w))))))
     else {})"

lemma dbQuery_stmtNo: "dbQuery E objs q s = (r, s') \<Longrightarrow> s' = s\<lparr>stmtNo := Suc (stmtNo s)\<rparr>"
  using snd_dbQuery [of E objs q s] by simp

lemma resolveJob_stmtNo:
  "resolveJob E job w = (Inr m, w') \<Longrightarrow> w_db w' = (w_db w)\<lparr>stmtNo := Suc (stmtNo (w_db w))\<rparr>"
  by (auto simp: resolveJob_def withDb_def listEnabledDNSServerAddresses_def
      dest!: dbQuery_stmtNo split: prod.splits sum.splits if_splits)

lemma retainIPs_kept:
  assumes "db_ok (w_db w)" and "resolveJob E job w = (Inr m0, w1)" and "distinct (keys m0)"
    and "retainIPs E job m0 w1 = (Inr m, w2)"
  shows "set (keys m) = set (keys m0) \<union> kept_ips E job w \<and> distinct (keys m) \<and> db_ok (w_db w2)"
proof -
  note w1 = resolveJob_stmtNo [OF assms(2)]
  have ok: "db_ok (w_db w1)" using assms(1) by (simp add: w1)
  show ?thesis
  proof (cases "0 < observedIPRetention (Some job)")
    case True
    from retainIPs_exact [OF ok assms(3) True assms(4)] show ?thesis
      using True by (simp add: kept_ips_def retention_cutoff_def fresh_ips_def nowSeconds_def w1)
  next
    case False
    then obtain a s1 where "deleteObservedIPs (e_db E) (j_id job) (w_db w1) = (a, s1)" "w2 = w1\<lparr>w_db := s1\<rparr>"
      "Inr m = (case a of Inl e \<Rightarrow> Inl (errorResult (''clear observed IPs: '' @ e)) | Inr _ \<Rightarrow> Inr m0)"
      using retainIPs_off [OF assms(4)] by (auto simp: not_less)
    then show ?thesis
      using False assms(3) observed_ok(3) [OF ok, of "e_db E" "j_id job"]
      by (auto simp: kept_ips_def split: sum.splits)
  qed
qed

text \<open>The addresses an execution may and must write.\<close>

definition sync_ips :: "sync_env \<Rightarrow> SyncJob \<Rightarrow> world \<Rightarrow> trace \<Rightarrow> string list \<Rightarrow> bool" where
  "sync_ips E job w dns ips \<longleftrightarrow> distinct ips \<and>
     direct_entries (host_lines (j_hostnames job)) \<union> kept_ips E job w \<subseteq> set ips \<and>
     set ips \<subseteq> direct_entries (host_lines (j_hostnames job)) \<union> all_ips dns \<union> kept_ips E job w"

lemma execute_cases:
  assumes "execute E job w = (r, w')"
  obtains (unresolved) "resolveJob E job w = (Inl r, w')"
  | (unretained) m0 w1 where "resolveJob E job w = (Inr m0, w1)" "retainIPs E job m0 w1 = (Inl r, w')"
  | (pushed) m0 w1 m w2 where "resolveJob E job w = (Inr m0, w1)" "retainIPs E job m0 w1 = (Inr m, w2)"
      "pushIPs E job m w2 = (r, w')"
proof -
  obtain a w1 where r1: "resolveJob E job w = (a, w1)" by fastforce
  show ?thesis
  proof (cases a)
    case (Inl e)
    then show ?thesis using assms r1 unresolved by (simp add: execute_def)
  next
    case m0: (Inr m0)
    obtain b w2 where r2: "retainIPs E job m0 w1 = (b, w2)" by fastforce
    then show ?thesis
      using assms r1 m0 unretained pushed by (cases b) (simp_all add: execute_def)
  qed
qed

lemma resolveJob_error: "resolveJob E job w = (Inl r, w') \<Longrightarrow> \<exists>e. r = errorResult e"
  by (auto simp: resolveJob_def split: prod.splits sum.splits if_splits)

lemma retainIPs_error: "retainIPs E job m w = (Inl r, w') \<Longrightarrow> \<exists>e. r = errorResult e"
  by (auto simp: retainIPs_def Let_def split: prod.splits sum.splits if_splits)

lemma execute_contract:
  assumes "map_order_ok (e_dns E)" and ord: "\<forall>xs. mset (e_order E xs) = mset xs" and "db_ok (w_db w)"
    and "execute E job w = (r, w')"
  shows "only_cache (w_db w) (w_db w') \<and> w_running w' = w_running w \<and>
    (w_http w' = w_http w \<and> sr_status r = ''error'' \<and> sr_changesMade r = 0 \<or>
     (\<exists>dns c s ips. w_dns w' = w_dns w @ dns \<and> only_cache (w_db w) s \<and> client_for E job s c \<and>
        sync_ips E job w dns ips \<and> push_requests E c job (w_http w) ips r (w_http w')))"
  using assms(4)
proof (cases rule: execute_cases)
  case unresolved
  then show ?thesis using resolveJob_frame resolveJob_error by fastforce
next
  case (unretained m0 w1)
  then show ?thesis
    using resolveJob_frame [OF unretained(1)] retainIPs_frame [OF unretained(2)]
      retainIPs_error [OF unretained(2)] only_cache_trans [of "w_db w" "w_db w1" "w_db w'"]
    by auto
next
  case (pushed m0 w1 m w2)
  note f1 = resolveJob_frame [OF pushed(1)] and f2 = retainIPs_frame [OF pushed(2)]
  from resolveJob_sound [OF assms(1) pushed(1)] obtain evs where
    evs: "w_dns w1 = w_dns w @ evs" "distinct (keys m0)"
      "\<forall>e \<in> set (keys m0). entry_text e \<and> (e \<in> direct_entries (host_lines (j_hostnames job)) \<or> e \<in> all_ips evs)"
      "direct_entries (host_lines (j_hostnames job)) \<subseteq> set (keys m0)"
    by blast
  note kept = retainIPs_kept [OF assms(3) pushed(1) evs(2) pushed(2)]
  let ?ips = "sortedIPs (e_order E) m"
  have "set ?ips = set (keys m)" using set_sortedIPs [of "e_order E" m] ord by simp
  moreover have "mset ?ips = mset (keys m)" using ord by (simp add: sortedIPs_def mset_sort_slice)
  then have "distinct ?ips" using kept by (metis mset_eq_imp_distinct_iff)
  ultimately have ips: "sync_ips E job w evs ?ips" using evs(3,4) kept by (auto simp: sync_ips_def)
  have db: "only_cache (w_db w) (w_db w2)" using f1 f2 only_cache_trans by blast
  note f3 = pushIPs_contract [OF pushed(3)]
  from f3 have db': "only_cache (w_db w) (w_db w')" using db only_cache_trans by blast
  from f3 show ?thesis
  proof (elim conjE disjE exE)
    fix c assume c: "client_for E job (w_db w2) c" "w_dns w' = w_dns w2" "w_running w' = w_running w2"
      "push_requests E c job (w_http w2) ?ips r (w_http w')"
    then show ?thesis using f1 f2 evs(1) db db' ips
      by (intro conjI disjI2 exI [of _ evs] exI [of _ c] exI [of _ "w_db w2"] exI [of _ ?ips]) simp_all
  qed (use f1 f2 db' in simp)
qed

text \<open>
  C1: An execution writes only addresses it can account for. It may read the controller of its
  job, and then makes at most one call that is not a read: the PUT of the fetched list with
  new items. These are distinct; each is written in the host list, was answered in a DNS exchange
  of this execution, or was seen by this job within the retention time; and none of the first and
  the last kind is left out. In the database it changes nothing but the cache.
\<close>
theorem execute_provenance:
  assumes "map_order_ok (e_dns E)" and "\<forall>xs. mset (e_order E xs) = mset xs" and "db_ok (w_db w)"
    and "execute E job w = (r, w')"
  shows "only_cache (w_db w) (w_db w') \<and> w_running w' = w_running w \<and>
    (w_http w' = w_http w \<and> sr_status r = ''error'' \<and> sr_changesMade r = 0 \<or>
     (\<exists>dns c s ips. w_dns w' = w_dns w @ dns \<and> only_cache (w_db w) s \<and> client_for E job s c \<and>
        sync_ips E job w dns ips \<and> push_requests E c job (w_http w) ips r (w_http w')))"
  by (rule execute_contract [OF assms])

lemma demo_sync_simps [simp]:
  "e_dns demo_sync = demo_dns" "e_order demo_sync = (\<lambda>xs. xs)" "e_http demo_sync = demo_http"
  "e_db demo_sync = demo_db True"
  by (simp_all add: demo_sync_def)

theorem execute_provenance_witness:
  "\<exists>r w'. execute demo_sync demo_sync_job demo_world = (r, w') \<and> sync_jobs (w_db w') = sync_jobs (w_db demo_world)"
proof -
  obtain r w' where e: "execute demo_sync demo_sync_job demo_world = (r, w')" by fastforce
  from execute_provenance [OF _ _ demo_world_ok e] show ?thesis
    using e by (simp add: demo_dns_ok only_cache_def)
qed

text \<open>Two reasons why the hosts of a job cannot resolve: nobody to ask, or nothing but answers without addresses.\<close>

lemma resolveJob_no_server:
  assumes "\<forall>s \<in> set (dns_servers (w_db w)). s_enabled s \<noteq> 1" and "resolveJob E job w = (r, w')"
  shows "(\<exists>err. r = Inl err) \<and> w_dns w' = w_dns w"
proof -
  obtain a s where l: "listEnabledDNSServerAddresses (e_db E) (w_db w) = (a, s)" by fastforce
  have "servers = []" if "a = Inr servers" for servers
  proof -
    from dbQuery_Inr [OF l [unfolded that listEnabledDNSServerAddresses_def]]
    have "servers = map s_address (sort_key s_id (filter (\<lambda>r. s_enabled r = 1) (dns_servers (w_db w))))" by simp
    moreover have "filter (\<lambda>r. s_enabled r = 1) (dns_servers (w_db w)) = []" using assms(1) by simp
    ultimately show ?thesis by simp
  qed
  then show ?thesis using assms(2) l by (auto simp: resolveJob_def withDb_def split: sum.splits)
qed

lemma resolveJob_no_address:
  assumes "map_order_ok (e_dns E)" and "resolveJob E job w = (Inr hostIPs, w')"
    and "direct_entries (host_lines (j_hostnames job)) = {}"
  shows "\<exists>evs. w_dns w' = w_dns w @ evs \<and> all_ips evs \<noteq> {}"
proof -
  obtain servers where "resolveHostnames (e_dns E) (j_hostnames job) servers (w_dns w) = (Inr hostIPs, w_dns w')"
    using assms(2)
    by (auto simp: resolveJob_def withDb_def split: prod.splits sum.splits if_splits)
  from resolveHostnames_contract [OF assms(1) this] obtain evs where evs: "w_dns w' = w_dns w @ evs"
    "hostIPs \<noteq> []" "\<forall>e \<in> set (keys hostIPs). e \<in> all_ips evs" using assms(3) by auto
  then show ?thesis by (cases hostIPs) auto
qed

lemma execute_dns:
  assumes "execute E job w = (r, w')"
  shows "\<exists>a w1. resolveJob E job w = (a, w1) \<and> w_dns w' = w_dns w1 \<and> ((\<exists>err. a = Inl err) \<longrightarrow> a = Inl r \<and> w' = w1)"
  using assms
proof (cases rule: execute_cases)
  case (pushed m0 w1 m w2)
  then show ?thesis using retainIPs_frame [OF pushed(2)] pushIPs_contract [OF pushed(3)] by auto
qed (auto dest: retainIPs_frame)

text \<open>
  C8: When the hosts do not resolve, nothing is touched. Suppose that no DNS server of the database is
  enabled, or that the host list writes no address itself and no exchange of the execution answered
  one. Then the execution ends with an error, the controller is not asked anything, and every table,
  the cache of observed addresses included, is as it was; without an enabled server nobody is asked.
\<close>
theorem execute_unresolved:
  assumes "map_order_ok (e_dns E)" and "execute E job w = (r, w')"
    and "(\<forall>s \<in> set (dns_servers (w_db w)). s_enabled s \<noteq> 1) \<or>
      direct_entries (host_lines (j_hostnames job)) = {} \<and>
      (\<forall>evs. w_dns w' = w_dns w @ evs \<longrightarrow> all_ips evs = {})"
  shows "sr_status r = ''error'' \<and> sr_changesMade r = 0 \<and> w_http w' = w_http w \<and>
    w_running w' = w_running w \<and> only_cache (w_db w) (w_db w') \<and> cache (w_db w') = cache (w_db w) \<and>
    ((\<forall>s \<in> set (dns_servers (w_db w)). s_enabled s \<noteq> 1) \<longrightarrow> w_dns w' = w_dns w)"
proof -
  obtain a w1 where x: "resolveJob E job w = (a, w1)" "w_dns w' = w_dns w1"
    "(\<exists>err. a = Inl err) \<longrightarrow> a = Inl r \<and> w' = w1"
    using execute_dns [OF assms(2)] by blast
  have "\<exists>err. a = Inl err"
  proof (rule ccontr)
    assume "\<not> (\<exists>err. a = Inl err)"
    then obtain hostIPs where a: "a = Inr hostIPs" by (cases a) auto
    with assms(3) x show False
      using resolveJob_no_server [OF _ x(1)] resolveJob_no_address [OF assms(1) x(1) [unfolded a]] by auto
  qed
  with x(1,3) have r: "resolveJob E job w = (Inl r, w')" by auto
  then show ?thesis
    using resolveJob_frame [OF r] resolveJob_error [OF r] resolveJob_cache [OF r] resolveJob_no_server [OF _ r] by auto
qed

definition mute_sync :: sync_env where
  \<comment> \<open>every exchange is refused\<close>
  "mute_sync = demo_sync\<lparr>e_dns := demo_dns\<lparr>exchange_fn := (\<lambda>tr server name qtype. Inl ''refused'')\<rparr>\<rparr>"

theorem execute_unresolved_witness:
  "(let w = demo_world\<lparr>w_db := (w_db demo_world)\<lparr>dns_servers := []\<rparr>\<rparr> in
      case execute demo_sync demo_sync_job w of (r, w') \<Rightarrow> sr_status r = ''error'' \<and> w_dns w' = w_dns w) \<and>
   (case execute mute_sync (demo_sync_job\<lparr>j_hostnames := ''a.b''\<rparr>) demo_world of (r, w') \<Rightarrow>
      sr_status r = ''error'' \<and> w_dns w' \<noteq> [] \<and> w_http w' = w_http demo_world)"
proof
  let ?w = "demo_world\<lparr>w_db := (w_db demo_world)\<lparr>dns_servers := []\<rparr>\<rparr>"
  obtain r w' where e: "execute demo_sync demo_sync_job ?w = (r, w')" by fastforce
  from execute_unresolved [OF _ e] show "let w = ?w in
      case execute demo_sync demo_sync_job w of (r, w') \<Rightarrow> sr_status r = ''error'' \<and> w_dns w' = w_dns w"
    using e by (simp add: demo_dns_ok)
next
  let ?job = "demo_sync_job\<lparr>j_hostnames := ''a.b''\<rparr>"
  obtain r w' where e: "execute mute_sync ?job demo_world = (r, w')" by fastforce
  have "w_dns (snd (execute mute_sync ?job demo_world)) \<noteq> [] \<and>
      list_all (\<lambda>ev. answered_ips ev = []) (w_dns (snd (execute mute_sync ?job demo_world)))" by code_simp
  then have "w_dns w' \<noteq> []" "all_ips (w_dns w') = {}" using e by (simp_all add: all_ips_def list_all_iff)
  moreover have "host_lines ''a.b'' = [''a.b'']" "direct_entry ''a.b'' = None" by code_simp+
  then have "direct_entries (host_lines (j_hostnames ?job)) = {}" by simp
  moreover have "map_order_ok (e_dns mute_sync)" by (simp add: mute_sync_def demo_dns_def map_order_ok_def)
  ultimately show "case execute mute_sync ?job demo_world of (r, w') \<Rightarrow>
      sr_status r = ''error'' \<and> w_dns w' \<noteq> [] \<and> w_http w' = w_http demo_world"
    using execute_unresolved [OF _ e] e by (simp add: demo_world_def)
qed

subsection \<open>Retention\<close>

lemma retainIPs_cache:
  assumes "db_ok (w_db w)" and "distinct (keys hostIPs)" and "0 < observedIPRetention (Some job)"
    and "retainIPs E job hostIPs w = (Inr m, w')"
  shows "cache (w_db w') (j, ip) =
    (case (if j = j_id job \<and> ip \<in> set (keys hostIPs)
           then see (get0 hostIPs ip) (rfc3339 (nowSeconds E w)) (cache (w_db w) (j, ip))
           else cache (w_db w) (j, ip)) of
       None \<Rightarrow> None
     | Some (source, t0, t1) \<Rightarrow>
         if j = j_id job \<and> t1 < retention_cutoff job (nowSeconds E w) then None else Some (source, t0, t1))"
  using assms(4,3)
proof (cases rule: retainIPs_steps)
  case (4 s1 s2 obs s3)
  have ok1: "db_ok s1"
    using observed_ok(1) [OF assms(1), of "e_db E" "j_id job" hostIPs "rfc3339 (nowSeconds E w)"] 4(1) by simp
  have c: "cache (w_db w') = cache s2" using 4(3,5) by (simp add: listObservedIPs_def dbQuery_cache)
  show ?thesis
    unfolding retention_cutoff_def c upsertObservedIPs_cache(1) [OF assms(2) 4(1), of j ip, symmetric]
    by (rule deleteExpired_cache [OF ok1 4(2)])
qed simp_all

lemma observedIPRetention_seconds:
  "0 < j_ttlHours job \<Longrightarrow> j_ttlHours job \<le> 2562047 \<Longrightarrow>
   observedIPRetention (Some job) = j_ttlHours job * 3600000000000 \<and>
   observedIPRetention (Some job) div 1000000000 = j_ttlHours job * 3600"
  by (simp add: observedIPRetention_def durationHours_exact)

text \<open>
  C5: An address does not flap. Once an execution at second \<open>t1\<close> recorded an address, a later one
  at second \<open>t2\<close>, with the entry as it was left, keeps the address in its list although DNS no
  longer answers it, exactly as long as no more than the retention time has passed.
\<close>
theorem retention_window:
  assumes "db_ok (w_db w1)" and "distinct (keys ips1)" and "0 < j_ttlHours job" and "j_ttlHours job \<le> 2562047"
    and "retainIPs E job ips1 w1 = (Inr m1, w1')" and "ip \<in> set (keys ips1)"
    and "db_ok (w_db w2)" and "distinct (keys ips2)" and "ip \<notin> set (keys ips2)"
    and "cache (w_db w2) (j_id job, ip) = cache (w_db w1') (j_id job, ip)"
    and "retainIPs E job ips2 w2 = (Inr m2, w2')"
    and "rfc3339_range (nowSeconds E w1)" and "rfc3339_range (nowSeconds E w1 - j_ttlHours job * 3600)"
    and "rfc3339_range (nowSeconds E w2 - j_ttlHours job * 3600)"
  shows "ip \<in> set (keys m2) \<longleftrightarrow> nowSeconds E w2 - nowSeconds E w1 \<le> j_ttlHours job * 3600"
proof -
  note ttl = observedIPRetention_seconds [OF assms(3,4)]
  have pos: "0 < observedIPRetention (Some job)" using ttl assms(3) by simp
  have cut: "retention_cutoff job t = rfc3339 (t - j_ttlHours job * 3600)" for t
    by (simp only: retention_cutoff_def ttl [THEN conjunct2])
  have "\<not> rfc3339 (nowSeconds E w1) < rfc3339 (nowSeconds E w1 - j_ttlHours job * 3600)"
    using rfc3339_less_iff [OF assms(12,13)] assms(3) by simp
  then obtain source t0 where seen: "cache (w_db w2) (j_id job, ip) = Some (source, t0, rfc3339 (nowSeconds E w1))"
    using retainIPs_cache [OF assms(1,2) pos assms(5), of "j_id job" ip] assms(6,10)
    by (auto simp: see_def cut split: option.splits)
  have "ip \<in> set (keys m2) \<longleftrightarrow> ip \<in> fresh_ips (w_db w2) (j_id job) (retention_cutoff job (nowSeconds E w2))"
    using retainIPs_exact [OF assms(7,8) pos assms(11)] assms(9)
    by (simp only: retention_cutoff_def Un_iff simp_thms)
  also have "\<dots> \<longleftrightarrow> \<not> rfc3339 (nowSeconds E w1) < rfc3339 (nowSeconds E w2 - j_ttlHours job * 3600)"
    by (simp add: fresh_ips_def seen cut not_less)
  also have "\<dots> \<longleftrightarrow> nowSeconds E w2 - nowSeconds E w1 \<le> j_ttlHours job * 3600"
    using rfc3339_less_iff [OF assms(12,14)] by auto
  finally show ?thesis .
qed

lemma demo_exec:
  "''job_observed_ips'' \<in> set (schema s) \<Longrightarrow> set objs \<subseteq> {''job_observed_ips''} \<Longrightarrow>
   dbExec (demo_db True) objs f s = (case f (dctx (demo_db True) (stmtNo s)) (s\<lparr>stmtNo := Suc (stmtNo s)\<rparr>) of
     (Inl err, _) \<Rightarrow> (Inl err, s\<lparr>stmtNo := Suc (stmtNo s)\<rparr>) | (Inr a, s2) \<Rightarrow> (Inr a, s2))"
  by (rule dbExec_calm) (auto simp: calm_def demo_db_def)

lemma demo_retains:
  assumes "''job_observed_ips'' \<in> set (schema (w_db w))" and "1 \<in> r_id ` set (sync_jobs (w_db w))"
  shows "\<exists>m w'. retainIPs demo_sync demo_sync_job [(ip, a)] w = (Inr m, w') \<and>
    stmtNo (w_db w') = stmtNo (w_db w) + 5"
proof -
  let ?E = "demo_db True" and ?t = "rfc3339 (nowSeconds demo_sync w)" and ?cut = "retention_cutoff demo_sync_job (nowSeconds demo_sync w)"
  have j: "j_id demo_sync_job = 1" "0 < observedIPRetention (Some demo_sync_job)"
    by (simp_all add: demo_sync_job_def observedIPRetention_def durationHours_exact)
  have "\<exists>s1. upsertObservedIPs ?E 1 [(ip, a)] ?t (w_db w) = (Inr (), s1) \<and> schema s1 = schema (w_db w) \<and>
      stmtNo s1 = stmtNo (w_db w) + 3"
    using assms by (cases "\<exists>r \<in> set (job_observed_ips (w_db w)). o_jobID r = 1 \<and> o_ip r = ip")
      (simp_all add: upsertObservedIPs_def demo_exec upsertRow_def Let_def)
  then obtain s1 where 1: "upsertObservedIPs ?E 1 [(ip, a)] ?t (w_db w) = (Inr (), s1)" "schema s1 = schema (w_db w)"
      "stmtNo s1 = stmtNo (w_db w) + 3" by blast
  obtain s2 where 2: "deleteExpiredObservedIPs ?E 1 ?cut s1 = (Inr (), s2)" "schema s2 = schema (w_db w)"
      "stmtNo s2 = stmtNo (w_db w) + 4"
    using assms 1(2,3) by (simp add: deleteExpiredObservedIPs_def demo_exec)
  obtain obs s3 where 3: "listObservedIPs ?E 1 ?cut s2 = (Inr obs, s3)" "stmtNo s3 = stmtNo (w_db w) + 5"
    using assms 2(2,3) by (simp add: listObservedIPs_def dbQuery_def demo_exec)
  show ?thesis
    using 1(1) 2(1) 3 j by (simp add: retainIPs_def withDb_def retention_cutoff_def Let_def)
qed

theorem retention_window_witness:
  "\<exists>m1 m2 w1 w2. retainIPs demo_sync demo_sync_job [(''10.0.0.2'', ''a'')] demo_world = (Inr m1, w1) \<and>
     retainIPs demo_sync demo_sync_job [(''10.0.0.1'', ''a'')] w1 = (Inr m2, w2) \<and> ''10.0.0.2'' \<in> set (keys m2)"
proof -
  let ?a = "[(''10.0.0.2'', ''a'')]" and ?b = "[(''10.0.0.1'', ''a'')]"
  have start: "''job_observed_ips'' \<in> set (schema (w_db demo_world))" "1 \<in> r_id ` set (sync_jobs (w_db demo_world))"
      "stmtNo (w_db demo_world) = 0"
    by (simp_all add: demo_world_def empty_db_def)
  obtain m1 w1 where r1: "retainIPs demo_sync demo_sync_job ?a demo_world = (Inr m1, w1)" and n1: "stmtNo (w_db w1) = 5"
    using demo_retains [OF start(1,2)] start(3) by fastforce
  have "only_cache (w_db demo_world) (w_db w1)" using retainIPs_frame [OF r1] by (rule conjunct1)
  then have "schema (w_db w1) = schema (w_db demo_world)" "sync_jobs (w_db w1) = sync_jobs (w_db demo_world)"
    by (simp_all only: only_cache_def)
  with start obtain m2 w2 where r2: "retainIPs demo_sync demo_sync_job ?b w1 = (Inr m2, w2)"
    using demo_retains [of w1 "''10.0.0.1''" "''a''"] by metis
  have ttl: "j_ttlHours demo_sync_job = 24" by (simp add: demo_sync_job_def)
  then have pos: "0 < observedIPRetention (Some demo_sync_job)" by (simp add: observedIPRetention_seconds)
  have ok1: "db_ok (w_db w1)" using retainIPs_exact [OF demo_world_ok _ pos r1] by simp
  have now: "nowSeconds demo_sync demo_world = 1700000000" "nowSeconds demo_sync w1 = 1700000005"
    using start(3) n1 by (simp_all add: nowSeconds_def demo_db_def)
  have "''10.0.0.2'' \<in> set (keys m2) \<longleftrightarrow>
      nowSeconds demo_sync w1 - nowSeconds demo_sync demo_world \<le> j_ttlHours demo_sync_job * 3600"
    by (rule retention_window [OF demo_world_ok _ _ _ r1 _ ok1 _ _ refl r2])
      (simp_all add: ttl now rfc3339_range_def)
  then show ?thesis using r1 r2 by (auto simp: ttl now)
qed

text \<open>
  A retention time of zero forgets. With it the list is exactly what DNS and the host list
  gave, and after the execution no address of the job is cached, so that none reappears later.
\<close>
theorem retention_off:
  assumes "j_ttlHours job \<le> 0" and "retainIPs E job hostIPs w = (Inr m, w')" and "db_ok (w_db w)"
  shows "m = hostIPs \<and> cache (w_db w') (j_id job, ip) = None"
  using retainIPs_none [OF _ assms(2,3)] assms(1) by (simp add: observedIPRetention_def)

theorem retention_off_witness:
  "\<exists>m w'. retainIPs demo_sync (demo_sync_job\<lparr>j_ttlHours := 0\<rparr>) [(''10.0.0.1'', ''a'')] demo_world = (Inr m, w') \<and>
     m = [(''10.0.0.1'', ''a'')] \<and> cache (w_db w') (1, ''10.0.0.2'') = None"
proof -
  obtain m w' where r: "retainIPs demo_sync (demo_sync_job\<lparr>j_ttlHours := 0\<rparr>) [(''10.0.0.1'', ''a'')] demo_world = (Inr m, w')"
    by (simp add: retainIPs_def withDb_def observedIPRetention_def deleteObservedIPs_def dbExec_def
        demo_world_def demo_db_def Let_def)
  from retention_off [OF _ r demo_world_ok, of "''10.0.0.2''"] r show ?thesis
    by (simp add: demo_sync_job_def)
qed

subsection \<open>The run log\<close>

lemma execute_frame:
  assumes "execute E job w = (r, w')"
  shows "only_cache (w_db w) (w_db w') \<and> w_running w' = w_running w"
  using assms
proof (cases rule: execute_cases)
  case unresolved
  then show ?thesis using resolveJob_frame by fastforce
next
  case (unretained m0 w1)
  from resolveJob_frame [OF this(1)] retainIPs_frame [OF this(2)] show ?thesis
    using only_cache_trans by fastforce
next
  case (pushed m0 w1 m w2)
  from resolveJob_frame [OF this(1)] retainIPs_frame [OF this(2)] pushIPs_contract [OF this(3)] show ?thesis
    using only_cache_trans by metis
qed

text \<open>No statement fails, and the tables a run needs are there.\<close>

definition db_calm :: "dbenv \<Rightarrow> db \<Rightarrow> bool" where
  "db_calm E s \<longleftrightarrow> (\<forall>n. fault (dctx E n) = None) \<and>
     {''controllers'', ''sync_jobs'', ''sync_jobs.observed_ip_ttl_hours'', ''run_logs''} \<subseteq> set (schema s)"

lemma db_calm_exec: "db_calm E s \<Longrightarrow>
    set objs \<subseteq> {''controllers'', ''sync_jobs'', ''sync_jobs.observed_ip_ttl_hours'', ''run_logs''} \<Longrightarrow>
    dbExec E objs f s = (case f (dctx E (stmtNo s)) (s\<lparr>stmtNo := Suc (stmtNo s)\<rparr>) of
      (Inl err, _) \<Rightarrow> (Inl err, s\<lparr>stmtNo := Suc (stmtNo s)\<rparr>) | (Inr a, s2) \<Rightarrow> (Inr a, s2))"
  by (rule dbExec_calm) (auto simp: db_calm_def calm_def)

definition finished_log :: "int \<Rightarrow> int \<Rightarrow> string \<Rightarrow> string \<Rightarrow> SyncResult \<Rightarrow> RunLog" where
  "finished_log i jobID started finished r =
     \<lparr>l_id = i, l_jobID = jobID, l_startedAt = started, l_finishedAt = Some finished, l_status = sr_status r,
      l_message = sr_message r, l_changesMade = int (sr_changesMade r), l_details = sr_details r\<rparr>"

lemma getJob_calm:
  assumes "db_calm E s" and "jobID \<in> r_id ` set (sync_jobs s)"
  shows "\<exists>job. getJob E jobID s = (Inr job, s\<lparr>stmtNo := Suc (stmtNo s)\<rparr>)"
proof -
  obtain r rest where "filter (\<lambda>j. r_id j = jobID) (sync_jobs s) = r # rest"
    using assms(2) by (cases "filter (\<lambda>j. r_id j = jobID) (sync_jobs s)") (auto simp: filter_empty_conv)
  then show ?thesis
    using assms(1) by (simp add: getJob_def dbQuery_def db_calm_exec)
qed

lemma createRunLog_calm:
  assumes "db_calm E s" and "l_jobID l \<in> r_id ` set (sync_jobs s)" and "logSeq s < maxInt64"
  shows "createRunLog E l s = (Inr (logSeq s + 1), s\<lparr>stmtNo := Suc (stmtNo s),
    run_logs := run_logs s @ [l\<lparr>l_id := logSeq s + 1, l_finishedAt := None\<rparr>], logSeq := logSeq s + 1\<rparr>)"
  using assms by (simp add: createRunLog_def db_calm_exec nextId_def)

lemma updateRunLog_calm:
  "db_calm E s \<Longrightarrow> updateRunLog E l s = (Inr (), s\<lparr>stmtNo := Suc (stmtNo s), run_logs := map (\<lambda>r.
      if l_id r = l_id l
      then r\<lparr>l_finishedAt := l_finishedAt l, l_status := l_status l, l_message := l_message l,
             l_changesMade := l_changesMade l, l_details := l_details l\<rparr>
      else r) (run_logs s)\<rparr>)"
  by (simp add: updateRunLog_def db_calm_exec)

lemma updateJobLastRun_calm:
  "db_calm E s \<Longrightarrow> updateJobLastRun E i t msg s = (Inr (), s\<lparr>stmtNo := Suc (stmtNo s), sync_jobs := map (\<lambda>r.
      if r_id r = i then r\<lparr>r_lastRunAt := Some t, r_lastResult := Some msg, r_updatedAt := t\<rparr> else r) (sync_jobs s)\<rparr>)"
  by (simp add: updateJobLastRun_def db_calm_exec)

lemma db_calm_schema: "db_calm E s \<Longrightarrow> schema s' = schema s \<Longrightarrow> db_calm E s'"
  by (simp add: db_calm_def)

lemma set_map_selected:
  "j \<in> set (map (\<lambda>j. if rid j = i then f j else j) xs) \<Longrightarrow> rid j = i \<Longrightarrow> (\<And>j. P (f j)) \<Longrightarrow> P j"
  by auto

lemma runJob_logged:
  assumes ok: "db_ok (w_db w)" and calm: "db_calm (e_db E) (w_db w)" and room: "logSeq (w_db w) < maxInt64"
    and job: "jobID \<in> r_id ` set (sync_jobs (w_db w))"
    and run: "runJob E jobID w = (r, w')"
  shows "\<exists>started finished.
    run_logs (w_db w') = run_logs (w_db w) @ [finished_log (logSeq (w_db w) + 1) jobID started finished r] \<and>
    map r_id (sync_jobs (w_db w')) = map r_id (sync_jobs (w_db w)) \<and>
    (\<forall>j \<in> set (sync_jobs (w_db w')). r_id j = jobID \<longrightarrow> r_lastRunAt j = Some finished \<and>
       r_lastResult j = Some (sr_status r @ '': '' @ sr_message r)) \<and> w_running w' = w_running w"
proof -
  let ?s = "w_db w" and ?i = "logSeq (w_db w) + 1"
  obtain sj where g: "getJob (e_db E) jobID ?s = (Inr sj, ?s\<lparr>stmtNo := Suc (stmtNo ?s)\<rparr>)"
    using getJob_calm [OF calm job] by blast
  define s1 where "s1 = ?s\<lparr>stmtNo := Suc (stmtNo ?s)\<rparr>"
  define started where "started = rfc3339 (nowSeconds E (w\<lparr>w_db := s1\<rparr>))"
  define new where "new = \<lparr>l_id = 0, l_jobID = jobID, l_startedAt = started, l_finishedAt = None,
    l_status = ''running'', l_message = [], l_changesMade = 0, l_details = []\<rparr>"
  define s2 where "s2 = s1\<lparr>stmtNo := Suc (stmtNo s1), run_logs := run_logs s1 @ [new\<lparr>l_id := ?i, l_finishedAt := None\<rparr>],
    logSeq := ?i\<rparr>"
  have s1: "schema s1 = schema ?s" "sync_jobs s1 = sync_jobs ?s" "logSeq s1 = logSeq ?s" "run_logs s1 = run_logs ?s"
    by (simp_all add: s1_def)
  have c: "createRunLog (e_db E) new s1 = (Inr ?i, s2)"
    using createRunLog_calm [OF db_calm_schema [OF calm s1(1)], of new] job room by (simp add: s1 s2_def new_def)
  obtain w3 where e: "execute E sj (w\<lparr>w_db := s2\<rparr>) = (r, w3)" and
    w': "w' = w3\<lparr>w_db := snd (updateJobLastRun (e_db E) jobID (rfc3339 (nowSeconds E w3))
        (sr_status r @ '': '' @ sr_message r) (snd (updateRunLog (e_db E)
          (finished_log ?i jobID started (rfc3339 (nowSeconds E w3)) r) (w_db w3))))\<rparr>"
    using run by (auto simp: runJob_def withDb_def g Let_def s1_def [symmetric] started_def [symmetric]
        new_def [symmetric] c split: prod.splits) (auto simp: finished_log_def new_def)
  have f: "only_cache s2 (w_db w3)" "w_running w3 = w_running w"
    using execute_frame [OF e] by simp_all
  then have w3: "schema (w_db w3) = schema ?s" "sync_jobs (w_db w3) = sync_jobs ?s"
      "run_logs (w_db w3) = run_logs ?s @ [new\<lparr>l_id := ?i, l_finishedAt := None\<rparr>]"
    by (simp_all add: only_cache_def s2_def s1)
  have fresh: "\<forall>l \<in> set (run_logs ?s). l_id l \<noteq> ?i" using ok by (auto simp: db_ok_def ids_ok_def)
  note calm3 = db_calm_schema [OF calm w3(1)]
  let ?fin = "rfc3339 (nowSeconds E w3)"
  let ?log = "finished_log ?i jobID started ?fin r"
  define s4 where "s4 = snd (updateRunLog (e_db E) ?log (w_db w3))"
  define s5 where "s5 = snd (updateJobLastRun (e_db E) jobID ?fin (sr_status r @ '': '' @ sr_message r) s4)"
  have s4: "run_logs s4 = run_logs ?s @ [?log]" "schema s4 = schema ?s" "sync_jobs s4 = sync_jobs ?s"
    using fresh w3 unfolding s4_def updateRunLog_calm [OF calm3]
    by (auto simp: finished_log_def new_def intro!: map_idI)
  let ?f = "\<lambda>j. if r_id j = jobID then j\<lparr>r_lastRunAt := Some ?fin,
      r_lastResult := Some (sr_status r @ '': '' @ sr_message r), r_updatedAt := ?fin\<rparr> else j"
  have s5_eq: "s5 = s4\<lparr>stmtNo := Suc (stmtNo s4), sync_jobs := map ?f (sync_jobs s4)\<rparr>"
    unfolding s5_def updateJobLastRun_calm [OF db_calm_schema [OF calm s4(2)]] by (rule snd_conv)
  have s5: "run_logs s5 = run_logs s4" "map r_id (sync_jobs s5) = map r_id (sync_jobs s4)"
    unfolding s5_eq by simp_all
  have s5_sj: "sync_jobs s5 = map ?f (sync_jobs s4)" unfolding s5_eq by simp
  have s5_jobs: "\<forall>j \<in> set (sync_jobs s5). r_id j = jobID \<longrightarrow> r_lastRunAt j = Some ?fin \<and>
       r_lastResult j = Some (sr_status r @ '': '' @ sr_message r)"
  proof (intro ballI impI)
    fix j assume "j \<in> set (sync_jobs s5)" and j: "r_id j = jobID"
    then show "r_lastRunAt j = Some ?fin \<and> r_lastResult j = Some (sr_status r @ '': '' @ sr_message r)"
      unfolding s5_sj by (rule set_map_selected) simp
  qed
  have "w_db w' = s5" "w_running w' = w_running w" using f(2) by (simp_all add: w' s4_def s5_def)
  then show ?thesis
    using s4 s5 s5_jobs by (intro exI [of _ started] exI [of _ ?fin]) simp
qed

text \<open>
  C4: Every run leaves its record. When the statements on the database do not fail, a run of an
  existing job that is not already running adds exactly one row to the run log, under the next
  number, with the status, message, number of changes and details of the result it returns and
  both its times set; the job's last run and last result say the same; and the job is not marked
  as running any more. A run of a job that is running is skipped and changes nothing at all.
\<close>
theorem run_recorded:
  assumes "db_ok (w_db w)" and "db_calm (e_db E) (w_db w)" and "logSeq (w_db w) < maxInt64"
    and "jobID \<in> r_id ` set (sync_jobs (w_db w))" and "run E jobID w = (r, w')"
  shows "if jobID \<in> set (w_running w) then sr_status r = ''skipped'' \<and> w' = w
    else \<exists>started finished.
      run_logs (w_db w') = run_logs (w_db w) @ [finished_log (logSeq (w_db w) + 1) jobID started finished r] \<and>
      map r_id (sync_jobs (w_db w')) = map r_id (sync_jobs (w_db w)) \<and>
      (\<forall>j \<in> set (sync_jobs (w_db w')). r_id j = jobID \<longrightarrow> r_lastRunAt j = Some finished \<and>
         r_lastResult j = Some (sr_status r @ '': '' @ sr_message r)) \<and> w_running w' = w_running w"
proof (cases "jobID \<in> set (w_running w)")
  case False
  obtain w1 where 1: "runJob E jobID (w\<lparr>w_running := jobID # w_running w\<rparr>) = (r, w1)"
    and w': "w' = w1\<lparr>w_running := removeAll jobID (w_running w1)\<rparr>"
    using assms(5) False by (auto simp: run_def split: prod.splits)
  have "removeAll jobID (w_running w) = w_running w" using False by simp
  note rest = this
  from runJob_logged [OF _ _ _ _ 1] assms(1-4) obtain started finished where
    "run_logs (w_db w1) = run_logs (w_db w) @ [finished_log (logSeq (w_db w) + 1) jobID started finished r]"
    "map r_id (sync_jobs (w_db w1)) = map r_id (sync_jobs (w_db w))"
    "\<forall>j \<in> set (sync_jobs (w_db w1)). r_id j = jobID \<longrightarrow> r_lastRunAt j = Some finished \<and>
       r_lastResult j = Some (sr_status r @ '': '' @ sr_message r)" "w_running w1 = jobID # w_running w"
    by auto
  then show ?thesis
    unfolding if_not_P [OF False] w' using rest
    by (intro exI [of _ started] exI [of _ finished]) simp
qed (use assms(5) in \<open>auto simp: run_def\<close>)

theorem run_recorded_witness:
  "\<exists>r w'. run demo_sync 1 demo_world = (r, w') \<and> length (run_logs (w_db w')) = 1"
proof -
  obtain r w' where r: "run demo_sync 1 demo_world = (r, w')" by fastforce
  have "db_calm (e_db demo_sync) (w_db demo_world)" "logSeq (w_db demo_world) < maxInt64"
    "1 \<in> r_id ` set (sync_jobs (w_db demo_world))" "run_logs (w_db demo_world) = []" "w_running demo_world = []"
    by (simp_all add: demo_world_def db_calm_def demo_db_def empty_db_def maxInt64_def)
  with run_recorded [OF demo_world_ok _ _ _ r] r show ?thesis by auto
qed

end
