(* ===== verification/Sync_Converge.thy ===== *)
theory Sync_Converge
  imports Syncer_Props
begin

text \<open>
  Syncing converges: against a controller that keeps the list it is given, a push that succeeded
  leaves the list with exactly the addresses it was made for, and the next one writes nothing.
\<close>

declare foldName.simps [simp del]

subsection \<open>A controller that keeps what it is given\<close>

definition list_url :: "string \<Rightarrow> string \<Rightarrow> string \<Rightarrow> bool" where
  "list_url base listID url \<longleftrightarrow>
     hasPrefix url base \<and> hasSuffix (drop (length base) url) (''/traffic-matching-lists/'' @ listID)"

definition writes_list :: "string \<Rightarrow> string \<Rightarrow> http_ev \<Rightarrow> bool" where
  "writes_list base listID e \<longleftrightarrow>
     (\<exists>h \<in> set (he_hops e). rq_method (hp_request h) \<noteq> ''GET'' \<and> list_url base listID (rq_url (hp_request h)))"

definition ascii_item :: "TrafficMatchItem \<Rightarrow> bool" where
  "ascii_item it \<longleftrightarrow> is_ascii (it_type it @ it_value it @ it_start it @ it_stop it)"

text \<open>
  \<open>stored\<close> is what the controller at \<open>base\<close> has as the items of the list after
  a history of calls. It answers requests for the list itself, without redirecting them; it answers a
  read with its number and these items; nothing but a request to write the list changes them, and one
  that it accepted replaces them by those it was sent.
\<close>

definition answers_list :: "http_env \<Rightarrow> string \<Rightarrow> string \<Rightarrow> bool" where
  "answers_list H base listID \<longleftrightarrow>
     (\<forall>tr hops skip req resp. list_url base listID (rq_url req) \<and> send H tr hops skip req = Inr resp \<longrightarrow>
        redirectBehavior (rq_method req) (rs_status resp) = None \<or> rs_location resp = [])"

definition direct :: "http_ev \<Rightarrow> bool" where
  "direct e \<longleftrightarrow> he_hops e = [\<lparr>hp_request = he_request e, hp_result = he_result e\<rparr>]"

definition keeps_list :: "http_env \<Rightarrow> string \<Rightarrow> string \<Rightarrow> (http_trace \<Rightarrow> TrafficMatchItem list) \<Rightarrow> bool" where
  "keeps_list H base listID stored \<longleftrightarrow> answers_list H base listID \<and>
     (\<forall>tr skip req resp body v. rq_method req = ''GET'' \<and> list_url base listID (rq_url req) \<and>
        send H tr [] skip req = Inr resp \<and> 200 \<le> rs_status resp \<and> rs_status resp < 300 \<and>
        rs_body resp = Inr body \<and> parseJSON H body = Inr v \<longrightarrow>
        (\<exists>obj vs. v = JObj obj \<and> members ''id'' obj = [JStr listID] \<and> members ''items'' obj = [JArr vs] \<and>
           unmarshalAll (unmarshalItem H) vs = Inr (stored tr))) \<and>
     (\<forall>tr e. \<not> writes_list base listID e \<longrightarrow> stored (tr @ [e]) = stored tr) \<and>
     (\<forall>tr e up payload. writes_list base listID e \<and> direct e \<and> rq_method (he_request e) = ''PUT'' \<and>
        accepted e \<and> rq_body (he_request e) = Some payload \<and> marshalUpdate H up = Inr payload \<and>
        (\<forall>it \<in> set (up_items up). ascii_item it) \<longrightarrow> stored (tr @ [e]) = up_items up)"

lemma keeps_frame: "keeps_list H base i stored \<Longrightarrow> \<not> writes_list base i e \<Longrightarrow> stored (tr @ [e]) = stored tr"
  unfolding keeps_list_def by blast

lemma stored_frame:
  assumes "keeps_list H base i stored"
  shows "\<forall>e \<in> set evs. \<not> writes_list base i e \<Longrightarrow> stored (tr @ evs) = stored tr"
proof (induction evs rule: rev_induct)
  case (snoc e evs)
  moreover have "stored ((tr @ evs) @ [e]) = stored (tr @ evs)"
    by (rule keeps_frame [OF assms]) (use snoc.prems in simp)
  ultimately show ?case by simp
qed simp

lemma read_not_write: "is_read H c e \<Longrightarrow> \<not> writes_list base i e"
  by (auto simp: is_read_def bare_get_def writes_list_def)

lemma reads_stored:
  "keeps_list H base i stored \<Longrightarrow> reads H' n c tr c' tr' \<Longrightarrow> stored tr' = stored tr"
  by (auto simp: reads_def read_not_write intro!: stored_frame [of H base i])

lemma list_url_path: "list_url (cl_baseURL c) i (cl_baseURL c @ listPath c' sid i)"
proof -
  have "hasSuffix (xs @ ys) ys" for xs ys by (simp add: hasSuffix_def)
  from this [of "cl_apiBase c' @ ''/sites/'' @ sid" "''/traffic-matching-lists/'' @ i"] show ?thesis
    by (simp only: list_url_def listPath_def hasPrefix_def append_assoc) simp
qed

lemma direct_call:
  assumes "answers_list H base i" and "list_url base i (rq_url req)"
  shows "\<exists>r hops. clientDo H tr skip req True req [] = (r, hops) \<and>
    (\<forall>resp. r = Inr resp \<longrightarrow> send H tr [] skip req = Inr resp)"
proof (cases "send H tr [] skip req")
  case (Inr resp)
  then have "redirectBehavior (rq_method req) (rs_status resp) = None \<or> rs_location resp = []"
    using assms unfolding answers_list_def by blast
  with Inr show ?thesis by (subst clientDo.simps) (auto simp: Let_def split: option.splits)
qed (subst clientDo.simps, simp add: Let_def)

lemma direct_event:
  assumes "answers_list H base i" and "call H c e" and "list_url base i (rq_url (he_request e))" and "accepted e"
  shows "direct e"
proof -
  obtain h hops where e: "he_hops e = h # hops" using assms(2) by (cases "he_hops e") (auto simp: call_def)
  then have h: "hp_request h = he_request e" "sent_by H (cl_apiKey c) (cl_skipTLSVerify c) h"
    using assms(2) by (simp_all add: call_def)
  have "hops = []"
  proof (rule ccontr)
    assume "hops \<noteq> []"
    then have "follows_hop H h (hd hops)" using assms(2) e by (cases hops) (auto simp: call_def successively_Cons)
    then obtain resp keep where "hp_result h = Inr resp" "rs_location resp \<noteq> []"
      "redirectBehavior (rq_method (he_request e)) (rs_status resp) = Some keep"
      unfolding follows_hop_def h(1) by blast
    with assms(1,3) h show False unfolding answers_list_def sent_by_def by (metis option.distinct(1))
  qed
  moreover have "hp_result (last (he_hops e)) = he_result e"
    using assms(2,4) by (auto simp: call_def accepted_def)
  ultimately show ?thesis using e h(1) by (cases h) (simp add: direct_def)
qed

lemma doRequest_answer:
  assumes "doRequest H c m p b tr = (Inr body, tr')" and "answers_list H base i" and "list_url base i (cl_baseURL c @ p)"
  shows "\<exists>resp. send H tr [] (cl_skipTLSVerify c) (mkRequest c m p b) = Inr resp \<and> 200 \<le> rs_status resp \<and>
    rs_status resp < 300 \<and> rs_body resp = Inr body"
proof -
  obtain r hops where d: "clientDo H tr (cl_skipTLSVerify c) (mkRequest c m p b) True (mkRequest c m p b) [] = (r, hops)"
    "\<forall>resp. r = Inr resp \<longrightarrow> send H tr [] (cl_skipTLSVerify c) (mkRequest c m p b) = Inr resp"
    using direct_call [OF assms(2), of "mkRequest c m p b"] assms(3) by (fastforce simp: mkRequest_def)
  show ?thesis
    using assms(1) [unfolded doRequest_def mkRequest_def [symmetric] Let_def d(1) prod.case] d(2)
    by (auto split: if_splits option.splits sum.splits)
qed

lemma getNetworkList_stored:
  assumes k: "keeps_list H (cl_baseURL c) i stored" and g: "getNetworkList H c i tr = ((Inr nl, c'), tr')"
  shows "nl_items nl = stored tr \<and> nl_id nl = i"
proof -
  obtain sid c1 tr1 where s: "resolveSiteID H c tr = ((Inr sid, c1), tr1)"
    using g by (auto simp: getNetworkList_def split: prod.splits sum.splits)
  obtain body tr2 v where d: "doRequest H c1 ''GET'' (listPath c1 sid i) None tr1 = (Inr body, tr2)"
    and v: "parseJSON H body = Inr v" "unmarshalNetworkList H v = Inr nl"
    using g s by (auto simp: getNetworkList_def split: prod.splits sum.splits)
  note t = resolveSiteID_reads [OF s]
  have base: "cl_baseURL c1 = cl_baseURL c" using t by (simp add: reads_def same_client_def)
  obtain resp where r: "send H tr1 [] (cl_skipTLSVerify c1) (mkRequest c1 ''GET'' (listPath c1 sid i) None) = Inr resp"
    "200 \<le> rs_status resp" "rs_status resp < 300" "rs_body resp = Inr body"
    using doRequest_answer [OF d, of "cl_baseURL c" i] k list_url_path [of c1 i c1 sid] base by (auto simp: keeps_list_def)
  have q: "rq_method (mkRequest c1 ''GET'' (listPath c1 sid i) None) = ''GET''"
    "list_url (cl_baseURL c) i (rq_url (mkRequest c1 ''GET'' (listPath c1 sid i) None))"
    using list_url_path [of c1 i c1 sid] by (simp_all add: mkRequest_def base)
  obtain obj vs where o: "v = JObj obj" "members ''id'' obj = [JStr i]" "members ''items'' obj = [JArr vs]"
      "unmarshalAll (unmarshalItem H) vs = Inr (stored tr1)"
    using k q r v(1) unfolding keeps_list_def by blast
  then have "nl_items nl = stored tr1 \<and> nl_id nl = i"
    using v(2) o by (auto simp: unmarshalNetworkList_def stringField_def split: sum.splits)
  then show ?thesis using reads_stored [OF k t] by simp
qed

subsection \<open>Pushing\<close>

definition address_text :: "string \<Rightarrow> bool" where
  "address_text ip \<longleftrightarrow> (\<forall>c \<in> set ip. is_digit c \<or> c = CHR ''.'' \<or> c = CHR ''/'')"

lemma ascii_address: "address_text ip \<Longrightarrow> is_ascii ip"
proof -
  have "code c < 128" if "is_digit c \<or> c = CHR ''.'' \<or> c = CHR ''/''" for c
    using that by (auto simp: is_digit_def) (simp_all add: code_def)
  then show "address_text ip \<Longrightarrow> is_ascii ip" by (simp add: address_text_def is_ascii_def)
qed

lemma ascii_ipsToItems: "\<forall>ip \<in> set ips. address_text ip \<Longrightarrow> \<forall>it \<in> set (ipsToItems ips). ascii_item it"
proof -
  have "is_ascii ''SUBNET''" "is_ascii ''IP_ADDRESS''" "is_ascii []" by code_simp+
  moreover have "is_ascii (xs @ ys) \<longleftrightarrow> is_ascii xs \<and> is_ascii ys" for xs ys by (auto simp: is_ascii_def)
  ultimately show "\<forall>ip \<in> set ips. address_text ip \<Longrightarrow> \<forall>it \<in> set (ipsToItems ips). ascii_item it"
    by (auto simp: ipsToItems_def ipToItem_def ascii_item_def ascii_address)
qed

lemma pushIPs_stored:
  assumes p: "pushIPs E job m w = (r, w')" "sr_status r = ''success''"
    and c: "client_for E job (w_db w) c" and k: "keeps_list (e_http E) (cl_baseURL c) (j_networkListID job) stored"
    and addrs: "\<forall>ip \<in> fst ` set m. address_text ip" and order: "mset (e_order E (keys m)) = mset (keys m)"
  shows "set (extractIPsFromItems (stored (w_http w'))) = fst ` set m"
proof -
  obtain ctrl s where g: "getController (e_db E) (j_controllerID job) (w_db w) = (Inr ctrl, s)"
    "newClient (e_http E) (c_url ctrl) (c_site ctrl) (c_apiKey ctrl) (c_skipTLSVerify ctrl) = Inr c"
    using c by (auto simp: client_for_def)
  define ips where "ips = sortedIPs (e_order E) m"
  have ips: "set ips = fst ` set m" using set_sortedIPs [of "e_order E" m] order by (simp add: ips_def)
  obtain b c1 tr1 where n: "getNetworkList (e_http E) c (j_networkListID job) (w_http w) = ((b, c1), tr1)"
    by (metis prod.exhaust)
  note q = p(1) [unfolded pushIPs_def withDb_def g(1) prod.case sum.case g(2) ips_def [symmetric]]
  obtain nl where nl: "b = Inr nl" using q p(2) n by (cases b) (auto simp: errorResult_def)
  note st = getNetworkList_stored [OF k n [unfolded nl]]
  note rd = getNetworkList_trace [OF n]
  obtain added removed kept where
    d: "diffIPs (sort (extractIPsFromItems (nl_items nl))) ips = (added, removed, kept)"
    by (metis prod.exhaust)
  show ?thesis
  proof (cases "added = [] \<and> removed = []")
    case True
    then have "w_http w' = tr1" using q n nl d by (auto simp: Let_def)
    moreover have "set (extractIPsFromItems (nl_items nl)) = set ips" using diffIPs_empty [OF d] True by blast
    ultimately show ?thesis using st reads_stored [OF k rd] ips by simp
  next
    case False
    obtain o1 c2 tr2 where
      u: "updateNetworkList (e_http E) c1 (nl\<lparr>nl_items := ipsToItems ips\<rparr>) tr1 = ((o1, c2), tr2)"
      by (metis prod.exhaust)
    have o1: "o1 = Inr ()" "w_http w' = tr2"
      using q n nl d False u p(2) by (cases o1; auto simp: Let_def errorResult_def)+
    from updateNetworkList_contract [OF u] o1 obtain tr3 payload sid e where
      e: "tr2 = tr3 @ [e]" "accepted e" "request_by c1 ''PUT'' (listPath c2 sid (nl_id nl)) (Some payload) e"
      "marshalUpdate (e_http E) \<lparr>up_type = nl_type nl, up_name = nl_name nl, up_items = ipsToItems ips\<rparr> = Inr payload"
      "call (e_http E) c1 e"
      by auto
    have "cl_baseURL c1 = cl_baseURL c" using rd by (simp add: reads_def same_client_def)
    then have rq: "list_url (cl_baseURL c) (j_networkListID job) (rq_url (he_request e))"
      "rq_method (he_request e) = ''PUT''" "rq_body (he_request e) = Some payload"
      using e(3) st list_url_path [of c "j_networkListID job" c2 sid]
      by (simp_all add: request_by_def mkRequest_def)
    have "direct e"
      by (rule direct_event [OF _ e(5) rq(1) e(2)]) (use k in \<open>simp add: keeps_list_def\<close>)
    moreover from this rq have "writes_list (cl_baseURL c) (j_networkListID job) e"
      by (simp add: writes_list_def direct_def)
    ultimately have "writes_list (cl_baseURL c) (j_networkListID job) e" "direct e" by simp_all
    note this rq(2,3)
    moreover have "\<forall>it \<in> set (ipsToItems ips). ascii_item it" using ascii_ipsToItems addrs ips by blast
    ultimately have "stored (tr3 @ [e]) = ipsToItems ips"
      using k e(2,4) unfolding keeps_list_def by (metis networkListUpdate.select_convs(3))
    then show ?thesis using o1(2) e(1) ips by (simp add: extract_ipsToItems)
  qed
qed

text \<open>
  C6: Syncing converges. Against a controller that keeps the items it is sent, a push that
  succeeded leaves the list with exactly its addresses; and as long as nothing else writes
  the list, pushing the same addresses again, in a later state of the program and with whatever
  labels, writes nothing and reports no change.
\<close>
theorem push_converges:
  assumes keeps: "keeps_list (e_http E) (cl_baseURL c) (j_networkListID job) stored"
    and order: "\<forall>xs. mset (e_order E xs) = mset xs" and addrs: "\<forall>ip \<in> fst ` set m. address_text ip"
    and first: "pushIPs E job m w = (r, w1)" "sr_status r = ''success''" "client_for E job (w_db w) c"
    and quiet: "w_http w2 = w_http w1 @ evs"
      "\<forall>e \<in> set evs. \<not> writes_list (cl_baseURL c) (j_networkListID job) e"
    and second: "pushIPs E job m2 w2 = (r2, w3)" "client_for E job (w_db w2) c" "fst ` set m2 = fst ` set m"
  shows "set (extractIPsFromItems (stored (w_http w1))) = fst ` set m \<and> sr_changesMade r2 = 0 \<and>
    (\<exists>rs. w_http w3 = w_http w2 @ rs \<and> length rs \<le> 7 \<and> (\<forall>e \<in> set rs. is_read (e_http E) c e))"
proof -
  have at1: "set (extractIPsFromItems (stored (w_http w1))) = fst ` set m"
    using pushIPs_stored [OF first(1,2,3) keeps addrs] order by blast
  then have at2: "set (extractIPsFromItems (stored (w_http w2))) = fst ` set m"
    using stored_frame [OF keeps quiet(2)] quiet(1) by simp
  have ips: "set (sortedIPs (e_order E) m2) = fst ` set m"
    using set_sortedIPs [of "e_order E" m2] order second(3) by simp
  obtain ctrl s where g: "getController (e_db E) (j_controllerID job) (w_db w2) = (Inr ctrl, s)"
    "newClient (e_http E) (c_url ctrl) (c_site ctrl) (c_apiKey ctrl) (c_skipTLSVerify ctrl) = Inr c"
    using second(2) by (auto simp: client_for_def)
  from conjunct1 [OF pushIPs_requests [OF second(1) g]] obtain rs put where
    t: "w_http w3 = w_http w2 @ rs @ put" "length rs \<le> 7" "push_outcome (sortedIPs (e_order E) m2) r2 put"
      "\<forall>e \<in> set rs. is_read (e_http E) c e" "\<forall>e \<in> set put. put_of E c job (w_http w2) (sortedIPs (e_order E) m2) e"
    unfolding push_requests_def by blast
  have "put = []"
  proof (rule ccontr)
    assume "put \<noteq> []"
    then obtain e where "put_of E c job (w_http w2) (sortedIPs (e_order E) m2) e" using t(5) by (cases put) auto
    then show False using getNetworkList_stored [OF keeps] at2 ips unfolding put_of_def by metis
  qed
  then show ?thesis using at1 t by (auto simp: push_outcome_def)
qed

text \<open>A controller for the witness, that keeps one list.\<close>

definition kept_update :: networkListUpdate where
  "kept_update = \<lparr>up_type = ''IPV4_ADDRESSES'', up_name = ''allow'', up_items = ipsToItems [''10.0.0.1'']\<rparr>"

definition keeper_items :: "http_trace \<Rightarrow> TrafficMatchItem list" where
  "keeper_items tr = (if \<exists>e \<in> set tr. writes_list ''https://unifi'' ''L1'' e \<and>
     rq_body (he_request e) = Some ''update'' then up_items kept_update else [])"

definition kept_list :: "TrafficMatchItem list \<Rightarrow> (string \<times> json) list" where
  "kept_list items = [(''id'', JStr ''L1''), (''name'', JStr ''allow''), (''type'', JStr ''IPV4_ADDRESSES''),
     (''items'', JArr (map itemJSON items))]"

definition keeper :: http_env where
  "keeper = demo_http\<lparr>
     send := (\<lambda>tr hops skip req. Inr \<lparr>rs_status = 200, rs_contentType = ''application/json'', rs_location = [],
       rs_body = Inr (if list_url ''https://unifi'' ''L1'' (rq_url req)
         then (if keeper_items tr = [] then ''empty'' else ''full'') else ''page'')\<rparr>),
     parseJSON := (\<lambda>body. if body = ''page''
       then Inr (JObj [(''data'', JArr [JObj [(''id'', JStr ''s1''), (''name'', JStr ''default'')]])])
       else Inr (JObj (kept_list (if body = ''empty'' then [] else up_items kept_update)))),
     renderJSON := (\<lambda>v. if v = updateJSON kept_update then Inr ''update'' else Inl ''not rendered'')\<rparr>"

definition keeper_sync :: sync_env where
  "keeper_sync = demo_sync\<lparr>e_http := keeper\<rparr>"

definition keeper_client :: Client where
  "keeper_client = demo_client\<lparr>cl_site := []\<rparr>"

lemma keeper_pushes:
  "(case pushIPs keeper_sync demo_sync_job [(''10.0.0.1'', ''host'')] demo_world of (r, w) \<Rightarrow>
     sr_changesMade r = 1 \<and> sr_status r = ''success'' \<and>
     fst (getController (e_db keeper_sync) (j_controllerID demo_sync_job) (w_db w)) = Inr (demo_controller\<lparr>c_id := 1\<rparr>)) \<and>
   fst (getController (e_db keeper_sync) (j_controllerID demo_sync_job) (w_db demo_world)) = Inr (demo_controller\<lparr>c_id := 1\<rparr>) \<and>
   newClient keeper ''https://unifi'' [] ''k'' False = Inr keeper_client"
  by code_simp

lemma keeper_render: "marshalUpdate keeper up = Inr payload \<Longrightarrow> updateJSON up = updateJSON kept_update \<and> payload = ''update''"
  by (simp add: keeper_def marshalUpdate_def split: if_split_asm)

lemma keeper_read:
  assumes "list_url ''https://unifi'' ''L1'' (rq_url req)" and "send keeper tr [] skip req = Inr resp" and "rs_body resp = Inr body"
  shows "parseJSON keeper body = Inr (JObj (kept_list (keeper_items tr)))"
proof -
  have "body = (if keeper_items tr = [] then ''empty'' else ''full'')" using assms by (auto simp: keeper_def)
  moreover have "keeper_items tr \<noteq> [] \<Longrightarrow> keeper_items tr = up_items kept_update" by (simp add: keeper_items_def split: if_split_asm)
  ultimately show ?thesis by (simp add: keeper_def)
qed

lemma kept_members:
  "members ''id'' (kept_list items) = [JStr ''L1'']" "members ''items'' (kept_list items) = [JArr (map itemJSON items)]"
  by (simp_all add: members_def kept_list_def folded_names)

lemma keeper_keeps: "keeps_list keeper ''https://unifi'' ''L1'' keeper_items"
  unfolding keeps_list_def
proof (intro conjI allI impI; (elim conjE)?)
  show "answers_list keeper ''https://unifi'' ''L1''" by (auto simp: answers_list_def keeper_def)
next
  fix tr skip req resp body v
  assume a: "list_url ''https://unifi'' ''L1'' (rq_url req)" "send keeper tr [] skip req = Inr resp"
    "rs_body resp = Inr body" "parseJSON keeper body = Inr v"
  then have "v = JObj (kept_list (keeper_items tr))" using keeper_read by fastforce
  then show "\<exists>obj vs. v = JObj obj \<and> members ''id'' obj = [JStr ''L1''] \<and>
      members ''items'' obj = [JArr vs] \<and> unmarshalAll (unmarshalItem keeper) vs = Inr (keeper_items tr)"
    using kept_members unmarshal_items by blast
next
  fix tr e
  assume "\<not> writes_list ''https://unifi'' ''L1'' e"
  then show "keeper_items (tr @ [e]) = keeper_items tr" by (simp add: keeper_items_def)
next
  fix tr e up payload
  assume a: "writes_list ''https://unifi'' ''L1'' e" "rq_body (he_request e) = Some payload" "marshalUpdate keeper up = Inr payload"
  have "up_items up = up_items kept_update" "payload = ''update''"
    using keeper_render [OF a(3)] updateJSON_items by blast+
  then show "keeper_items (tr @ [e]) = up_items up" using a(1,2) by (simp add: keeper_items_def)
qed

theorem push_converges_witness:
  "case pushIPs keeper_sync demo_sync_job [(''10.0.0.1'', ''host'')] demo_world of (r, w) \<Rightarrow>
     sr_changesMade r = 1 \<and> sr_changesMade (fst (pushIPs keeper_sync demo_sync_job [(''10.0.0.1'', ''other'')] w)) = 0"
proof -
  let ?ip = "''10.0.0.1''"
  obtain r w where p: "pushIPs keeper_sync demo_sync_job [(?ip, ''host'')] demo_world = (r, w)" by fastforce
  obtain r2 w3 where p2: "pushIPs keeper_sync demo_sync_job [(?ip, ''other'')] w = (r2, w3)" by fastforce
  note k = keeper_pushes [unfolded p prod.case]
  have c: "client_for keeper_sync demo_sync_job d keeper_client"
    if "fst (getController (e_db keeper_sync) (j_controllerID demo_sync_job) d) = Inr (demo_controller\<lparr>c_id := 1\<rparr>)" for d
    using that k unfolding client_for_def
    by (intro exI [of _ "demo_controller\<lparr>c_id := 1\<rparr>"] exI [of _ "snd (getController (e_db keeper_sync) (j_controllerID demo_sync_job) d)"])
      (simp add: prod_eq_iff keeper_sync_def demo_controller_def)
  have env: "e_http keeper_sync = keeper" "e_order keeper_sync = (\<lambda>xs. xs)" "cl_baseURL keeper_client = ''https://unifi''"
    "j_networkListID demo_sync_job = ''L1''"
    by (simp_all add: keeper_sync_def keeper_client_def demo_client_def demo_sync_job_def demo_job_def)
  have ip: "address_text ?ip" by code_simp
  have "sr_changesMade r2 = 0"
    using push_converges [where E = keeper_sync and c = keeper_client and job = demo_sync_job and stored = keeper_items
        and m = "[(?ip, ''host'')]" and evs = "[]", OF _ _ _ p _ _ _ _ p2] keeper_keeps env ip k c by simp
  then show ?thesis using p p2 k by simp
qed

end
