(* ===== verification/Syncer_Lock.thy ===== *)
theory Syncer_Lock
  imports Syncer_Props
begin

text \<open>
  Concurrent calls of \<^verbatim>\<open>Syncer.Run\<close> (\<^verbatim>\<open>internal/syncer/syncer.go\<close>, lines 33 to 38): the
  map \<^verbatim>\<open>running\<close> as a set of job numbers and the goroutines that are inside \<^verbatim>\<open>Run\<close>. A step is
  one atomic action on the map: \<^verbatim>\<open>LoadOrStore\<close> with its two outcomes, and the deferred
  \<^verbatim>\<open>Delete\<close>. What a goroutine does between them does not touch the map.
\<close>

datatype lock_ev = Enter nat int | Skip nat int | Leave nat int

record locks =
  held :: "int set"
  inRun :: "nat \<Rightarrow> int option"

inductive lock_step :: "locks \<Rightarrow> lock_ev \<Rightarrow> locks \<Rightarrow> bool" where
  enter: "inRun s g = None \<Longrightarrow> j \<notin> held s \<Longrightarrow>
    lock_step s (Enter g j) (s\<lparr>held := insert j (held s), inRun := (inRun s)(g \<mapsto> j)\<rparr>)"
| skip: "inRun s g = None \<Longrightarrow> j \<in> held s \<Longrightarrow> lock_step s (Skip g j) s"
| leave: "inRun s g = Some j \<Longrightarrow>
    lock_step s (Leave g j) (s\<lparr>held := held s - {j}, inRun := (inRun s)(g := None)\<rparr>)"

inductive_simps lock_step_simps:
  "lock_step s (Enter g j) s'" "lock_step s (Skip g j) s'" "lock_step s (Leave g j) s'"

definition idle :: locks where
  "idle = \<lparr>held = {}, inRun = Map.empty\<rparr>"

inductive lock_run :: "locks \<Rightarrow> lock_ev list \<Rightarrow> locks \<Rightarrow> bool" where
  stop: "lock_run s [] s"
| step: "lock_run s es s' \<Longrightarrow> lock_step s' e s'' \<Longrightarrow> lock_run s (es @ [e]) s''"

inductive_cases lock_runE: "lock_run s es s'"

text \<open>The set holds exactly the jobs inside \<^verbatim>\<open>Run\<close>, each held by one goroutine.\<close>

definition lock_inv :: "locks \<Rightarrow> bool" where
  "lock_inv s \<longleftrightarrow> (\<forall>j. j \<in> held s \<longleftrightarrow> (\<exists>g. inRun s g = Some j)) \<and>
     (\<forall>g h j. inRun s g = Some j \<and> inRun s h = Some j \<longrightarrow> g = h)"

lemma lock_inv_idle: "lock_inv idle"
  by (simp add: lock_inv_def idle_def)

lemma lock_inv_step: "lock_step s e s' \<Longrightarrow> lock_inv s \<Longrightarrow> lock_inv s'"
proof (induction rule: lock_step.induct)
  case (enter s g j)
  then have free: "inRun s h \<noteq> Some j" for h by (auto simp: lock_inv_def)
  have "i \<in> insert j (held s) \<longleftrightarrow> (\<exists>h. ((inRun s)(g \<mapsto> j)) h = Some i)" for i
  proof (cases "i = j")
    case False
    moreover have "((inRun s)(g \<mapsto> j)) h = Some i \<longleftrightarrow> inRun s h = Some i" for h
      using False enter by simp
    ultimately show ?thesis using enter by (simp add: lock_inv_def)
  qed auto
  note mem = this
  have uniq: "inRun s h = Some i \<Longrightarrow> inRun s k = Some i \<Longrightarrow> h = k" for h k i
    using enter.prems unfolding lock_inv_def by blast
  have "h = k" if "((inRun s)(g \<mapsto> j)) h = Some i" "((inRun s)(g \<mapsto> j)) k = Some i" for h k i
    using that free [of h] free [of k] uniq [of h i k] by (metis fun_upd_apply option.inject)
  note uniq' = this
  have sel: "held (s\<lparr>held := insert j (held s), inRun := (inRun s)(g \<mapsto> j)\<rparr>) = insert j (held s)"
    "inRun (s\<lparr>held := insert j (held s), inRun := (inRun s)(g \<mapsto> j)\<rparr>) = (inRun s)(g \<mapsto> j)" by simp_all
  show ?case unfolding lock_inv_def sel using mem uniq' by blast
next
  case (leave s g j)
  then have one: "inRun s h = Some j \<longleftrightarrow> h = g" for h by (auto simp: lock_inv_def)
  have "((inRun s)(g := None)) h = Some i \<longleftrightarrow> i \<noteq> j \<and> inRun s h = Some i" for h i
    using one [of h] leave.hyps by (cases "h = g") auto
  then show ?case using leave.prems by (auto simp: lock_inv_def)
qed simp

lemma lock_inv_run: "lock_run s es s' \<Longrightarrow> lock_inv s \<Longrightarrow> lock_inv s'"
  by (induction rule: lock_run.induct) (auto intro: lock_inv_step)

text \<open>
  C2: No job is ever synced by two goroutines at once. However calls of \<^verbatim>\<open>Run\<close> interleave, two
  goroutines inside it work on different jobs; a call is skipped only while another goroutine is
  inside with the same job; and when all have left, the map of running jobs is empty again.
\<close>
theorem run_exclusive:
  assumes "lock_run idle es s"
  shows "(\<forall>g h j. inRun s g = Some j \<and> inRun s h = Some j \<longrightarrow> g = h) \<and>
    (\<forall>g j. inRun s g = None \<longrightarrow>
       ((\<exists>s'. lock_step s (Skip g j) s') \<longleftrightarrow> (\<exists>h. h \<noteq> g \<and> inRun s h = Some j)) \<and>
       ((\<exists>s'. lock_step s (Enter g j) s') \<longleftrightarrow> (\<forall>h. inRun s h \<noteq> Some j))) \<and>
    ((\<forall>g. inRun s g = None) \<longrightarrow> held s = {})"
proof -
  have inv: "lock_inv s" using lock_inv_run [OF assms lock_inv_idle] .
  have h: "j \<in> held s \<longleftrightarrow> (\<exists>h. inRun s h = Some j)" for j
    using inv by (simp add: lock_inv_def)
  have other: "inRun s g = None \<Longrightarrow> (\<exists>h. inRun s h = Some j) = (\<exists>h. h \<noteq> g \<and> inRun s h = Some j)" for g j
    by (metis option.distinct(1))
  show ?thesis
  proof (intro conjI allI impI)
    fix g h j assume "inRun s g = Some j \<and> inRun s h = Some j"
    then show "g = h" using inv by (auto simp: lock_inv_def)
  next
    fix g j assume g: "inRun s g = None"
    show "(\<exists>s'. lock_step s (Skip g j) s') \<longleftrightarrow> (\<exists>h. h \<noteq> g \<and> inRun s h = Some j)"
      using g by (simp add: lock_step_simps h other)
    show "(\<exists>s'. lock_step s (Enter g j) s') \<longleftrightarrow> (\<forall>h. inRun s h \<noteq> Some j)"
      using g by (simp add: lock_step_simps h)
  qed (use h in auto)
qed

theorem run_exclusive_witness:
  "\<exists>s. lock_run idle [Enter 0 7, Skip 1 7, Leave 0 7] s \<and> held s = {} \<and> (\<exists>s'. lock_step s (Enter 1 7) s')"
proof -
  let ?s1 = "idle\<lparr>held := insert 7 (held idle), inRun := (inRun idle)(0 \<mapsto> 7)\<rparr>"
  let ?s = "?s1\<lparr>held := held ?s1 - {7}, inRun := (inRun ?s1)(0 := None)\<rparr>"
  have "lock_step idle (Enter 0 7) ?s1" by (rule lock_step.enter) (simp_all add: idle_def)
  with lock_run.stop have "lock_run idle ([] @ [Enter 0 7]) ?s1" by (rule lock_run.step)
  moreover have "lock_step ?s1 (Skip 1 7) ?s1" by (simp add: lock_step_simps idle_def)
  ultimately have "lock_run idle (([] @ [Enter 0 7]) @ [Skip 1 7]) ?s1" by (rule lock_run.step)
  moreover have "lock_step ?s1 (Leave 0 7) ?s" by (rule lock_step.leave) simp
  ultimately have r: "lock_run idle ((([] @ [Enter 0 7]) @ [Skip 1 7]) @ [Leave 0 7]) ?s"
    by (rule lock_run.step)
  from run_exclusive [OF r] have "held ?s = {}" "\<exists>s'. lock_step ?s (Enter 1 7) s'"
    by (simp_all add: idle_def lock_step_simps)
  with r show ?thesis by (intro exI [of _ ?s]) simp
qed

end
