(* ===== verification/Buffers.thy ===== *)
theory Buffers
  imports Prelude "HOL-Library.Sublist"
begin

text \<open>
  The contract of a bounded first-in first-out buffer, which two parts of the program rely on: the
  queue of triggered jobs, which refuses a value when it is full, and the ring of log events,
  which then gives up its oldest one. \<open>items\<close> is the content in order, \<open>offer\<close> the operation
  that puts a value in.
\<close>

locale bounded_buffer =
  fixes ok :: "'q \<Rightarrow> bool" and items :: "'q \<Rightarrow> 'a list" and offer :: "'a \<Rightarrow> 'q \<Rightarrow> 'q"
    and capacity :: "'q \<Rightarrow> nat"
  assumes ok_offer: "ok q \<Longrightarrow> ok (offer x q)"
    and capacity_offer: "ok q \<Longrightarrow> capacity (offer x q) = capacity q"
    and bounded: "ok q \<Longrightarrow> length (items q) \<le> capacity q"
    and ordered: "ok q \<Longrightarrow> subseq (items (offer x q)) (items q @ [x])"
    and lossless: "ok q \<Longrightarrow> length (items q) < capacity q \<Longrightarrow> items (offer x q) = items q @ [x]"
begin

lemma ok_offers: "ok q \<Longrightarrow> ok (fold offer xs q)"
  by (induction xs arbitrary: q) (auto intro: ok_offer)

lemma capacity_offers: "ok q \<Longrightarrow> capacity (fold offer xs q) = capacity q"
  by (induction xs arbitrary: q) (simp_all add: capacity_offer ok_offer)

lemma bounded_offers: "ok q \<Longrightarrow> length (items (fold offer xs q)) \<le> capacity q"
  using bounded [OF ok_offers] by (simp add: capacity_offers)

lemma ordered_offers: "ok q \<Longrightarrow> subseq (items (fold offer xs q)) (items q @ xs)"
proof (induction xs arbitrary: q)
  case (Cons x xs)
  have "subseq (items (fold offer xs (offer x q))) (items (offer x q) @ xs)"
    by (rule Cons.IH) (rule ok_offer [OF Cons.prems])
  also have "subseq (items (offer x q) @ xs) ((items q @ [x]) @ xs)"
    using ordered [OF Cons.prems] by (rule list_emb_append_mono) simp
  finally show ?case by simp
qed simp

lemma lossless_offers:
  "ok q \<Longrightarrow> length (items q) + length xs \<le> capacity q \<Longrightarrow> items (fold offer xs q) = items q @ xs"
proof (induction xs arbitrary: q)
  case (Cons x xs)
  have "items (offer x q) = items q @ [x]" using Cons.prems by (intro lossless) simp_all
  with Cons.IH [OF ok_offer [OF Cons.prems(1)], of x] Cons.prems show ?case
    by (simp add: capacity_offer)
qed simp

end

text \<open>A full queue refuses new values: it holds the first ones that were offered.\<close>

locale refusing_buffer = bounded_buffer +
  assumes refuse: "ok q \<Longrightarrow> capacity q \<le> length (items q) \<Longrightarrow> items (offer x q) = items q"
begin

lemma first_offers: "ok q \<Longrightarrow> items (fold offer xs q) = take (capacity q) (items q @ xs)"
proof (induction xs arbitrary: q)
  case Nil
  then show ?case using bounded by simp
next
  case (Cons x xs)
  have step: "items (offer x q) = take (capacity q) (items q @ [x])"
    using Cons.prems bounded [OF Cons.prems] lossless [OF Cons.prems, of x] refuse [OF Cons.prems, of x]
    by (cases "length (items q) < capacity q") simp_all
  have "items (fold offer (x # xs) q) = take (capacity q) (items (offer x q) @ xs)"
    using Cons.IH [OF ok_offer [OF Cons.prems], of x] by (simp add: capacity_offer Cons.prems)
  also have "\<dots> = take (capacity q) (items q @ x # xs)"
    using bounded [OF Cons.prems] by (cases "length (items q) < capacity q") (simp_all add: step)
  finally show ?case .
qed

end

text \<open>A full ring gives up its oldest value: it holds the last ones that were offered.\<close>

definition last_n :: "nat \<Rightarrow> 'a list \<Rightarrow> 'a list" where
  "last_n n xs = drop (length xs - n) xs"

locale evicting_buffer = bounded_buffer +
  assumes evict: "ok q \<Longrightarrow> length (items q) = capacity q \<Longrightarrow> items (offer x q) = tl (items q) @ [x]"
    and room: "ok q \<Longrightarrow> 0 < capacity q"
begin

lemma last_offer: "ok q \<Longrightarrow> items (offer x q) = last_n (capacity q) (items q @ [x])"
  using lossless [of q x] evict [of q x] bounded [of q] room [of q]
  by (cases "length (items q) = capacity q") (auto simp: last_n_def drop_Suc tl_append split: list.splits)

lemma last_offers: "ok q \<Longrightarrow> items (fold offer xs q) = last_n (capacity q) (items q @ xs)"
proof (induction xs arbitrary: q)
  case Nil
  then show ?case using bounded by (simp add: last_n_def)
next
  case (Cons x xs)
  have cut: "last_n n (last_n n ys @ zs) = last_n n (ys @ zs)" for n and ys zs :: "'b list"
    by (cases "length ys \<le> n") (auto simp: last_n_def add.commute)
  have "items (fold offer (x # xs) q) = last_n (capacity q) (items (offer x q) @ xs)"
    using Cons.IH [OF ok_offer [OF Cons.prems], of x] by (simp add: capacity_offer Cons.prems)
  also have "\<dots> = last_n (capacity q) ((items q @ [x]) @ xs)"
    by (simp only: last_offer [OF Cons.prems] cut)
  finally show ?case by simp
qed

end

end
