(* ===== verification/Scheduler.thy ===== *)
theory Scheduler
  imports Buffers Syncer
begin

text \<open>
  The scheduler, \<^verbatim>\<open>internal/scheduler/scheduler.go\<close>: the cron entries of the enabled jobs, the
  queue of triggered jobs and the worker that runs them one after the other.

  The cron library is not part of the repository. It is the argument \<open>L\<close> of the definitions: a
  state with its entries (\<open>live\<close>, each a schedule and the job that its function queues) and the
  operations the scheduler calls; \<open>cron_ok\<close> is what their documentation says of them.
\<close>

record 'c cron_lib =
  cronNew :: 'c
  addFunc :: "'c \<Rightarrow> string \<Rightarrow> int \<Rightarrow> (nat \<times> 'c) res"
  removeEntry :: "nat \<Rightarrow> 'c \<Rightarrow> 'c"
  startCron :: "'c \<Rightarrow> 'c"
  stopCron :: "'c \<Rightarrow> 'c"
  live :: "'c \<Rightarrow> nat \<Rightarrow> (string \<times> int) option"
  ticking :: "'c \<Rightarrow> bool"
  validSpec :: "string \<Rightarrow> bool"

definition cron_ok :: "'c cron_lib \<Rightarrow> bool" where
  "cron_ok L \<longleftrightarrow>
     live L (cronNew L) = Map.empty \<and> \<not> ticking L (cronNew L) \<and>
     (\<forall>c spec j i c'. addFunc L c spec j = Inr (i, c') \<longrightarrow>
        live L c i = None \<and> live L c' = (live L c)(i \<mapsto> (spec, j)) \<and> ticking L c' = ticking L c) \<and>
     (\<forall>c spec j. (\<exists>r. addFunc L c spec j = Inr r) \<longleftrightarrow> validSpec L spec) \<and>
     (\<forall>c i. live L (removeEntry L i c) = (live L c)(i := None) \<and>
        ticking L (removeEntry L i c) = ticking L c) \<and>
     (\<forall>c. live L (startCron L c) = live L c \<and> ticking L (startCron L c)) \<and>
     (\<forall>c. live L (stopCron L c) = live L c \<and> \<not> ticking L (stopCron L c))"

datatype worker_state = Working | Draining | Exited

record 'c sched =
  sd_cron :: 'c
  sd_entries :: "int \<Rightarrow> nat option"
  sd_workQ :: "int list"
  sd_stopQ :: bool \<comment> \<open>closed\<close>
  sd_worker :: worker_state

definition workQCap :: nat where
  "workQCap = 256"

definition newScheduler :: "'c cron_lib \<Rightarrow> 'c sched" where
  "newScheduler L = \<lparr>sd_cron = cronNew L, sd_entries = Map.empty, sd_workQ = [], sd_stopQ = False,
     sd_worker = Working\<rparr>"

subsection \<open>Entries\<close>

definition scheduleJob :: "'c cron_lib \<Rightarrow> SyncJob \<Rightarrow> 'c sched \<Rightarrow> 'c sched" where
  "scheduleJob L job s =
     (case addFunc L (sd_cron s) (j_schedule job) (j_id job) of
        Inl err \<Rightarrow> s
      | Inr (entryID, c) \<Rightarrow> s\<lparr>sd_cron := c, sd_entries := (sd_entries s)(j_id job \<mapsto> entryID)\<rparr>)"

definition schedulable :: "SyncJob \<Rightarrow> bool" where
  "schedulable job \<longleftrightarrow> j_enabled job \<and> j_schedule job \<noteq> []"

definition start :: "'c cron_lib \<Rightarrow> dbenv \<Rightarrow> 'c sched \<times> db \<Rightarrow> unit res \<times> 'c sched \<times> db" where
  "start L E = (\<lambda>(s, d).
     (case listJobs E d of
        (Inl err, d) \<Rightarrow> (Inl err, s, d)
      | (Inr jobs, d) \<Rightarrow>
          let s = fold (\<lambda>job s. if schedulable job then scheduleJob L job s else s) jobs s in
          (Inr (), s\<lparr>sd_cron := startCron L (sd_cron s)\<rparr>, d)))"

definition unschedule :: "'c cron_lib \<Rightarrow> int \<Rightarrow> 'c sched \<Rightarrow> 'c sched" where
  "unschedule L jobID s =
     (case sd_entries s jobID of
        Some entryID \<Rightarrow> s\<lparr>sd_cron := removeEntry L entryID (sd_cron s),
                          sd_entries := (sd_entries s)(jobID := None)\<rparr>
      | None \<Rightarrow> s)"

definition reload :: "'c cron_lib \<Rightarrow> dbenv \<Rightarrow> int \<Rightarrow> 'c sched \<times> db \<Rightarrow> 'c sched \<times> db" where
  "reload L E jobID = (\<lambda>(s, d).
     let s = unschedule L jobID s in
     (case getJob E jobID d of
        (Inl err, d) \<Rightarrow> (s, d)
      | (Inr job, d) \<Rightarrow> (if schedulable job then scheduleJob L job s else s, d)))"

definition remove :: "'c cron_lib \<Rightarrow> int \<Rightarrow> 'c sched \<Rightarrow> 'c sched" where
  "remove L jobID s = unschedule L jobID s"

text \<open>Closing \<^verbatim>\<open>stopQ\<close> a second time panics, which is the value \<open>None\<close>.\<close>

definition stop :: "'c cron_lib \<Rightarrow> 'c sched \<Rightarrow> 'c sched option" where
  "stop L s = (if sd_stopQ s then None
     else Some (s\<lparr>sd_cron := stopCron L (sd_cron s), sd_stopQ := True\<rparr>))"

subsection \<open>The queue and its worker\<close>

text \<open>A trigger sends without blocking: a full queue refuses it.\<close>

definition offerJob :: "int \<Rightarrow> int list \<Rightarrow> int list" where
  "offerJob jobID q = (if length q < workQCap then q @ [jobID] else q)"

definition trigger :: "'c cron_lib \<Rightarrow> nat \<Rightarrow> 'c sched \<Rightarrow> 'c sched" where
  "trigger L entryID s =
     (case live L (sd_cron s) entryID of
        Some (_, jobID) \<Rightarrow> if ticking L (sd_cron s) then s\<lparr>sd_workQ := offerJob jobID (sd_workQ s)\<rparr> else s
      | None \<Rightarrow> s)"

text \<open>
  The steps of the worker: it takes the oldest queued job and runs it; once \<^verbatim>\<open>stopQ\<close> is closed
  it may choose to drain the queue instead, and then exits when it finds the queue empty.
\<close>

inductive worker_step :: "sync_env \<Rightarrow> 'c sched \<times> world \<Rightarrow> int option \<Rightarrow> 'c sched \<times> world \<Rightarrow> bool" for E where
  take: "sd_worker s \<noteq> Exited \<Longrightarrow> sd_workQ s = jobID # q \<Longrightarrow>
    worker_step E (s, w) (Some jobID) (s\<lparr>sd_workQ := q\<rparr>, snd (run E jobID w))"
| notice: "sd_worker s = Working \<Longrightarrow> sd_stopQ s \<Longrightarrow>
    worker_step E (s, w) None (s\<lparr>sd_worker := Draining\<rparr>, w)"
| exit: "sd_worker s = Draining \<Longrightarrow> sd_workQ s = [] \<Longrightarrow>
    worker_step E (s, w) None (s\<lparr>sd_worker := Exited\<rparr>, w)"

inductive_cases worker_stepE: "worker_step E (s, w) r (s', w')"

interpretation work_queue: refusing_buffer "\<lambda>q. length q \<le> workQCap" "\<lambda>q. q" offerJob "\<lambda>_. workQCap"
  by unfold_locales (auto simp: offerJob_def)

subsection \<open>Entries: one for each scheduled job\<close>

text \<open>The map and the cron entries agree: each entry of the map is live for its job, and there is no other.\<close>

definition sched_ok :: "'c cron_lib \<Rightarrow> 'c sched \<Rightarrow> bool" where
  "sched_ok L s \<longleftrightarrow>
     (\<forall>j i. sd_entries s j = Some i \<longleftrightarrow> (\<exists>spec. live L (sd_cron s) i = Some (spec, j)))"

text \<open>The schedule that a job has: that of its live entry.\<close>

definition planned :: "'c cron_lib \<Rightarrow> 'c sched \<Rightarrow> int \<Rightarrow> string option" where
  "planned L s j = (case sd_entries s j of None \<Rightarrow> None
     | Some i \<Rightarrow> map_option fst (live L (sd_cron s) i))"

lemma sched_ok_new: "cron_ok L \<Longrightarrow> sched_ok L (newScheduler L)"
  by (simp add: sched_ok_def newScheduler_def cron_ok_def)

lemma planned_new: "planned L (newScheduler L) j = None"
  by (simp add: planned_def newScheduler_def)

lemma addFunc_Inr:
  assumes "cron_ok L" and "addFunc L c spec j = Inr (i, c')"
  shows "live L c i = None" "live L c' = (live L c)(i \<mapsto> (spec, j))" "ticking L c' = ticking L c"
  using assms by (auto simp: cron_ok_def)

lemma addFunc_valid: "cron_ok L \<Longrightarrow> (\<exists>r. addFunc L c spec j = Inr r) \<longleftrightarrow> validSpec L spec"
  by (simp add: cron_ok_def)

lemma cron_ops:
  "cron_ok L \<Longrightarrow> live L (removeEntry L i c) = (live L c)(i := None)"
  "cron_ok L \<Longrightarrow> live L (startCron L c) = live L c"
  "cron_ok L \<Longrightarrow> live L (stopCron L c) = live L c"
  "cron_ok L \<Longrightarrow> ticking L (removeEntry L i c) = ticking L c"
  "cron_ok L \<Longrightarrow> ticking L (startCron L c)"
  "cron_ok L \<Longrightarrow> \<not> ticking L (stopCron L c)"
  by (simp_all add: cron_ok_def)

lemma sched_okD: "sched_ok L s \<Longrightarrow> sd_entries s j = Some i \<longleftrightarrow> (\<exists>spec. live L (sd_cron s) i = Some (spec, j))"
  by (simp add: sched_ok_def)

lemma sched_ok_inj: "sched_ok L s \<Longrightarrow> sd_entries s j = Some i \<Longrightarrow> sd_entries s k = Some i \<Longrightarrow> j = k"
  by (auto simp: sched_okD)

lemma unschedule_spec:
  assumes "cron_ok L" and "sched_ok L s"
  shows "sched_ok L (unschedule L j s) \<and> planned L (unschedule L j s) = (planned L s)(j := None) \<and>
    sd_entries (unschedule L j s) = (sd_entries s)(j := None)"
proof (cases "sd_entries s j")
  case None
  then have "unschedule L j s = s" by (simp add: unschedule_def)
  then show ?thesis using assms(2) None by (auto simp: planned_def fun_eq_iff)
next
  case (Some i)
  let ?s = "unschedule L j s"
  have e: "sd_entries ?s = (sd_entries s)(j := None)" "live L (sd_cron ?s) = (live L (sd_cron s))(i := None)"
    using Some assms(1) by (simp_all add: unschedule_def cron_ops)
  have other: "sd_entries s k = Some i \<Longrightarrow> k = j" for k using sched_ok_inj [OF assms(2) Some] by simp
  have "sd_entries ?s k = Some l \<longleftrightarrow> (\<exists>spec. live L (sd_cron ?s) l = Some (spec, k))" for k l
  proof (cases "l = i")
    case True
    then show ?thesis using other [of k] by (auto simp: e)
  next
    case False
    then show ?thesis using Some sched_okD [OF assms(2), of j l] sched_okD [OF assms(2), of k l] by (auto simp: e)
  qed
  then have "sched_ok L ?s" by (simp add: sched_ok_def)
  moreover have "planned L ?s k = ((planned L s)(j := None)) k" for k
    using other [of k] by (auto simp: planned_def e split: option.splits)
  ultimately show ?thesis using e by (simp add: fun_eq_iff)
qed

lemma scheduleJob_spec:
  assumes "cron_ok L" and "sched_ok L s" and "sd_entries s (j_id job) = None"
  shows "sched_ok L (scheduleJob L job s) \<and>
    planned L (scheduleJob L job s) = (planned L s)(j_id job :=
      if validSpec L (j_schedule job) then Some (j_schedule job) else None) \<and>
    (k \<noteq> j_id job \<longrightarrow> sd_entries (scheduleJob L job s) k = sd_entries s k)"
proof (cases "addFunc L (sd_cron s) (j_schedule job) (j_id job)")
  case (Inl e)
  then have "\<not> validSpec L (j_schedule job)"
    using addFunc_valid [OF assms(1), of "sd_cron s" "j_schedule job" "j_id job"] by simp
  then show ?thesis using Inl assms by (auto simp: scheduleJob_def planned_def fun_eq_iff)
next
  case (Inr r)
  obtain i c where r: "r = (i, c)" by fastforce
  note a = addFunc_Inr [OF assms(1) Inr [unfolded r]]
  have v: "validSpec L (j_schedule job)"
    using Inr addFunc_valid [OF assms(1)] by metis
  let ?s = "scheduleJob L job s" and ?j = "j_id job"
  have e: "sd_entries ?s = (sd_entries s)(?j \<mapsto> i)" "live L (sd_cron ?s) = (live L (sd_cron s))(i \<mapsto> (j_schedule job, ?j))"
    using Inr r a(2) by (simp_all add: scheduleJob_def)
  have free: "sd_entries s k \<noteq> Some i" for k
    using a(1) by (simp add: sched_okD [OF assms(2)])
  have "sd_entries ?s k = Some l \<longleftrightarrow> (\<exists>spec. live L (sd_cron ?s) l = Some (spec, k))" for k l
  proof (cases "l = i")
    case True
    then show ?thesis using free [of k] by (auto simp: e)
  next
    case False
    then show ?thesis using sched_okD [OF assms(2), of ?j l] sched_okD [OF assms(2), of k l] assms(3) by (auto simp: e)
  qed
  then have "sched_ok L ?s" by (simp add: sched_ok_def)
  moreover have "planned L ?s k = ((planned L s)(?j := Some (j_schedule job))) k" for k
    using free [of k] by (auto simp: planned_def e split: option.splits)
  ultimately show ?thesis using e v by (simp add: fun_eq_iff)
qed

end
