(* ===== verification/Scheduler_Props.thy ===== *)
theory Scheduler_Props
  imports Scheduler Store_Props Syncer_Props
begin

text \<open>
  The properties of the scheduler: what is scheduled after starting and after reloading a job, the
  agreement of its map with the cron entries, the order in which triggered jobs run, and that the
  worker drains the queue when it is stopped.
\<close>

subsection \<open>What is scheduled\<close>

text \<open>The schedule that a job asks for, and the one that the store wants a number to have.\<close>

definition plan_of :: "'c cron_lib \<Rightarrow> SyncJob \<Rightarrow> string option" where
  "plan_of L job = (if schedulable job \<and> validSpec L (j_schedule job) then Some (j_schedule job) else None)"

definition wanted :: "'c cron_lib \<Rightarrow> db \<Rightarrow> int \<Rightarrow> string option" where
  "wanted L d j = Option.bind (viewJob d j) (plan_of L)"

lemma plan_of_content: "plan_of L (scanJob d r) = plan_of L (jobRowContent r)"
  by (simp add: plan_of_def schedulable_def scanJob_def jobRowContent_def)

lemma wanted_row_of: "wanted L d j = Option.bind (row_of r_id (sync_jobs d) j) (\<lambda>r. plan_of L (scanJob d' r))"
  by (simp add: wanted_def viewJob_def plan_of_content bind_map_option comp_def)

lemma row_of_perm:
  assumes "distinct (map rid rows)" and "mset rows' = mset rows"
  shows "row_of rid rows' j = row_of rid rows j"
proof -
  have "distinct (map rid rows')" using assms mset_map [of rid] by (metis mset_eq_imp_distinct_iff)
  then have "map_of (map (\<lambda>r. (rid r, r)) rows') = map_of (map (\<lambda>r. (rid r, r)) rows)"
    using assms by (intro map_of_perm) (auto simp: comp_def dest: mset_eq_setD)
  then show ?thesis by (simp add: row_of_def)
qed

lemma newScheduler_entries: "sd_entries (newScheduler L) j = None"
  by (simp add: newScheduler_def)

lemma fold_schedule:
  assumes "cron_ok L"
  shows "sched_ok L s \<Longrightarrow> distinct (map j_id jobs) \<Longrightarrow> \<forall>job \<in> set jobs. sd_entries s (j_id job) = None \<Longrightarrow>
    s' = fold (\<lambda>job s. if schedulable job then scheduleJob L job s else s) jobs s \<Longrightarrow>
    sched_ok L s' \<and> (\<forall>j. planned L s' j = (case map_of (map (\<lambda>job. (j_id job, job)) jobs) j of
      Some job \<Rightarrow> plan_of L job | None \<Rightarrow> planned L s j))"
proof (induction jobs arbitrary: s)
  case (Cons job jobs)
  define s1 where "s1 = (if schedulable job then scheduleJob L job s else s)"
  have none: "sd_entries s (j_id job) = None" using Cons.prems by simp
  have "planned L s (j_id job) = None" using none by (simp add: planned_def)
  then have step: "sched_ok L s1 \<and> planned L s1 = (planned L s)(j_id job := plan_of L job)"
    using scheduleJob_spec [OF assms Cons.prems(1) none] Cons.prems(1)
    by (auto simp: s1_def plan_of_def fun_eq_iff)
  have "sd_entries s1 k = sd_entries s k" if "k \<noteq> j_id job" for k
    using scheduleJob_spec [OF assms Cons.prems(1) none, of k] that by (simp add: s1_def)
  then have rest: "\<forall>j \<in> set jobs. sd_entries s1 (j_id j) = None"
    using Cons.prems(2,3) by (metis distinct.simps(2) image_eqI list.set_intros(2) list.set_map list.simps(9))
  have "map_of (map (\<lambda>job. (j_id job, job)) jobs) (j_id job) = None"
    using Cons.prems(2) by (auto simp: map_of_eq_None_iff)
  moreover have "sched_ok L s' \<and> (\<forall>j. planned L s' j = (case map_of (map (\<lambda>job. (j_id job, job)) jobs) j of
      Some job \<Rightarrow> plan_of L job | None \<Rightarrow> planned L s1 j))"
    by (rule Cons.IH) (use step rest Cons.prems(2,4) in \<open>simp_all add: s1_def\<close>)
  ultimately show ?case using step by (simp cong: option.case_cong)
qed simp

lemma dbQuery_frame: "dbQuery E objs q d = (r, d') \<Longrightarrow> d' = d\<lparr>stmtNo := Suc (stmtNo d)\<rparr>"
  using snd_dbQuery [of E objs q d] by simp

lemma scheduleJob_frame:
  "cron_ok L \<Longrightarrow> sd_workQ (scheduleJob L job s) = sd_workQ s \<and>
     ticking L (sd_cron (scheduleJob L job s)) = ticking L (sd_cron s) \<and>
     sd_stopQ (scheduleJob L job s) = sd_stopQ s \<and> sd_worker (scheduleJob L job s) = sd_worker s"
  by (auto simp: scheduleJob_def addFunc_Inr split: sum.splits)

lemma unschedule_frame:
  "cron_ok L \<Longrightarrow> sd_workQ (unschedule L j s) = sd_workQ s \<and>
     ticking L (sd_cron (unschedule L j s)) = ticking L (sd_cron s) \<and>
     sd_stopQ (unschedule L j s) = sd_stopQ s \<and> sd_worker (unschedule L j s) = sd_worker s"
  by (auto simp: unschedule_def cron_ops split: option.splits)

lemma started:
  "cron_ok L \<Longrightarrow> sched_ok L (s\<lparr>sd_cron := startCron L (sd_cron s)\<rparr>) = sched_ok L s"
  "cron_ok L \<Longrightarrow> planned L (s\<lparr>sd_cron := startCron L (sd_cron s)\<rparr>) = planned L s"
  "cron_ok L \<Longrightarrow> ticking L (sd_cron (s\<lparr>sd_cron := startCron L (sd_cron s)\<rparr>))"
  by (simp_all add: sched_ok_def planned_def fun_eq_iff cron_ops cong: option.case_cong)

lemma start_contract:
  assumes "cron_ok L" and "db_ok d" and "start L E (newScheduler L, d) = (r, s, d')"
  shows "sched_ok L s \<and> (ticking L (sd_cron s) \<longleftrightarrow> r = Inr ()) \<and> sync_jobs d' = sync_jobs d \<and>
    (\<forall>j. planned L s j = (if r = Inr () then wanted L d j else None))"
proof -
  obtain a d1 where l: "listJobs E d = (a, d1)" by fastforce
  have d1: "d1 = d\<lparr>stmtNo := Suc (stmtNo d)\<rparr>" using dbQuery_frame l by (simp add: listJobs_def)
  show ?thesis
  proof (cases a)
    case (Inl e)
    then show ?thesis
      using assms(3) l d1 sched_ok_new [OF assms(1)] assms(1)
      by (auto simp: start_def planned_new) (simp add: newScheduler_def cron_ok_def)
  next
    case (Inr jobs)
    obtain ctx where jobs: "jobs = map (scanJob d1) (order_by ctx r_id r_name (sync_jobs d))"
      using dbQuery_Inr [OF l [unfolded listJobs_def Inr]] d1 by auto
    have ids: "distinct (map r_id (sync_jobs d))" using assms(2) by (simp add: db_ok_def ids_ok_def)
    have m: "mset (order_by ctx r_id r_name (sync_jobs d)) = mset (sync_jobs d)" by (rule mset_order_by)
    have jid: "map j_id jobs = map r_id (order_by ctx r_id r_name (sync_jobs d))"
      by (simp add: jobs scanJob_def)
    have "distinct (map j_id jobs)"
      using ids mset_map [of r_id] m unfolding jid by (metis mset_eq_imp_distinct_iff)
    then have f: "sched_ok L (fold (\<lambda>job s. if schedulable job then scheduleJob L job s else s) jobs (newScheduler L)) \<and>
      (\<forall>j. planned L (fold (\<lambda>job s. if schedulable job then scheduleJob L job s else s) jobs (newScheduler L)) j =
        (case map_of (map (\<lambda>job. (j_id job, job)) jobs) j of Some job \<Rightarrow> plan_of L job | None \<Rightarrow> None))"
      using fold_schedule [OF assms(1) sched_ok_new [OF assms(1)] _ _ refl, of jobs]
      by (simp add: planned_new newScheduler_entries cong: option.case_cong)
    have "map_of (map (\<lambda>job. (j_id job, job)) jobs) j = map_option (scanJob d1) (row_of r_id (sync_jobs d) j)" for j
    proof -
      have "map_of (map (\<lambda>job. (j_id job, job)) (map (scanJob d1) rows)) j = map_option (scanJob d1) (row_of r_id rows j)" for rows
        by (induction rows) (simp_all add: row_of_def scanJob_def)
      then show ?thesis using row_of_perm [OF ids m] by (simp only: jobs)
    qed
    then have "(case map_of (map (\<lambda>job. (j_id job, job)) jobs) j of Some job \<Rightarrow> plan_of L job | None \<Rightarrow> None) = wanted L d j" for j
      by (cases "row_of r_id (sync_jobs d) j") (simp_all add: wanted_row_of [where d' = d1])
    note w = this
    show ?thesis
      using assms(3) l Inr d1 f started [OF assms(1)] w
      by (auto simp: start_def Let_def)
  qed
qed

lemma start_queue:
  assumes "cron_ok L" and "start L E (s, d) = (r, s', d')"
  shows "sd_workQ s' = sd_workQ s \<and> sd_stopQ s' = sd_stopQ s \<and> sd_worker s' = sd_worker s"
proof -
  have "sd_workQ (fold f jobs s) = sd_workQ s \<and> sd_stopQ (fold f jobs s) = sd_stopQ s \<and>
      sd_worker (fold f jobs s) = sd_worker s" if "f = (\<lambda>job s. if schedulable job then scheduleJob L job s else s)" for f jobs
    using that scheduleJob_frame [OF assms(1)] by (induction jobs arbitrary: s) simp_all
  then show ?thesis using assms(2) by (auto simp: start_def Let_def split: prod.splits sum.splits)
qed

text \<open>
  Starting schedules the right jobs. On a new scheduler it succeeds exactly when the jobs can
  be listed; then cron runs, and every job has the schedule that its row says if it is enabled,
  has a schedule and the schedule is valid, and none otherwise; each has at most one cron entry,
  the one the scheduler remembers. If the list fails, nothing is scheduled and cron is not started.
\<close>
theorem start_schedules:
  assumes "cron_ok L" and "db_ok d" and "start L E (newScheduler L, d) = (r, s, d')"
  shows "sched_ok L s \<and> (ticking L (sd_cron s) \<longleftrightarrow> r = Inr ()) \<and> sync_jobs d' = sync_jobs d \<and>
    (\<forall>j. planned L s j = (if r = Inr () then wanted L d j else None))"
  by (rule start_contract [OF assms])

text \<open>A cron library for the witnesses: a list of entries, and every nonempty schedule is valid.\<close>

definition demo_cron :: "((nat \<times> string \<times> int) list \<times> nat \<times> bool) cron_lib" where
  "demo_cron = \<lparr>cronNew = ([], 0, False),
     addFunc = (\<lambda>(es, n, b) spec j. if spec = [] then Inl ''empty spec string'' else Inr (n, ((n, spec, j) # es, Suc n, b))),
     removeEntry = (\<lambda>i (es, n, b). (filter (\<lambda>e. fst e \<noteq> i) es, n, b)),
     startCron = (\<lambda>(es, n, b). (es, n, True)), stopCron = (\<lambda>(es, n, b). (es, n, False)),
     live = (\<lambda>(es, n, b) i. if i < n then map_of es i else None), ticking = (\<lambda>(es, n, b). b),
     validSpec = (\<lambda>spec. spec \<noteq> [])\<rparr>"

lemma map_of_filter_key: "map_of (filter (\<lambda>e. fst e \<noteq> i) es) = (map_of es)(i := None)"
  by (induction es) (auto simp: fun_eq_iff)

lemma demo_cron_ok: "cron_ok demo_cron"
  by (auto simp: cron_ok_def demo_cron_def map_of_filter_key fun_eq_iff split: if_splits)

theorem start_schedules_witness:
  "\<exists>r s d'. start demo_cron (demo_db True) (newScheduler demo_cron, empty_db) = (r, s, d') \<and> sched_ok demo_cron s"
proof -
  obtain r s d' where r: "start demo_cron (demo_db True) (newScheduler demo_cron, empty_db) = (r, s, d')"
    by (metis prod.exhaust)
  from start_schedules [OF demo_cron_ok db_ok_empty r] r show ?thesis by blast
qed

lemma getJob_row:
  assumes "getJob E jobID d = (Inr job, d')"
  shows "\<exists>r. job = scanJob d' r \<and> row_of r_id (sync_jobs d) jobID = Some r \<and> j_id job = jobID"
proof -
  have "d' = d\<lparr>stmtNo := Suc (stmtNo d)\<rparr>" using assms dbQuery_frame by (simp add: getJob_def)
  then show ?thesis
    using dbQuery_Inr [OF assms [unfolded getJob_def]]
    by (auto simp: row_of_filter_first scanJob_def dest: row_of_Some_in split: option.splits)
qed

lemma reload_spec:
  assumes "cron_ok L" and "sched_ok L s" and "reload L E jobID (s, d) = (s', d')"
  shows "sched_ok L s' \<and> sync_jobs d' = sync_jobs d \<and>
    planned L s' = (planned L s)(jobID :=
      case fst (getJob E jobID d) of Inl _ \<Rightarrow> None | Inr _ \<Rightarrow> wanted L d jobID) \<and>
    sd_workQ s' = sd_workQ s \<and> ticking L (sd_cron s') = ticking L (sd_cron s)"
proof -
  let ?s1 = "unschedule L jobID s"
  note u = unschedule_spec [OF assms(1,2), of jobID] and uf = unschedule_frame [OF assms(1), of jobID s]
  obtain a d1 where g: "getJob E jobID d = (a, d1)" by fastforce
  have d1: "d1 = d\<lparr>stmtNo := Suc (stmtNo d)\<rparr>" using g dbQuery_frame by (simp add: getJob_def)
  show ?thesis
  proof (cases a)
    case (Inl e)
    then show ?thesis using assms(3) g d1 u uf by (auto simp: reload_def)
  next
    case (Inr job)
    obtain r where r: "job = scanJob d1 r" "row_of r_id (sync_jobs d) jobID = Some r" "j_id job = jobID"
      using getJob_row [OF g [unfolded Inr]] by blast
    have w: "wanted L d jobID = plan_of L job" using r by (simp add: wanted_row_of [where d' = d1])
    have "sd_entries ?s1 (j_id job) = None" using u r(3) by simp
    note sc = scheduleJob_spec [OF assms(1) conjunct1 [OF u] this] and sf = scheduleJob_frame [OF assms(1), of job ?s1]
    have s': "s' = (if schedulable job then scheduleJob L job ?s1 else ?s1)" "d' = d1"
      using assms(3) g Inr by (auto simp: reload_def Let_def)
    show ?thesis
      using u uf sc sf w r(3) g Inr by (auto simp: s' d1 plan_of_def fun_eq_iff)
  qed
qed

text \<open>
  Reloading a job brings its schedule up to date and touches no other. If the job can be read,
  afterwards it has the schedule its row asks for, or none when it is disabled, has no schedule or
  an invalid one; if it cannot, whether it was deleted or the database failed, it has none.
\<close>
theorem reload_updates:
  assumes "cron_ok L" and "sched_ok L s" and "reload L E jobID (s, d) = (s', d')"
  shows "sched_ok L s' \<and> sync_jobs d' = sync_jobs d \<and>
    planned L s' = (planned L s)(jobID :=
      case fst (getJob E jobID d) of Inl _ \<Rightarrow> None | Inr _ \<Rightarrow> wanted L d jobID) \<and>
    sd_workQ s' = sd_workQ s \<and> ticking L (sd_cron s') = ticking L (sd_cron s)"
  by (rule reload_spec [OF assms])

theorem reload_updates_witness:
  "\<exists>s' d'. reload demo_cron (demo_db True) 7 (newScheduler demo_cron, empty_db) = (s', d') \<and>
     planned demo_cron s' 7 = None \<and> sched_ok demo_cron s'"
proof -
  obtain s' d' where r: "reload demo_cron (demo_db True) 7 (newScheduler demo_cron, empty_db) = (s', d')"
    by fastforce
  have "wanted demo_cron empty_db 7 = None" by (simp add: wanted_def viewJob_def row_of_def empty_db_def)
  with reload_updates [OF demo_cron_ok sched_ok_new [OF demo_cron_ok] r] r show ?thesis
    by (auto split: sum.splits)
qed

subsection \<open>Operation sequences\<close>

datatype sched_op = Reload int | Remove int | Fire nat | Work

text \<open>One operation; \<open>Work\<close> is the worker taking and running the oldest queued job.\<close>

definition sched_do :: "'c cron_lib \<Rightarrow> sync_env \<Rightarrow> sched_op \<Rightarrow> 'c sched \<times> world \<Rightarrow> 'c sched \<times> world" where
  "sched_do L E op = (\<lambda>(s, w). case op of
     Reload j \<Rightarrow> (case reload L (e_db E) j (s, w_db w) of (s, d) \<Rightarrow> (s, w\<lparr>w_db := d\<rparr>))
   | Remove j \<Rightarrow> (remove L j s, w)
   | Fire i \<Rightarrow> (trigger L i s, w)
   | Work \<Rightarrow> (case sd_workQ s of [] \<Rightarrow> (s, w)
       | j # q \<Rightarrow> (s\<lparr>sd_workQ := q\<rparr>, snd (run E j w))))"

definition sched_inv :: "'c cron_lib \<Rightarrow> 'c sched \<Rightarrow> bool" where
  "sched_inv L s \<longleftrightarrow> sched_ok L s \<and> length (sd_workQ s) \<le> workQCap"

lemma sched_ok_workQ [simp]: "sched_ok L (s\<lparr>sd_workQ := q\<rparr>) = sched_ok L s"
  by (simp add: sched_ok_def)

lemma trigger_inv: "sched_inv L s \<Longrightarrow> sched_inv L (trigger L i s)"
  using work_queue.ok_offer [of "sd_workQ s"]
  by (auto simp: sched_inv_def trigger_def split: option.splits)

lemma sched_do_inv:
  assumes "cron_ok L" and "sched_inv L s" and "sched_do L E op (s, w) = (s', w')"
  shows "sched_inv L s'"
proof (cases op)
  case (Reload j)
  then obtain d where "reload L (e_db E) j (s, w_db w) = (s', d)"
    using assms(3) by (auto simp: sched_do_def split: prod.splits)
  from reload_spec [OF assms(1) _ this] assms(2) show ?thesis by (simp add: sched_inv_def)
next
  case (Remove j)
  then show ?thesis
    using assms unschedule_spec [OF assms(1), of s j] unschedule_frame [OF assms(1), of j s]
    by (auto simp: sched_do_def remove_def sched_inv_def)
next
  case (Fire i)
  then show ?thesis using assms trigger_inv [of L s i] by (auto simp: sched_do_def)
next
  case Work
  then show ?thesis using assms(2,3) by (auto simp: sched_do_def sched_inv_def split: list.splits)
qed

text \<open>
  In every state a scheduler can reach by starting and then any sequence of reloads, removals,
  triggers and work, each job has at most one cron entry, the one the scheduler can remove, there
  is no cron entry that it does not know, and at most 256 triggered jobs are waiting.
\<close>
theorem scheduler_invariant:
  assumes "cron_ok L" and "db_ok (w_db w)" and "start L (e_db E) (newScheduler L, w_db w) = (r, s0, d)"
    and "fold (sched_do L E) ops (s0, w\<lparr>w_db := d\<rparr>) = (s, w')"
  shows "length (sd_workQ s) \<le> 256 \<and>
    (\<forall>i1 i2 spec1 spec2 j. live L (sd_cron s) i1 = Some (spec1, j) \<and> live L (sd_cron s) i2 = Some (spec2, j) \<longrightarrow>
       i1 = i2 \<and> sd_entries s j = Some i1)"
proof -
  have "sched_inv L s0"
    using start_contract [OF assms(1-3)] start_queue [OF assms(1,3)] by (simp add: sched_inv_def newScheduler_def)
  moreover have "sched_inv L (fst (fold (sched_do L E) ops c))" if "sched_inv L (fst c)" for c
    using that
  proof (induction ops arbitrary: c)
    case (Cons op ops)
    obtain s1 w1 where "sched_do L E op c = (s1, w1)" by fastforce
    with sched_do_inv [OF assms(1), of "fst c" E op "snd c"] Cons show ?case by simp
  qed simp
  ultimately have inv: "sched_inv L s" using assms(4) by (metis fst_conv)
  then have ok: "sched_ok L s" and "length (sd_workQ s) \<le> 256"
    by (simp_all add: sched_inv_def workQCap_def)
  moreover have "i1 = i2 \<and> sd_entries s j = Some i1"
    if "live L (sd_cron s) i1 = Some (spec1, j)" "live L (sd_cron s) i2 = Some (spec2, j)" for i1 i2 spec1 spec2 j
  proof -
    have "sd_entries s j = Some i1" "sd_entries s j = Some i2" using that sched_okD [OF ok] by blast+
    then show ?thesis by simp
  qed
  ultimately show ?thesis by blast
qed

theorem scheduler_invariant_witness:
  "\<exists>s w'. fold (sched_do demo_cron demo_sync) [Reload 1, Fire 0, Work, Remove 1]
      (fst (snd (start demo_cron (demo_db True) (newScheduler demo_cron, w_db demo_world))),
       demo_world\<lparr>w_db := snd (snd (start demo_cron (demo_db True) (newScheduler demo_cron, w_db demo_world)))\<rparr>) = (s, w') \<and>
     length (sd_workQ s) \<le> 256"
proof -
  obtain r s0 d where st: "start demo_cron (e_db demo_sync) (newScheduler demo_cron, w_db demo_world) = (r, s0, d)"
    by (metis prod.exhaust)
  obtain s w' where f: "fold (sched_do demo_cron demo_sync) [Reload 1, Fire 0, Work, Remove 1] (s0, demo_world\<lparr>w_db := d\<rparr>) = (s, w')"
    by fastforce
  from scheduler_invariant [OF demo_cron_ok demo_world_ok st f] have "length (sd_workQ s) \<le> 256" by (rule conjunct1)
  then show ?thesis using st f by simp
qed

subsection \<open>The queue and the worker\<close>

text \<open>
  The scheduler with its worker, the cron runner and the rest of the program as one system. An
  event tells which job was triggered and whether it was queued, and which job was run.
\<close>

datatype sys_ev = Fired int bool | Ran int | Other

inductive sys_step :: "'c cron_lib \<Rightarrow> sync_env \<Rightarrow> 'c sched \<times> world \<Rightarrow> sys_ev \<Rightarrow> 'c sched \<times> world \<Rightarrow> bool" for L E where
  fired: "live L (sd_cron s) i = Some (spec, j) \<Longrightarrow> ticking L (sd_cron s) \<Longrightarrow>
    sys_step L E (s, w) (Fired j (length (sd_workQ s) < workQCap)) (trigger L i s, w)"
| ran: "worker_step E (s, w) (Some j) (s', w') \<Longrightarrow> sys_step L E (s, w) (Ran j) (s', w')"
| phase: "worker_step E (s, w) None (s', w') \<Longrightarrow> sys_step L E (s, w) Other (s', w')"
| reloaded: "reload L (e_db E) j (s, w_db w) = (s', d) \<Longrightarrow> sys_step L E (s, w) Other (s', w\<lparr>w_db := d\<rparr>)"
| removed: "sys_step L E (s, w) Other (remove L j s, w)"
| stopped: "stop L s = Some s' \<Longrightarrow> sys_step L E (s, w) Other (s', w)"
| elsewhere: "sys_step L E (s, w) Other (s, w')"

inductive sys_run :: "'c cron_lib \<Rightarrow> sync_env \<Rightarrow> 'c sched \<times> world \<Rightarrow> sys_ev list \<Rightarrow> 'c sched \<times> world \<Rightarrow> bool" for L E where
  begun: "sys_run L E c [] c"
| more: "sys_run L E c evs c' \<Longrightarrow> sys_step L E c' e c'' \<Longrightarrow> sys_run L E c (evs @ [e]) c''"

fun queued :: "sys_ev list \<Rightarrow> int list" where
  "queued [] = []"
| "queued (Fired j True # evs) = j # queued evs"
| "queued (_ # evs) = queued evs"

fun executed :: "sys_ev list \<Rightarrow> int list" where
  "executed [] = []"
| "executed (Ran j # evs) = j # executed evs"
| "executed (_ # evs) = executed evs"

lemma queued_append [simp]: "queued (xs @ ys) = queued xs @ queued ys"
  by (induction xs rule: queued.induct) simp_all

lemma executed_append [simp]: "executed (xs @ ys) = executed xs @ executed ys"
  by (induction xs rule: executed.induct) simp_all

text \<open>What one step does to the queue, and when cron is stopped.\<close>

lemma reload_frame:
  assumes "cron_ok L" and "reload L D j (s, d) = (s', d')"
  shows "sd_workQ s' = sd_workQ s \<and> ticking L (sd_cron s') = ticking L (sd_cron s) \<and>
    sd_stopQ s' = sd_stopQ s \<and> sd_worker s' = sd_worker s"
  using assms(2) unschedule_frame [OF assms(1), of j s] scheduleJob_frame [OF assms(1)]
  by (auto simp: reload_def Let_def split: prod.splits sum.splits if_splits)

definition quiet_inv :: "'c cron_lib \<Rightarrow> 'c sched \<Rightarrow> bool" where
  "quiet_inv L s \<longleftrightarrow> (sd_stopQ s \<longrightarrow> \<not> ticking L (sd_cron s)) \<and> (sd_worker s \<noteq> Working \<longrightarrow> sd_stopQ s) \<and>
     (sd_worker s = Exited \<longrightarrow> sd_workQ s = [])"

lemma worker_step_queue:
  "worker_step E c r c' \<Longrightarrow> sd_workQ (fst c) = (case r of None \<Rightarrow> [] | Some j \<Rightarrow> [j]) @ sd_workQ (fst c') \<and>
     sd_cron (fst c') = sd_cron (fst c) \<and> sd_stopQ (fst c') = sd_stopQ (fst c) \<and>
     (sd_worker (fst c) \<noteq> Exited) \<and> (sd_worker (fst c') \<noteq> Working \<longrightarrow> sd_worker (fst c) \<noteq> Working \<or> sd_stopQ (fst c)) \<and>
     (sd_worker (fst c') = Exited \<longrightarrow> sd_workQ (fst c') = [])"
  by (induction rule: worker_step.induct) auto

lemma sys_step_queue:
  assumes "cron_ok L"
  shows "sys_step L E c e c' \<Longrightarrow> quiet_inv L (fst c) \<Longrightarrow>
    quiet_inv L (fst c') \<and> sd_workQ (fst c) @ queued [e] = executed [e] @ sd_workQ (fst c')"
proof (induction rule: sys_step.induct)
  case (fired s i spec j w)
  then show ?case by (auto simp: trigger_def offerJob_def quiet_inv_def)
next
  case (ran s w j s' w')
  from worker_step_queue [OF this(1)] ran(2) show ?case by (auto simp: quiet_inv_def)
next
  case (phase s w s' w')
  from worker_step_queue [OF this(1)] phase(2) show ?case by (auto simp: quiet_inv_def)
next
  case (reloaded j s w s' d)
  from reload_frame [OF assms this(1)] reloaded(2) show ?case by (simp add: quiet_inv_def)
next
  case (removed s w j)
  with unschedule_frame [OF assms, of j s] show ?case by (simp add: remove_def quiet_inv_def)
next
  case (stopped s s' w)
  then show ?case using assms by (auto simp: stop_def quiet_inv_def cron_ops split: if_splits)
qed simp

lemma sys_run_queue:
  assumes "cron_ok L"
  shows "sys_run L E c evs c' \<Longrightarrow> quiet_inv L (fst c) \<Longrightarrow>
    quiet_inv L (fst c') \<and> sd_workQ (fst c) @ queued evs = executed evs @ sd_workQ (fst c')"
proof (induction rule: sys_run.induct)
  case (more c evs c' e c'')
  from more.IH [OF more.prems] sys_step_queue [OF assms more.hyps(2)]
  have "quiet_inv L (fst c'')" "sd_workQ (fst c) @ queued evs = executed evs @ sd_workQ (fst c')"
    "sd_workQ (fst c') @ queued [e] = executed [e] @ sd_workQ (fst c'')" by simp_all
  then show ?case by (metis append.assoc executed_append queued_append)
qed simp

text \<open>
  C37: Queued jobs run in order, each once. Whatever the interleaving of triggers, reloads, work
  and other activity, the jobs that were queued are exactly those that were run, in the same
  order, followed by those still waiting; a trigger is only refused while 256 jobs are waiting;
  and when the worker has exited nothing that was ever queued has been left out.
\<close>
theorem queue_fifo:
  assumes "cron_ok L" and "quiet_inv L s0" and "sd_workQ s0 = []"
    and "sys_run L E (s0, w0) evs (s, w)"
  shows "queued evs = executed evs @ sd_workQ s \<and>
    (\<forall>j c'. sys_step L E (s, w) (Fired j False) c' \<longrightarrow> 256 \<le> length (sd_workQ s)) \<and>
    (sd_worker s = Exited \<longrightarrow> queued evs = executed evs)"
proof -
  note q = sys_run_queue [OF assms(1,4)]
  have "256 \<le> length (sd_workQ s)" if "sys_step L E (s, w) (Fired j False) c'" for j c'
    using that by (cases rule: sys_step.cases) (simp add: workQCap_def)
  then show ?thesis using q assms(2,3) by (auto simp: quiet_inv_def)
qed

lemma quiet_inv_new: "cron_ok L \<Longrightarrow> quiet_inv L (newScheduler L)"
  by (simp add: quiet_inv_def newScheduler_def)

definition demo_sched :: "((nat \<times> string \<times> int) list \<times> nat \<times> bool) sched" where
  "demo_sched = \<lparr>sd_cron = ([(0, ''@hourly'', 1)], 1, True), sd_entries = [1 \<mapsto> 0], sd_workQ = [],
     sd_stopQ = False, sd_worker = Working\<rparr>"

lemma demo_sched_run:
  "sys_run demo_cron demo_sync (demo_sched, demo_world) ([] @ [Fired 1 True] @ [Ran 1])
     (demo_sched, snd (run demo_sync 1 demo_world))"
proof -
  have live: "live demo_cron (sd_cron demo_sched) 0 = Some (''@hourly'', 1)" "ticking demo_cron (sd_cron demo_sched)"
    by (simp_all add: demo_cron_def demo_sched_def)
  have q: "sd_workQ demo_sched = []" by (simp add: demo_sched_def)
  have "sys_step demo_cron demo_sync (demo_sched, demo_world) (Fired 1 True)
      (demo_sched\<lparr>sd_workQ := [1]\<rparr>, demo_world)"
    using sys_step.fired [OF live, of demo_sync demo_world]
    by (simp add: q trigger_def live offerJob_def workQCap_def)
  with sys_run.begun have "sys_run demo_cron demo_sync (demo_sched, demo_world) ([] @ [Fired 1 True])
      (demo_sched\<lparr>sd_workQ := [1]\<rparr>, demo_world)" by (rule sys_run.more)
  moreover have "worker_step demo_sync (demo_sched\<lparr>sd_workQ := [1]\<rparr>, demo_world) (Some 1)
      (demo_sched\<lparr>sd_workQ := [1], sd_workQ := []\<rparr>, snd (run demo_sync 1 demo_world))"
    by (rule worker_step.take) (simp_all add: demo_sched_def)
  then have "sys_step demo_cron demo_sync (demo_sched\<lparr>sd_workQ := [1]\<rparr>, demo_world) (Ran 1)
      (demo_sched, snd (run demo_sync 1 demo_world))"
    using q by (intro sys_step.ran) (simp add: demo_sched_def)
  ultimately show ?thesis unfolding append_assoc [symmetric] by (rule sys_run.more)
qed

theorem queue_fifo_witness:
  "sys_run demo_cron demo_sync (demo_sched, demo_world) ([] @ [Fired 1 True] @ [Ran 1])
     (demo_sched, snd (run demo_sync 1 demo_world)) \<and>
   queued [Fired 1 True, Ran 1] = executed [Fired 1 True, Ran 1]"
proof -
  have "quiet_inv demo_cron demo_sched" "sd_workQ demo_sched = []"
    by (simp_all add: quiet_inv_def demo_sched_def)
  from queue_fifo [OF demo_cron_ok this demo_sched_run] demo_sched_run show ?thesis
    by (simp add: demo_sched_def)
qed

subsection \<open>Stopping\<close>

inductive worker_run :: "sync_env \<Rightarrow> 'c sched \<times> world \<Rightarrow> int option list \<Rightarrow> 'c sched \<times> world \<Rightarrow> bool" for E where
  halted: "worker_run E c [] c"
| next_step: "worker_step E c r c' \<Longrightarrow> worker_run E c' rs c'' \<Longrightarrow> worker_run E c (r # rs) c''"

fun phase_left :: "worker_state \<Rightarrow> nat" where
  "phase_left Working = 2"
| "phase_left Draining = 1"
| "phase_left Exited = 0"

definition work_left :: "'c sched \<times> world \<Rightarrow> nat" where
  "work_left c = length (sd_workQ (fst c)) + phase_left (sd_worker (fst c))"

lemma worker_step_left: "worker_step E c r c' \<Longrightarrow> work_left c = Suc (work_left c')"
  by (induction rule: worker_step.induct) (simp_all add: work_left_def)

lemma worker_step_world:
  "worker_step E c r c' \<Longrightarrow> snd c' = (case r of None \<Rightarrow> snd c | Some j \<Rightarrow> snd (run E j (snd c)))"
  by (induction rule: worker_step.induct) auto

definition jobs_of :: "int option list \<Rightarrow> int list" where
  "jobs_of rs = concat (map (\<lambda>r. case r of None \<Rightarrow> [] | Some j \<Rightarrow> [j]) rs)"

lemma worker_run_facts:
  "worker_run E c rs c' \<Longrightarrow> work_left c = length rs + work_left c' \<and>
     sd_workQ (fst c) = jobs_of rs @ sd_workQ (fst c') \<and> sd_stopQ (fst c') = sd_stopQ (fst c) \<and>
     snd c' = fold (\<lambda>j w. snd (run E j w)) (jobs_of rs) (snd c)"
proof (induction rule: worker_run.induct)
  case (next_step c r c' rs c'')
  from worker_step_left [OF next_step(1)] worker_step_queue [OF next_step(1)] worker_step_world [OF next_step(1)]
    next_step.IH
  show ?case by (cases r) (simp_all add: jobs_of_def)
qed (simp add: jobs_of_def)

lemma worker_run_exited:
  "worker_run E c rs c' \<Longrightarrow> (sd_worker (fst c) = Exited \<longrightarrow> sd_workQ (fst c) = []) \<Longrightarrow>
     sd_worker (fst c') = Exited \<longrightarrow> sd_workQ (fst c') = []"
  by (induction rule: worker_run.induct) (auto dest: worker_step_queue)

lemma worker_progress:
  assumes "sd_stopQ (fst c)" and "\<nexists>r c'. worker_step E c r c'"
  shows "sd_worker (fst c) = Exited"
proof (rule ccontr)
  obtain s w where c: "c = (s, w)" by fastforce
  assume a: "sd_worker (fst c) \<noteq> Exited"
  show False
  proof (cases "sd_workQ s")
    case Nil
    then have "\<exists>r c'. worker_step E (s, w) r c'"
      using a assms(1) worker_step.notice [of s E w] worker_step.exit [of s E w] c
      by (cases "sd_worker s") auto
    then show False using assms(2) c by blast
  next
    case (Cons j q)
    then show False using worker_step.take [of s j q E w] a assms(2) c by auto
  qed
qed

text \<open>
  C38: After the queue is closed the worker finishes. It makes at most two steps more than there
  are jobs waiting, and when it can make no further step it has exited, the queue is empty, and
  the world is that of running exactly the waiting jobs one after the other in their order.
\<close>
theorem worker_drains:
  assumes "sd_stopQ s" and "sd_worker s \<noteq> Exited" and "worker_run E (s, w) rs (s', w')"
  shows "length rs \<le> length (sd_workQ s) + 2 \<and>
    ((\<nexists>r c'. worker_step E (s', w') r c') \<longrightarrow> sd_worker s' = Exited \<and> sd_workQ s' = [] \<and>
       jobs_of rs = sd_workQ s \<and> w' = fold (\<lambda>j w. snd (run E j w)) (sd_workQ s) w)"
proof -
  note f = worker_run_facts [OF assms(3), simplified]
  have "work_left (s, w) \<le> length (sd_workQ s) + 2" by (cases "sd_worker s") (simp_all add: work_left_def)
  then have 1: "length rs \<le> length (sd_workQ s) + 2" using f by simp
  have 2: "sd_worker s' = Exited" if "\<nexists>r c'. worker_step E (s', w') r c'"
    using worker_progress [of "(s', w')" E] that f assms(1) by simp
  have 3: "sd_worker s' = Exited \<Longrightarrow> sd_workQ s' = []"
    using worker_run_exited [OF assms(3)] assms(2) by simp
  show ?thesis using 1 2 3 f by auto
qed

theorem worker_drains_witness:
  "\<exists>w'. worker_run demo_sync (demo_sched\<lparr>sd_stopQ := True\<rparr>, demo_world) [None, None]
      (demo_sched\<lparr>sd_stopQ := True, sd_worker := Draining, sd_worker := Exited\<rparr>, w') \<and>
    length [None :: int option, None] \<le> length (sd_workQ (demo_sched\<lparr>sd_stopQ := True\<rparr>)) + 2"
proof -
  let ?s = "demo_sched\<lparr>sd_stopQ := True\<rparr>"
  have "worker_step demo_sync (?s, demo_world) None (?s\<lparr>sd_worker := Draining\<rparr>, demo_world)"
    by (rule worker_step.notice) (simp_all add: demo_sched_def)
  moreover have "worker_step demo_sync (?s\<lparr>sd_worker := Draining\<rparr>, demo_world) None
      (?s\<lparr>sd_worker := Draining, sd_worker := Exited\<rparr>, demo_world)"
    by (rule worker_step.exit) (simp_all add: demo_sched_def)
  ultimately have r: "worker_run demo_sync (?s, demo_world) [None, None]
      (?s\<lparr>sd_worker := Draining, sd_worker := Exited\<rparr>, demo_world)"
    by (rule worker_run.next_step [OF _ worker_run.next_step [OF _ worker_run.halted]])
  have "sd_stopQ ?s" "sd_worker ?s \<noteq> Exited" by (simp_all add: demo_sched_def)
  from worker_drains [OF this r] r show ?thesis by blast
qed

text \<open>
  Stopping does not wait for that. The call returns with the queue as it was and the worker not
  yet told, so jobs that were accepted may still be waiting; and a second call panics.
\<close>
theorem stop_returns_early:
  assumes "stop L s = Some s'"
  shows "sd_workQ s' = sd_workQ s \<and> sd_worker s' = sd_worker s \<and> stop L s' = None"
  using assms by (auto simp: stop_def split: if_splits)

theorem stop_returns_early_witness:
  "\<exists>s'. stop demo_cron (demo_sched\<lparr>sd_workQ := [1]\<rparr>) = Some s' \<and> sd_workQ s' = [1] \<and> sd_worker s' = Working"
proof -
  obtain s' where r: "stop demo_cron (demo_sched\<lparr>sd_workQ := [1]\<rparr>) = Some s'"
    by (simp add: stop_def demo_sched_def)
  from stop_returns_early [OF r] r show ?thesis by (simp add: demo_sched_def)
qed

end
