(* ===== verification/Web.thy ===== *)
theory Web
  imports Scheduler Unifi_Client
begin

text \<open>
  The HTTP interface, \<^verbatim>\<open>internal/web/handler.go\<close>: the routes, the handlers over the store, the
  syncer, the scheduler and the controller client, and the middleware that records each response.

  A reply is its status and the JSON value that is encoded into its body. Request bodies reach the
  handlers through \<open>we_decode\<close>, the text parser of \<^verbatim>\<open>encoding/json\<close>; what fills the structs is
  modelled. The embedded user interface is the argument \<open>we_static\<close>. Handlers of the source whose
  names the store already uses have the suffix H.
\<close>

record http_in =
  hr_method :: string
  hr_path :: "string list"
  hr_limit :: string
  hr_body :: string

record reply =
  rp_status :: nat
  rp_body :: "json option"

record 'c app =
  ap_world :: world
  ap_sched :: "'c sched"
  ap_spawned :: "int list"

record 'c web_env =
  we_sync :: sync_env
  we_cron :: "'c cron_lib"
  we_decode :: "string \<Rightarrow> json res"
  we_static :: "string list \<Rightarrow> reply"

definition onStore :: "(db \<Rightarrow> 'a \<times> db) \<Rightarrow> 'c app \<Rightarrow> 'a \<times> 'c app" where
  "onStore f a = (case f (w_db (ap_world a)) of (r, d) \<Rightarrow> (r, a\<lparr>ap_world := (ap_world a)\<lparr>w_db := d\<rparr>\<rparr>))"

subsection \<open>Numbers, requests and replies\<close>

text \<open>\<^verbatim>\<open>strconv.ParseInt(s, 10, 64)\<close>: an optional sign, then digits, within 64 bits.\<close>

definition parseInt64 :: "string \<Rightarrow> int option" where
  "parseInt64 s =
     (let neg = hasPrefix s ''-''; ds = (if hasPrefix s ''-'' \<or> hasPrefix s ''+'' then tl s else s);
          n = int (digits_val 0 ds) in
      if ds = [] \<or> \<not> (\<forall>c \<in> set ds. is_digit c) then None
      else if neg then (if n \<le> 2 ^ 63 then Some (- n) else None)
      else (if n < 2 ^ 63 then Some n else None))"

definition parseID :: "string \<Rightarrow> int option" where
  "parseID pathValue = parseInt64 pathValue"

definition writeJSON :: "nat \<Rightarrow> json \<Rightarrow> reply" where
  "writeJSON status v = \<lparr>rp_status = status, rp_body = Some v\<rparr>"

definition writeError :: "nat \<Rightarrow> string \<Rightarrow> reply" where
  "writeError status msg = writeJSON status (JObj [(''error'', JStr msg)])"

definition noContent :: reply where
  "noContent = \<lparr>rp_status = 204, rp_body = None\<rparr>"

definition placeholder :: string where
  \<comment> \<open>eight times U+2022, in UTF-8\<close>
  "placeholder = concat (replicate 8 [char_of (226 :: nat), char_of (128 :: nat), char_of (162 :: nat)])"

subsection \<open>Structs in JSON\<close>

definition jint :: "int \<Rightarrow> json" where
  "jint i = JNum (itoa_int i)"

definition jopt :: "string option \<Rightarrow> json" where
  "jopt s = (case s of None \<Rightarrow> JNull | Some t \<Rightarrow> JStr t)"

definition controllerJSON :: "Controller \<Rightarrow> json" where
  "controllerJSON c = JObj ([(''id'', jint (c_id c)), (''name'', JStr (c_name c)), (''url'', JStr (c_url c))] @
     (if c_apiKey c = [] then [] else [(''api_key'', JStr (c_apiKey c))]) @
     [(''site'', JStr (c_site c)), (''skip_tls_verify'', JBool (c_skipTLSVerify c)),
      (''created_at'', JStr (c_createdAt c)), (''updated_at'', JStr (c_updatedAt c))])"

definition jobJSON :: "SyncJob \<Rightarrow> json" where
  "jobJSON j = JObj ([(''id'', jint (j_id j)), (''name'', JStr (j_name j)),
     (''controller_id'', jint (j_controllerID j)), (''network_list_id'', JStr (j_networkListID j)),
     (''hostnames'', JStr (j_hostnames j)), (''schedule'', JStr (j_schedule j)),
     (''observed_ip_ttl_hours'', jint (j_ttlHours j)), (''enabled'', JBool (j_enabled j)),
     (''last_run_at'', jopt (j_lastRunAt j)), (''last_result'', jopt (j_lastResult j)),
     (''created_at'', JStr (j_createdAt j)), (''updated_at'', JStr (j_updatedAt j))] @
     (if j_controllerName j = [] then [] else [(''controller_name'', JStr (j_controllerName j))]))"

definition runLogJSON :: "RunLog \<Rightarrow> json" where
  "runLogJSON l = JObj [(''id'', jint (l_id l)), (''job_id'', jint (l_jobID l)),
     (''started_at'', JStr (l_startedAt l)), (''finished_at'', jopt (l_finishedAt l)),
     (''status'', JStr (l_status l)), (''message'', JStr (l_message l)),
     (''changes_made'', jint (l_changesMade l)), (''details'', JStr (l_details l))]"

definition dnsServerJSON :: "DNSServer \<Rightarrow> json" where
  "dnsServerJSON d = JObj [(''id'', jint (d_id d)), (''name'', JStr (d_name d)),
     (''address'', JStr (d_address d)), (''enabled'', JBool (d_enabled d)),
     (''created_at'', JStr (d_createdAt d)), (''updated_at'', JStr (d_updatedAt d))]"

definition networkListJSON :: "NetworkList \<Rightarrow> json" where
  "networkListJSON nl = JObj ([(''type'', JStr (nl_type nl)), (''id'', JStr (nl_id nl)), (''name'', JStr (nl_name nl))] @
     (if nl_items nl = [] then [] else [(''items'', JArr (map itemJSON (nl_items nl)))]))"

text \<open>Filling a field from the members of its name: later ones overwrite, null leaves it alone.\<close>

fun setWith :: "(json \<Rightarrow> 'a option) \<Rightarrow> json list \<Rightarrow> 'a \<Rightarrow> 'a option" where
  "setWith f [] a = Some a"
| "setWith f (JNull # vs) a = setWith f vs a"
| "setWith f (v # vs) a = (case f v of None \<Rightarrow> None | Some b \<Rightarrow> setWith f vs b)"

definition strField :: "string \<Rightarrow> (string \<times> json) list \<Rightarrow> string option" where
  "strField name obj = setWith (\<lambda>v. case v of JStr s \<Rightarrow> Some s | _ \<Rightarrow> None) (members name obj) []"

definition intField :: "string \<Rightarrow> (string \<times> json) list \<Rightarrow> int option" where
  "intField name obj = setWith (\<lambda>v. case v of JNum n \<Rightarrow> parseInt64 n | _ \<Rightarrow> None) (members name obj) 0"

definition boolField :: "string \<Rightarrow> (string \<times> json) list \<Rightarrow> bool option" where
  "boolField name obj = setWith (\<lambda>v. case v of JBool b \<Rightarrow> Some b | _ \<Rightarrow> None) (members name obj) False"

text \<open>A pointer field: null sets it to nil.\<close>

fun setPtr :: "json list \<Rightarrow> string option \<Rightarrow> string option option" where
  "setPtr [] p = Some p"
| "setPtr (JNull # vs) p = setPtr vs None"
| "setPtr (JStr s # vs) p = setPtr vs (Some s)"
| "setPtr (_ # vs) p = None"

definition ptrField :: "string \<Rightarrow> (string \<times> json) list \<Rightarrow> string option option" where
  "ptrField name obj = setPtr (members name obj) None"

definition decodeObject :: "'c web_env \<Rightarrow> string \<Rightarrow> (string \<times> json) list option" where
  "decodeObject W body =
     (case we_decode W body of Inr (JObj obj) \<Rightarrow> Some obj | Inr JNull \<Rightarrow> Some [] | _ \<Rightarrow> None)"

definition decodeController :: "'c web_env \<Rightarrow> string \<Rightarrow> Controller option" where
  "decodeController W body =
     Option.bind (decodeObject W body) (\<lambda>obj.
     Option.bind (intField ''id'' obj) (\<lambda>i. Option.bind (strField ''name'' obj) (\<lambda>name.
     Option.bind (strField ''url'' obj) (\<lambda>url. Option.bind (strField ''api_key'' obj) (\<lambda>key.
     Option.bind (strField ''site'' obj) (\<lambda>site. Option.bind (boolField ''skip_tls_verify'' obj) (\<lambda>skip.
     Option.bind (strField ''created_at'' obj) (\<lambda>created. Option.bind (strField ''updated_at'' obj) (\<lambda>updated.
       Some \<lparr>c_id = i, c_name = name, c_url = url, c_apiKey = key, c_site = site, c_skipTLSVerify = skip,
             c_createdAt = created, c_updatedAt = updated\<rparr>)))))))))"

definition decodeJob :: "'c web_env \<Rightarrow> string \<Rightarrow> SyncJob option" where
  "decodeJob W body =
     Option.bind (decodeObject W body) (\<lambda>obj.
     Option.bind (intField ''id'' obj) (\<lambda>i. Option.bind (strField ''name'' obj) (\<lambda>name.
     Option.bind (intField ''controller_id'' obj) (\<lambda>ctrl. Option.bind (strField ''network_list_id'' obj) (\<lambda>list.
     Option.bind (strField ''hostnames'' obj) (\<lambda>hosts. Option.bind (strField ''schedule'' obj) (\<lambda>schedule.
     Option.bind (intField ''observed_ip_ttl_hours'' obj) (\<lambda>ttl. Option.bind (boolField ''enabled'' obj) (\<lambda>enabled.
     Option.bind (ptrField ''last_run_at'' obj) (\<lambda>lastRun. Option.bind (ptrField ''last_result'' obj) (\<lambda>lastResult.
     Option.bind (strField ''created_at'' obj) (\<lambda>created. Option.bind (strField ''updated_at'' obj) (\<lambda>updated.
     Option.bind (strField ''controller_name'' obj) (\<lambda>cname.
       Some \<lparr>j_id = i, j_name = name, j_controllerID = ctrl, j_networkListID = list, j_hostnames = hosts,
             j_schedule = schedule, j_ttlHours = ttl, j_enabled = enabled, j_lastRunAt = lastRun,
             j_lastResult = lastResult, j_createdAt = created, j_updatedAt = updated,
             j_controllerName = cname\<rparr>))))))))))))))"

definition decodeDNSServer :: "'c web_env \<Rightarrow> string \<Rightarrow> DNSServer option" where
  "decodeDNSServer W body =
     Option.bind (decodeObject W body) (\<lambda>obj.
     Option.bind (intField ''id'' obj) (\<lambda>i. Option.bind (strField ''name'' obj) (\<lambda>name.
     Option.bind (strField ''address'' obj) (\<lambda>addr. Option.bind (boolField ''enabled'' obj) (\<lambda>enabled.
     Option.bind (strField ''created_at'' obj) (\<lambda>created. Option.bind (strField ''updated_at'' obj) (\<lambda>updated.
       Some \<lparr>d_id = i, d_name = name, d_address = addr, d_enabled = enabled, d_createdAt = created,
             d_updatedAt = updated\<rparr>)))))))"

subsection \<open>Controllers\<close>

type_synonym 'c handler = "'c web_env \<Rightarrow> http_in \<Rightarrow> 'c app \<Rightarrow> reply \<times> 'c app"

definition dbOf :: "'c web_env \<Rightarrow> dbenv" where
  "dbOf W = e_db (we_sync W)"

definition redact :: "Controller \<Rightarrow> Controller" where
  "redact c = (if c_apiKey c \<noteq> [] then c\<lparr>c_apiKey := placeholder\<rparr> else c)"

definition listControllersH :: "'c handler" where
  "listControllersH W r a =
     (case onStore (listControllers (dbOf W)) a of
        (Inl err, a) \<Rightarrow> (writeError 500 err, a)
      | (Inr ctrls, a) \<Rightarrow> (writeJSON 200 (JArr (map (controllerJSON \<circ> redact) ctrls)), a))"

definition createControllerH :: "'c handler" where
  "createControllerH W r a =
     (case decodeController W (hr_body r) of
        None \<Rightarrow> (writeError 400 ''invalid JSON'', a)
      | Some c \<Rightarrow>
          if c_name c = [] \<or> c_url c = [] \<or> c_apiKey c = []
          then (writeError 400 ''missing required fields'', a)
          else (case onStore (createController (dbOf W) c) a of
              ((Inl err, c), a) \<Rightarrow> (writeError 500 err, a)
            | ((Inr i, c), a) \<Rightarrow>
                (writeJSON 201 (controllerJSON (c\<lparr>c_id := i, c_apiKey := placeholder\<rparr>)), a)))"

definition getControllerH :: "string \<Rightarrow> 'c handler" where
  "getControllerH pathID W r a =
     (case parseID pathID of
        None \<Rightarrow> (writeError 400 ''invalid controller ID'', a)
      | Some i \<Rightarrow>
          (case onStore (getController (dbOf W) i) a of
             (Inl err, a) \<Rightarrow> (writeError 404 ''controller not found'', a)
           | (Inr c, a) \<Rightarrow> (writeJSON 200 (controllerJSON (redact c)), a)))"

text \<open>The key to store on an update: the given one, or the saved one for a blank or redacted key.\<close>

definition keptKey :: "'c web_env \<Rightarrow> int \<Rightarrow> Controller \<Rightarrow> 'c app \<Rightarrow> Controller option \<times> 'c app" where
  "keptKey W i c a =
     (if c_apiKey c = [] \<or> c_apiKey c = placeholder
      then (case onStore (getController (dbOf W) i) a of
          (Inl err, a) \<Rightarrow> (None, a)
        | (Inr old, a) \<Rightarrow> (Some (c\<lparr>c_apiKey := c_apiKey old\<rparr>), a))
      else (Some c, a))"

definition updateControllerH :: "string \<Rightarrow> 'c handler" where
  "updateControllerH pathID W r a =
     (case parseID pathID of
        None \<Rightarrow> (writeError 400 ''invalid controller ID'', a)
      | Some i \<Rightarrow>
     (case decodeController W (hr_body r) of
        None \<Rightarrow> (writeError 400 ''invalid JSON'', a)
      | Some c \<Rightarrow>
     (case keptKey W i c a of
        (None, a) \<Rightarrow> (writeError 404 ''controller not found'', a)
      | (Some c, a) \<Rightarrow>
          let c = c\<lparr>c_id := i\<rparr> in
          (case onStore (updateController (dbOf W) c) a of
             (Inl err, a) \<Rightarrow> (writeError 500 err, a)
           | (Inr _, a) \<Rightarrow> (writeJSON 200 (controllerJSON (c\<lparr>c_apiKey := placeholder\<rparr>)), a)))))"

definition deleteControllerH :: "string \<Rightarrow> 'c handler" where
  "deleteControllerH pathID W r a =
     (case parseID pathID of
        None \<Rightarrow> (writeError 400 ''invalid controller ID'', a)
      | Some i \<Rightarrow>
          (case onStore (deleteController (dbOf W) i) a of
             (Inl err, a) \<Rightarrow> (writeError 500 err, a)
           | (Inr _, a) \<Rightarrow> (noContent, a)))"

text \<open>A slice that may be nil: its elements, and what is encoded of it.\<close>

definition sliceOf :: "'a list option \<Rightarrow> 'a list" where
  "sliceOf xs = (case xs of None \<Rightarrow> [] | Some ys \<Rightarrow> ys)"

definition sliceJSON :: "('a \<Rightarrow> json) \<Rightarrow> 'a list option \<Rightarrow> json" where
  "sliceJSON f xs = (case xs of None \<Rightarrow> JNull | Some ys \<Rightarrow> JArr (map f ys))"

text \<open>Asking a controller for its lists with a fresh client.\<close>

definition withHttp :: "(http_trace \<Rightarrow> ('b \<times> Client) \<times> http_trace) \<Rightarrow> 'c app \<Rightarrow> 'b \<times> 'c app" where
  "withHttp f a = (case f (w_http (ap_world a)) of
     ((r, c), tr) \<Rightarrow> (r, a\<lparr>ap_world := (ap_world a)\<lparr>w_http := tr\<rparr>\<rparr>))"

record test_req =
  tr_controllerID :: int
  tr_url :: string
  tr_site :: string
  tr_apiKey :: string
  tr_skipTLSVerify :: bool

definition decodeTest :: "'c web_env \<Rightarrow> string \<Rightarrow> test_req option" where
  "decodeTest W body =
     Option.bind (decodeObject W body) (\<lambda>obj.
     Option.bind (intField ''controller_id'' obj) (\<lambda>i. Option.bind (strField ''url'' obj) (\<lambda>url.
     Option.bind (strField ''site'' obj) (\<lambda>site. Option.bind (strField ''api_key'' obj) (\<lambda>key.
     Option.bind (boolField ''skip_tls_verify'' obj) (\<lambda>skip.
       Some \<lparr>tr_controllerID = i, tr_url = url, tr_site = site, tr_apiKey = key, tr_skipTLSVerify = skip\<rparr>))))))"

text \<open>A request without a key takes the saved one, and what else is missing from the saved controller.\<close>

definition completeTest :: "'c web_env \<Rightarrow> test_req \<Rightarrow> 'c app \<Rightarrow> (reply + test_req) \<times> 'c app" where
  "completeTest W q a =
     (if tr_apiKey q \<noteq> [] then (Inr q, a)
      else if tr_controllerID q = 0 then (Inl (writeError 400 ''api_key is required for new controllers''), a)
      else (case onStore (getController (dbOf W) (tr_controllerID q)) a of
          (Inl err, a) \<Rightarrow> (Inl (writeError 404 ''controller not found''), a)
        | (Inr old, a) \<Rightarrow>
            if c_apiKey old = [] then (Inl (writeError 400 ''no saved api_key for controller''), a)
            else (Inr (q\<lparr>tr_apiKey := c_apiKey old,
                tr_url := if tr_url q = [] then c_url old else tr_url q,
                tr_site := if tr_site q = [] then c_site old else tr_site q\<rparr>), a)))"

definition testController :: "'c handler" where
  "testController W r a =
     (case decodeTest W (hr_body r) of
        None \<Rightarrow> (writeError 400 ''invalid JSON'', a)
      | Some q \<Rightarrow>
     (case completeTest W q a of
        (Inl bad, a) \<Rightarrow> (bad, a)
      | (Inr q, a) \<Rightarrow>
          if tr_url q = [] \<or> tr_apiKey q = [] then (writeError 400 ''url and api_key are required'', a)
          else (case newClient (e_http (we_sync W)) (tr_url q) (tr_site q) (tr_apiKey q) (tr_skipTLSVerify q) of
              Inl err \<Rightarrow> (writeError 400 err, a)
            | Inr client \<Rightarrow>
                (case withHttp (listNetworkLists (e_http (we_sync W)) client) a of
                   (Inl err, a) \<Rightarrow> (writeError 502 err, a)
                 | (Inr nls, a) \<Rightarrow>
                     (writeJSON 200 (JObj [(''network_lists'', jint (int (length (sliceOf nls)))), (''ok'', JBool True)]), a)))))"

text \<open>The lists of a controller.\<close>

definition listNetworkListsH :: "string \<Rightarrow> 'c handler" where
  "listNetworkListsH pathID W r a =
     (case parseID pathID of
        None \<Rightarrow> (writeError 400 ''invalid controller ID'', a)
      | Some i \<Rightarrow>
     (case onStore (getController (dbOf W) i) a of
        (Inl err, a) \<Rightarrow> (writeError 404 ''controller not found'', a)
      | (Inr ctrl, a) \<Rightarrow>
     (case newClient (e_http (we_sync W)) (c_url ctrl) (c_site ctrl) (c_apiKey ctrl) (c_skipTLSVerify ctrl) of
        Inl err \<Rightarrow> (writeError 502 (''UniFi API key invalid: '' @ err), a)
      | Inr client \<Rightarrow>
     (case withHttp (listNetworkLists (e_http (we_sync W)) client) a of
        (Inl err, a) \<Rightarrow> (writeError 502 (''fetch network lists: '' @ err), a)
      | (Inr nls, a) \<Rightarrow> (writeJSON 200 (sliceJSON networkListJSON nls), a)))))"

subsection \<open>Jobs\<close>

definition reloadH :: "'c web_env \<Rightarrow> int \<Rightarrow> 'c app \<Rightarrow> 'c app" where
  "reloadH W i a =
     (case reload (we_cron W) (dbOf W) i (ap_sched a, w_db (ap_world a)) of
        (s, d) \<Rightarrow> a\<lparr>ap_sched := s, ap_world := (ap_world a)\<lparr>w_db := d\<rparr>\<rparr>)"

definition listJobsH :: "'c handler" where
  "listJobsH W r a =
     (case onStore (listJobs (dbOf W)) a of
        (Inl err, a) \<Rightarrow> (writeError 500 err, a)
      | (Inr jobs, a) \<Rightarrow> (writeJSON 200 (JArr (map jobJSON jobs)), a))"

definition defaultTTL :: "SyncJob \<Rightarrow> SyncJob" where
  "defaultTTL j = (if j_ttlHours j < 0 then j\<lparr>j_ttlHours := DefaultObservedIPTTLHours\<rparr> else j)"

definition createJobH :: "'c handler" where
  "createJobH W r a =
     (case decodeJob W (hr_body r) of
        None \<Rightarrow> (writeError 400 ''invalid JSON'', a)
      | Some job \<Rightarrow>
          if j_name job = [] \<or> j_controllerID job = 0 \<or> j_networkListID job = [] \<or> j_hostnames job = []
          then (writeError 400 ''missing required fields'', a)
          else (case onStore (createJob (dbOf W) (defaultTTL job)) a of
              ((Inl err, job), a) \<Rightarrow> (writeError 500 err, a)
            | ((Inr i, job), a) \<Rightarrow> (writeJSON 201 (jobJSON (job\<lparr>j_id := i\<rparr>)), reloadH W i a)))"

definition getJobH :: "string \<Rightarrow> 'c handler" where
  "getJobH pathID W r a =
     (case parseID pathID of
        None \<Rightarrow> (writeError 400 ''invalid job ID'', a)
      | Some i \<Rightarrow>
          (case onStore (getJob (dbOf W) i) a of
             (Inl err, a) \<Rightarrow> (writeError 404 ''job not found'', a)
           | (Inr job, a) \<Rightarrow> (writeJSON 200 (jobJSON job), a)))"

definition updateJobH :: "string \<Rightarrow> 'c handler" where
  "updateJobH pathID W r a =
     (case parseID pathID of
        None \<Rightarrow> (writeError 400 ''invalid job ID'', a)
      | Some i \<Rightarrow>
     (case decodeJob W (hr_body r) of
        None \<Rightarrow> (writeError 400 ''invalid JSON'', a)
      | Some job \<Rightarrow>
          (case onStore (updateJob (dbOf W) ((defaultTTL job)\<lparr>j_id := i\<rparr>)) a of
             ((Inl err, job), a) \<Rightarrow> (writeError 500 err, a)
           | ((Inr _, job), a) \<Rightarrow> (writeJSON 200 (jobJSON job), reloadH W i a))))"

definition deleteJobH :: "string \<Rightarrow> 'c handler" where
  "deleteJobH pathID W r a =
     (case parseID pathID of
        None \<Rightarrow> (writeError 400 ''invalid job ID'', a)
      | Some i \<Rightarrow>
          let a = a\<lparr>ap_sched := remove (we_cron W) i (ap_sched a)\<rparr> in
          (case onStore (deleteJob (dbOf W) i) a of
             (Inl err, a) \<Rightarrow> (writeError 500 err, a)
           | (Inr _, a) \<Rightarrow> (noContent, a)))"

text \<open>Running a job starts a goroutine, which is recorded, and answers at once.\<close>

definition runJobH :: "string \<Rightarrow> 'c handler" where
  "runJobH pathID W r a =
     (case parseID pathID of
        None \<Rightarrow> (writeError 400 ''invalid job ID'', a)
      | Some i \<Rightarrow>
          (case onStore (getJob (dbOf W) i) a of
             (Inl err, a) \<Rightarrow> (writeError 404 ''job not found'', a)
           | (Inr job, a) \<Rightarrow> (writeJSON 202 (JObj [(''status'', JStr ''started'')]),
                a\<lparr>ap_spawned := ap_spawned a @ [i]\<rparr>)))"

definition logLimit :: "string \<Rightarrow> int" where
  "logLimit l = (case parseInt64 l of Some n \<Rightarrow> if n > 0 \<and> n \<le> 200 then n else 50 | None \<Rightarrow> 50)"

definition getJobLogs :: "string \<Rightarrow> 'c handler" where
  "getJobLogs pathID W r a =
     (case parseID pathID of
        None \<Rightarrow> (writeError 400 ''invalid job ID'', a)
      | Some i \<Rightarrow>
          (case onStore (getRunLogs (dbOf W) i (logLimit (hr_limit r))) a of
             (Inl err, a) \<Rightarrow> (writeError 500 err, a)
           | (Inr logs, a) \<Rightarrow> (writeJSON 200 (JArr (map runLogJSON logs)), a)))"

definition resolveHostnamesH :: "'c handler" where
  "resolveHostnamesH W r a =
     (case Option.bind (decodeObject W (hr_body r)) (strField ''hostnames'') of
        None \<Rightarrow> (writeError 400 ''invalid JSON'', a)
      | Some hosts \<Rightarrow>
     (case onStore (listEnabledDNSServerAddresses (dbOf W)) a of (listed, a) \<Rightarrow>
        let servers = (case listed of Inl _ \<Rightarrow> [] | Inr servers \<Rightarrow> servers) in
        if servers = []
        then (writeError 422 ''no DNS servers configured: add at least one enabled DNS server'', a)
        else (case resolveHostnames (e_dns (we_sync W)) hosts servers (w_dns (ap_world a)) of
            (Inl err, tr) \<Rightarrow> (writeError 422 err, a\<lparr>ap_world := (ap_world a)\<lparr>w_dns := tr\<rparr>\<rparr>)
          | (Inr hostIPs, tr) \<Rightarrow>
              (writeJSON 200 (JArr (map (\<lambda>ip. JObj [(''ip'', JStr ip), (''hostname'', JStr (get0 hostIPs ip))])
                 (sortedIPs (e_order (we_sync W)) hostIPs))),
               a\<lparr>ap_world := (ap_world a)\<lparr>w_dns := tr\<rparr>\<rparr>))))"

subsection \<open>DNS servers and health\<close>

definition healthJSON :: "bool \<Rightarrow> string \<Rightarrow> json" where
  "healthJSON ok msg = JObj ((''ok'', JBool ok) # (if msg = [] then [] else [(''message'', JStr msg)]))"

definition health :: "'c handler" where
  "health W r a =
     (case onStore (listEnabledDNSServerAddresses (dbOf W)) a of
        (Inl err, a) \<Rightarrow> (writeJSON 200 (healthJSON False (''failed to query DNS servers: '' @ err)), a)
      | (Inr servers, a) \<Rightarrow>
          (writeJSON 200 (if servers = []
             then healthJSON False (''No enabled DNS servers configured. Scheduled syncs are disabled '' @
               ''until at least one DNS server is enabled.'')
             else healthJSON True []), a))"

definition listDNSServersH :: "'c handler" where
  "listDNSServersH W r a =
     (case onStore (listDNSServers (dbOf W)) a of
        (Inl err, a) \<Rightarrow> (writeError 500 err, a)
      | (Inr servers, a) \<Rightarrow> (writeJSON 200 (JArr (map dnsServerJSON servers)), a))"

definition createDNSServerH :: "'c handler" where
  "createDNSServerH W r a =
     (case decodeDNSServer W (hr_body r) of
        None \<Rightarrow> (writeError 400 ''invalid JSON'', a)
      | Some d \<Rightarrow>
          if d_name d = [] \<or> d_address d = [] then (writeError 400 ''name and address are required'', a)
          else (case onStore (createDNSServer (dbOf W) d) a of
              (Inl err, a) \<Rightarrow> (writeError 500 err, a)
            | (Inr i, a) \<Rightarrow> (writeJSON 201 (dnsServerJSON (d\<lparr>d_id := i\<rparr>)), a)))"

definition getDNSServerH :: "string \<Rightarrow> 'c handler" where
  "getDNSServerH pathID W r a =
     (case parseID pathID of
        None \<Rightarrow> (writeError 400 ''invalid DNS server ID'', a)
      | Some i \<Rightarrow>
          (case onStore (getDNSServer (dbOf W) i) a of
             (Inl err, a) \<Rightarrow> (writeError 404 ''DNS server not found'', a)
           | (Inr d, a) \<Rightarrow> (writeJSON 200 (dnsServerJSON d), a)))"

definition updateDNSServerH :: "string \<Rightarrow> 'c handler" where
  "updateDNSServerH pathID W r a =
     (case parseID pathID of
        None \<Rightarrow> (writeError 400 ''invalid DNS server ID'', a)
      | Some i \<Rightarrow>
     (case decodeDNSServer W (hr_body r) of
        None \<Rightarrow> (writeError 400 ''invalid JSON'', a)
      | Some d \<Rightarrow>
          (case onStore (updateDNSServer (dbOf W) (d\<lparr>d_id := i\<rparr>)) a of
             (Inl err, a) \<Rightarrow> (writeError 500 err, a)
           | (Inr _, a) \<Rightarrow> (writeJSON 200 (dnsServerJSON (d\<lparr>d_id := i\<rparr>)), a))))"

definition deleteDNSServerH :: "string \<Rightarrow> 'c handler" where
  "deleteDNSServerH pathID W r a =
     (case parseID pathID of
        None \<Rightarrow> (writeError 400 ''invalid DNS server ID'', a)
      | Some i \<Rightarrow>
          (case onStore (deleteDNSServer (dbOf W) i) a of
             (Inl err, a) \<Rightarrow> (writeError 500 err, a)
           | (Inr _, a) \<Rightarrow> (noContent, a)))"

subsection \<open>Routes\<close>

text \<open>
  The patterns in the order the code registers them. A wildcard matches one segment that is not
  empty, a literal segment goes before a wildcard, GET patterns also serve HEAD, and the
  pattern of the user interface matches every path, so that another method is refused.
\<close>

datatype pat = Lit string | ID

definition routes :: "(string \<times> pat list \<times> (string \<Rightarrow> 'c handler)) list" where
  "routes =
     [(''GET'', [Lit ''api'', Lit ''controllers''], \<lambda>_. listControllersH),
      (''POST'', [Lit ''api'', Lit ''controllers''], \<lambda>_. createControllerH),
      (''GET'', [Lit ''api'', Lit ''controllers'', ID], getControllerH),
      (''PUT'', [Lit ''api'', Lit ''controllers'', ID], updateControllerH),
      (''DELETE'', [Lit ''api'', Lit ''controllers'', ID], deleteControllerH),
      (''GET'', [Lit ''api'', Lit ''controllers'', ID, Lit ''network-lists''], listNetworkListsH),
      (''POST'', [Lit ''api'', Lit ''controllers'', Lit ''test''], \<lambda>_. testController),
      (''GET'', [Lit ''api'', Lit ''jobs''], \<lambda>_. listJobsH),
      (''POST'', [Lit ''api'', Lit ''jobs''], \<lambda>_. createJobH),
      (''GET'', [Lit ''api'', Lit ''jobs'', ID], getJobH),
      (''PUT'', [Lit ''api'', Lit ''jobs'', ID], updateJobH),
      (''DELETE'', [Lit ''api'', Lit ''jobs'', ID], deleteJobH),
      (''POST'', [Lit ''api'', Lit ''jobs'', ID, Lit ''run''], runJobH),
      (''GET'', [Lit ''api'', Lit ''jobs'', ID, Lit ''logs''], getJobLogs),
      (''POST'', [Lit ''api'', Lit ''resolve''], \<lambda>_. resolveHostnamesH),
      (''GET'', [Lit ''api'', Lit ''health''], \<lambda>_. health),
      (''GET'', [Lit ''api'', Lit ''dns-servers''], \<lambda>_. listDNSServersH),
      (''POST'', [Lit ''api'', Lit ''dns-servers''], \<lambda>_. createDNSServerH),
      (''GET'', [Lit ''api'', Lit ''dns-servers'', ID], getDNSServerH),
      (''PUT'', [Lit ''api'', Lit ''dns-servers'', ID], updateDNSServerH),
      (''DELETE'', [Lit ''api'', Lit ''dns-servers'', ID], deleteDNSServerH)]"

fun matchPath :: "pat list \<Rightarrow> string list \<Rightarrow> bool" where
  "matchPath [] [] = True"
| "matchPath (Lit l # ps) (seg # segs) = (l = seg \<and> matchPath ps segs)"
| "matchPath (ID # ps) (seg # segs) = (seg \<noteq> [] \<and> matchPath ps segs)"
| "matchPath _ _ = False"

definition methodServes :: "string \<Rightarrow> string \<Rightarrow> bool" where
  "methodServes pattern m \<longleftrightarrow> m = pattern \<or> pattern = ''GET'' \<and> m = ''HEAD''"

fun pathValue :: "pat list \<Rightarrow> string list \<Rightarrow> string" where
  "pathValue (ID # ps) (seg # segs) = seg"
| "pathValue (_ # ps) (_ # segs) = pathValue ps segs"
| "pathValue _ _ = []"

definition methodNotAllowed :: reply where
  "methodNotAllowed = \<lparr>rp_status = 405, rp_body = None\<rparr>"

definition serve :: "'c handler" where
  "serve W r a =
     (case filter (\<lambda>(m, ps, h). methodServes m (hr_method r) \<and> matchPath ps (hr_path r)) routes of
        (m, ps, h) # _ \<Rightarrow> h (pathValue ps (hr_path r)) W r a
      | [] \<Rightarrow> if methodServes ''GET'' (hr_method r) then (we_static W (hr_path r), a)
              else (methodNotAllowed, a))"

subsection \<open>Recording responses\<close>

record statusRecorder =
  rec_status :: nat
  rec_bytes :: nat
  rec_preview :: string

definition errorBodyPreviewMax :: nat where
  "errorBodyPreviewMax = 512"

text \<open>
  What a handler does with the response writer: setting the status, and writing bytes, of which
  the connection takes \<open>n\<close>.
\<close>

datatype write_op = SetStatus nat | WriteBytes string nat

definition newRecorder :: statusRecorder where
  "newRecorder = \<lparr>rec_status = 0, rec_bytes = 0, rec_preview = []\<rparr>"

fun recordWrite :: "write_op \<Rightarrow> statusRecorder \<Rightarrow> statusRecorder" where
  "recordWrite (SetStatus st) rw = rw\<lparr>rec_status := st\<rparr>"
| "recordWrite (WriteBytes b n) rw =
     (let rw = (if rec_status rw = 0 then rw\<lparr>rec_status := 200\<rparr> else rw);
          rw = rw\<lparr>rec_bytes := rec_bytes rw + n\<rparr> in
      if length (rec_preview rw) < errorBodyPreviewMax
      then rw\<lparr>rec_preview := rec_preview rw @
             take (min (errorBodyPreviewMax - length (rec_preview rw)) (length b)) b\<rparr>
      else rw)"

datatype log_level = Info | Warn | Error

record access_log =
  al_level :: log_level
  al_status :: nat
  al_bytes :: nat
  al_preview :: "string option"

definition loggingMiddleware :: "write_op list \<Rightarrow> access_log" where
  "loggingMiddleware ops =
     (let rw = fold recordWrite ops newRecorder;
          status = (if rec_status rw = 0 then 200 else rec_status rw);
          preview = (if rec_preview rw = [] then None else Some (trimSpace (rec_preview rw))) in
      if status \<ge> 500 then \<lparr>al_level = Error, al_status = status, al_bytes = rec_bytes rw, al_preview = preview\<rparr>
      else if status \<ge> 400 then \<lparr>al_level = Warn, al_status = status, al_bytes = rec_bytes rw, al_preview = preview\<rparr>
      else \<lparr>al_level = Info, al_status = status, al_bytes = rec_bytes rw, al_preview = None\<rparr>)"

end
