(* ===== verification/Web_Props.thy ===== *)
theory Web_Props
  imports Web Scheduler_Props
begin

text \<open>
  The properties of the HTTP interface: one handler for a request, no API key in a reply, reads
  that change nothing, errors that change nothing, the schedule following the jobs, and what is
  recorded of a response.
\<close>

subsection \<open>Routes\<close>

lemma matchPath_cases:
  "matchPath ps segs \<longleftrightarrow> list_all2 (\<lambda>p seg. case p of Lit l \<Rightarrow> l = seg | ID \<Rightarrow> seg \<noteq> []) ps segs"
  by (induction ps segs rule: matchPath.induct) auto

definition same_route :: "string \<times> pat list \<Rightarrow> string \<times> pat list \<Rightarrow> bool" where
  "same_route p q \<longleftrightarrow> fst p = fst q \<and> length (snd p) = length (snd q) \<and>
     list_all2 (\<lambda>a b. case (a, b) of (Lit l, Lit k) \<Rightarrow> l = k | _ \<Rightarrow> True) (snd p) (snd q)"

text \<open>Patterns that clash: no path matches both and no method is served by both.\<close>

lemma clash_free:
  assumes "\<not> same_route (m1, ps1) (m2, ps2)" and "m1 \<noteq> ''HEAD''" and "m2 \<noteq> ''HEAD''"
  shows "\<not> (methodServes m1 m \<and> matchPath ps1 segs \<and> methodServes m2 m \<and> matchPath ps2 segs)"
proof
  assume a: "methodServes m1 m \<and> matchPath ps1 segs \<and> methodServes m2 m \<and> matchPath ps2 segs"
  then have "m1 = m2" using assms(2,3) by (auto simp: methodServes_def)
  moreover have "length ps1 = length segs" "length ps2 = length segs"
    using a unfolding matchPath_cases by (blast dest: list_all2_lengthD)+
  moreover have "list_all2 (\<lambda>a b. case (a, b) of (Lit l, Lit k) \<Rightarrow> l = k | _ \<Rightarrow> True) ps1 ps2"
    using a by (auto simp: matchPath_cases list_all2_conv_all_nth split: pat.splits)
  ultimately show False using assms(1) by (simp add: same_route_def)
qed

definition route_keys :: "(string \<times> pat list) list" where
  "route_keys =
     [(''GET'', [Lit ''api'', Lit ''controllers'']), (''POST'', [Lit ''api'', Lit ''controllers'']),
      (''GET'', [Lit ''api'', Lit ''controllers'', ID]), (''PUT'', [Lit ''api'', Lit ''controllers'', ID]),
      (''DELETE'', [Lit ''api'', Lit ''controllers'', ID]),
      (''GET'', [Lit ''api'', Lit ''controllers'', ID, Lit ''network-lists'']),
      (''POST'', [Lit ''api'', Lit ''controllers'', Lit ''test'']),
      (''GET'', [Lit ''api'', Lit ''jobs'']), (''POST'', [Lit ''api'', Lit ''jobs'']),
      (''GET'', [Lit ''api'', Lit ''jobs'', ID]), (''PUT'', [Lit ''api'', Lit ''jobs'', ID]),
      (''DELETE'', [Lit ''api'', Lit ''jobs'', ID]), (''POST'', [Lit ''api'', Lit ''jobs'', ID, Lit ''run'']),
      (''GET'', [Lit ''api'', Lit ''jobs'', ID, Lit ''logs'']), (''POST'', [Lit ''api'', Lit ''resolve'']),
      (''GET'', [Lit ''api'', Lit ''health'']), (''GET'', [Lit ''api'', Lit ''dns-servers'']),
      (''POST'', [Lit ''api'', Lit ''dns-servers'']), (''GET'', [Lit ''api'', Lit ''dns-servers'', ID]),
      (''PUT'', [Lit ''api'', Lit ''dns-servers'', ID]), (''DELETE'', [Lit ''api'', Lit ''dns-servers'', ID])]"

lemma routes_keys: "map (\<lambda>(m, ps, h). (m, ps)) routes = route_keys"
  by (simp add: routes_def route_keys_def)

lemma route_keys_clash_free: "sorted_wrt (\<lambda>a b. \<not> same_route a b) route_keys"
  by code_simp

lemma route_keys_methods: "list_all (\<lambda>(m, ps). m \<noteq> ''HEAD'') route_keys"
  by code_simp

lemma filter_one:
  "sorted_wrt (\<lambda>a b. \<not> (P a \<and> P b)) xs \<Longrightarrow> length (filter P xs) \<le> 1"
proof (induction xs)
  case (Cons x xs)
  then show ?case by (cases "P x") (auto simp: filter_empty_conv)
qed simp

abbreviation serves :: "http_in \<Rightarrow> string \<times> pat list \<times> 'h \<Rightarrow> bool" where
  "serves r \<equiv> \<lambda>(m, ps, h). methodServes m (hr_method r) \<and> matchPath ps (hr_path r)"

lemma routes_one:
  fixes rs :: "(string \<times> pat list \<times> (string \<Rightarrow> 'c handler)) list"
  assumes "rs = routes"
  shows "length (filter (serves r) rs) \<le> 1"
proof (rule filter_one)
  have get: "fst p \<noteq> ''HEAD''" if "p \<in> set route_keys" for p
    using route_keys_methods that by (auto simp: list_all_iff)
  have "sorted_wrt (\<lambda>a b. \<not> (methodServes (fst a) (hr_method r) \<and> matchPath (snd a) (hr_path r) \<and>
      methodServes (fst b) (hr_method r) \<and> matchPath (snd b) (hr_path r))) route_keys"
    using route_keys_clash_free
  proof (rule sorted_wrt_mono_rel [rotated])
    fix a b assume ab: "a \<in> set route_keys" "b \<in> set route_keys" "\<not> same_route a b"
    show "\<not> (methodServes (fst a) (hr_method r) \<and> matchPath (snd a) (hr_path r) \<and>
      methodServes (fst b) (hr_method r) \<and> matchPath (snd b) (hr_path r))"
      by (rule clash_free [OF _ get [OF ab(1)] get [OF ab(2)]]) (use ab(3) in simp)
  qed
  have "map (\<lambda>(m, ps, h). (m, ps)) rs = route_keys" by (simp only: assms routes_keys)
  note keys = this
  have "sorted_wrt (\<lambda>a b. \<not> (methodServes (fst a) (hr_method r) \<and> matchPath (snd a) (hr_path r) \<and>
      methodServes (fst b) (hr_method r) \<and> matchPath (snd b) (hr_path r))) (map (\<lambda>(m, ps, h). (m, ps)) rs)"
    unfolding keys by fact
  then show "sorted_wrt (\<lambda>a b. \<not> (serves r a \<and> serves r b)) rs"
    unfolding sorted_wrt_map by (simp only: case_prod_beta fst_conv snd_conv conj_assoc)
qed

text \<open>
  The routes are unambiguous: a request is served by at most one of them, so the order of their
  registration does not matter; if one serves it, its handler gets the value of the path segment
  under the wildcard, and if none does, a GET or HEAD request gets the user interface and any
  other method is refused.
\<close>
theorem serve_unambiguous:
  fixes W :: "'c web_env"
  shows "(\<exists>m ps h. filter (serves r) routes = [(m, ps, h)] \<and> serve W r a = h (pathValue ps (hr_path r)) W r a) \<or>
   filter (serves r) (routes :: (string \<times> pat list \<times> (string \<Rightarrow> 'c handler)) list) = [] \<and>
   serve W r a = (if methodServes ''GET'' (hr_method r) then (we_static W (hr_path r), a) else (methodNotAllowed, a))"
proof (cases "filter (serves r) (routes :: (string \<times> pat list \<times> (string \<Rightarrow> 'c handler)) list)")
  case Nil
  moreover have "serve W r a = (if methodServes ''GET'' (hr_method r) then (we_static W (hr_path r), a)
      else (methodNotAllowed, a))" unfolding serve_def Nil by simp
  ultimately show ?thesis by blast
next
  case (Cons e es)
  obtain m ps h where e: "e = (m, ps, h)" by (metis prod.exhaust)
  have "es = []" using routes_one [OF refl, of r, where 'c = 'c] Cons by simp
  then have one: "filter (serves r) routes = [(m, ps, h)]" using Cons e by simp
  moreover have "serve W r a = h (pathValue ps (hr_path r)) W r a" unfolding serve_def one by simp
  ultimately show ?thesis by blast
qed

text \<open>Proving something of every reply and next state: it suffices to prove it of every handler.\<close>

lemma serve_induct:
  fixes W :: "'c web_env"
  assumes "serve W r a = (rep, a')"
    and "\<And>m ps h. (m, ps, h) \<in> set (routes :: (string \<times> pat list \<times> (string \<Rightarrow> 'c handler)) list) \<Longrightarrow>
      methodServes m (hr_method r) \<Longrightarrow> matchPath ps (hr_path r) \<Longrightarrow>
      h (pathValue ps (hr_path r)) W r a = (rep, a') \<Longrightarrow> P"
    and "rep = we_static W (hr_path r) \<Longrightarrow> a' = a \<Longrightarrow> P" and "rep = methodNotAllowed \<Longrightarrow> a' = a \<Longrightarrow> P"
  shows P
proof (cases "filter (serves r) (routes :: (string \<times> pat list \<times> (string \<Rightarrow> 'c handler)) list)")
  case Nil
  have "serve W r a = (if methodServes ''GET'' (hr_method r) then (we_static W (hr_path r), a)
      else (methodNotAllowed, a))" unfolding serve_def Nil by simp
  then show ?thesis using assms(1,3,4) by (auto split: if_splits)
next
  case (Cons e es)
  obtain m ps h where e: "e = (m, ps, h)" by (metis prod.exhaust)
  have "(m, ps, h) \<in> set (filter (serves r) (routes :: (string \<times> pat list \<times> (string \<Rightarrow> 'c handler)) list))"
    unfolding Cons e by simp
  then have "(m, ps, h) \<in> set (routes :: (string \<times> pat list \<times> (string \<Rightarrow> 'c handler)) list)" "methodServes m (hr_method r)"
    "matchPath ps (hr_path r)" by simp_all
  moreover have "h (pathValue ps (hr_path r)) W r a = (rep, a')"
    using assms(1) unfolding serve_def Cons e by simp
  ultimately show ?thesis by (rule assms(2))
qed

subsection \<open>Replies never show a key\<close>

text \<open>The texts under the name \<^verbatim>\<open>api_key\<close> anywhere in a JSON value.\<close>

fun apiKeys :: "json \<Rightarrow> string set" where
  "apiKeys (JObj ms) = (\<Union>(k, v) \<in> set ms. (if k = ''api_key'' then {s. v = JStr s} else {}) \<union> apiKeys v)"
| "apiKeys (JArr vs) = (\<Union>v \<in> set vs. apiKeys v)"
| "apiKeys _ = {}"

definition reply_keys :: "reply \<Rightarrow> string set" where
  "reply_keys rep = (case rp_body rep of None \<Rightarrow> {} | Some v \<Rightarrow> apiKeys v)"

lemma apiKeys_scalars [simp]: "apiKeys (jint i) = {}" "apiKeys (jopt s) = {}"
  by (simp_all add: jint_def jopt_def split: option.splits)

lemma apiKeys_structs [simp]:
  "apiKeys (controllerJSON c) = (if c_apiKey c = [] then {} else {c_apiKey c})"
  "apiKeys (jobJSON j) = {}" "apiKeys (runLogJSON l) = {}" "apiKeys (dnsServerJSON d) = {}"
  "apiKeys (networkListJSON nl) = {}" "apiKeys (healthJSON ok msg) = {}"
  by (auto simp: controllerJSON_def jobJSON_def runLogJSON_def dnsServerJSON_def networkListJSON_def
      healthJSON_def itemJSON_def split: if_splits)

lemma apiKeys_slice [simp]: "(\<And>x. apiKeys (f x) = {}) \<Longrightarrow> apiKeys (sliceJSON f xs) = {}"
  by (simp add: sliceJSON_def split: option.splits)

lemma reply_keys_simps [simp]:
  "reply_keys (writeJSON st v) = apiKeys v" "reply_keys (writeError st msg) = {}"
  "reply_keys noContent = {}" "reply_keys methodNotAllowed = {}"
  by (simp_all add: reply_keys_def writeJSON_def writeError_def noContent_def methodNotAllowed_def)

lemma redact_key [simp]: "c_apiKey (redact c) = (if c_apiKey c = [] then [] else placeholder)"
  by (simp add: redact_def)

lemma placeholder_nonempty [simp]: "placeholder \<noteq> []"
  by (simp add: placeholder_def numeral_eq_Suc)

lemmas handler_defs = listControllersH_def createControllerH_def getControllerH_def updateControllerH_def
  deleteControllerH_def listNetworkListsH_def testController_def listJobsH_def createJobH_def getJobH_def
  updateJobH_def deleteJobH_def runJobH_def getJobLogs_def resolveHostnamesH_def health_def
  listDNSServersH_def createDNSServerH_def getDNSServerH_def updateDNSServerH_def deleteDNSServerH_def

lemma completeTest_reply: "completeTest W q a = (Inl rep, a') \<Longrightarrow> reply_keys rep = {}"
  by (auto simp: completeTest_def split: if_splits prod.splits sum.splits)

lemma handlers_redact:
  "(m, ps, h) \<in> set routes \<Longrightarrow> h v W r a = (rep, a') \<Longrightarrow> reply_keys rep \<subseteq> {placeholder}"
  by (auto simp: routes_def handler_defs Let_def dest!: completeTest_reply
      split: option.splits sum.splits prod.splits if_splits)

text \<open>
  C24: No API key leaves the program in a reply: whatever the request, the state and the outcome,
  every text under the name \<^verbatim>\<open>api_key\<close> in the reply is the placeholder of eight dots.
\<close>
theorem replies_redacted:
  assumes "serve W r a = (rep, a')" and "\<forall>p. reply_keys (we_static W p) = {}"
  shows "reply_keys rep \<subseteq> {placeholder}"
  using assms(1)
proof (rule serve_induct)
  fix m ps h assume "(m, ps, h) \<in> set routes" "h (pathValue ps (hr_path r)) W r a = (rep, a')"
  then show ?thesis by (rule handlers_redact)
qed (use assms(2) in simp_all)

subsection \<open>Reads and errors\<close>

lemma onStoreD:
  "onStore f a = (r, a') \<Longrightarrow> f (w_db (ap_world a)) = (r, w_db (ap_world a')) \<and> ap_sched a' = ap_sched a \<and>
     ap_spawned a' = ap_spawned a \<and> w_http (ap_world a') = w_http (ap_world a) \<and>
     w_dns (ap_world a') = w_dns (ap_world a) \<and> w_running (ap_world a') = w_running (ap_world a)"
  by (auto simp: onStore_def split: prod.splits)

lemma withHttpD:
  "withHttp f a = (r, a') \<Longrightarrow> w_db (ap_world a') = w_db (ap_world a) \<and> ap_sched a' = ap_sched a \<and>
     ap_spawned a' = ap_spawned a \<and> w_running (ap_world a') = w_running (ap_world a)"
  by (auto simp: withHttp_def split: prod.splits)

text \<open>Nothing that lasts has changed: the tables, the scheduler, the goroutines.\<close>

definition unchanged :: "'c app \<Rightarrow> 'c app \<Rightarrow> bool" where
  "unchanged a a' \<longleftrightarrow> ap_sched a' = ap_sched a \<and> ap_spawned a' = ap_spawned a \<and>
     w_running (ap_world a') = w_running (ap_world a) \<and>
     (\<exists>n. w_db (ap_world a') = (w_db (ap_world a))\<lparr>stmtNo := n\<rparr>)"

lemma same_db [simp]: "\<exists>n. s = s\<lparr>stmtNo := n\<rparr>" for s :: db
  by (rule exI [of _ "stmtNo s"]) simp

lemma unchanged_refl [simp]: "unchanged a a"
  by (simp add: unchanged_def)

lemma unchanged_trans: "unchanged a b \<Longrightarrow> unchanged b c \<Longrightarrow> unchanged a c"
  unfolding unchanged_def by auto

lemma onStore_query:
  "onStore (dbQuery E objs q) a = (r, a') \<Longrightarrow> unchanged a a'"
  by (auto simp: unchanged_def dest!: onStoreD dest: dbQuery_frame)

lemma onStore_failed:
  "onStore (dbExec E objs f) a = (Inl e, a') \<Longrightarrow> unchanged a a'"
  by (auto simp: unchanged_def dest!: onStoreD dest: dbExec_Inl)

lemma onStore_reads:
  "onStore (listControllers E) a = (r1, a') \<Longrightarrow> unchanged a a'"
  "onStore (getController E i) a = (r2, a') \<Longrightarrow> unchanged a a'"
  "onStore (listJobs E) a = (r3, a') \<Longrightarrow> unchanged a a'"
  "onStore (getJob E i) a = (r4, a') \<Longrightarrow> unchanged a a'"
  "onStore (getRunLogs E i n) a = (r5, a') \<Longrightarrow> unchanged a a'"
  "onStore (listDNSServers E) a = (r6, a') \<Longrightarrow> unchanged a a'"
  "onStore (getDNSServer E i) a = (r7, a') \<Longrightarrow> unchanged a a'"
  "onStore (listEnabledDNSServerAddresses E) a = (r8, a') \<Longrightarrow> unchanged a a'"
  unfolding reads_defs by (rule onStore_query, assumption)+

lemma onStore_errors:
  "onStore (updateController E c) a = (Inl e, a') \<Longrightarrow> unchanged a a'"
  "onStore (deleteController E i) a = (Inl e, a') \<Longrightarrow> unchanged a a'"
  "onStore (createDNSServer E d) a = (Inl e, a') \<Longrightarrow> unchanged a a'"
  "onStore (updateDNSServer E d) a = (Inl e, a') \<Longrightarrow> unchanged a a'"
  "onStore (deleteDNSServer E i) a = (Inl e, a') \<Longrightarrow> unchanged a a'"
  by (auto simp: updateController_def deleteController_def createDNSServer_def updateDNSServer_def
      deleteDNSServer_def Let_def unchanged_def dest!: onStoreD dbExec_Inl)

lemma onStore_create_errors:
  "onStore (createController E c) a = ((Inl e, c'), a') \<Longrightarrow> unchanged a a'"
  "onStore (createJob E j) a = ((Inl e, j'), a') \<Longrightarrow> unchanged a a'"
  "onStore (updateJob E j) a = ((Inl e, j''), a') \<Longrightarrow> unchanged a a'"
  by (auto simp: createController_def createJob_def updateJob_def Let_def unchanged_def
      dest!: onStoreD dbExec_Inl split: prod.splits)

lemma withHttp_unchanged: "withHttp f a = (r, a') \<Longrightarrow> unchanged a a'"
  using withHttpD [of f a r a'] by (simp add: unchanged_def)

lemma statuses [simp]:
  "rp_status (writeJSON st v) = st" "rp_status (writeError st msg) = st" "rp_status noContent = 204"
  by (simp_all add: writeJSON_def writeError_def noContent_def)

lemma keptKey_unchanged: "keptKey W i c a = (r, a') \<Longrightarrow> unchanged a a'"
  by (auto simp: keptKey_def dest: onStore_reads split: if_splits prod.splits sum.splits)

lemma completeTest_unchanged: "completeTest W q a = (r, a') \<Longrightarrow> unchanged a a'"
  by (auto simp: completeTest_def dest: onStore_reads split: if_splits prod.splits sum.splits)

lemma unchanged_dns: "unchanged a b \<Longrightarrow> unchanged a (b\<lparr>ap_world := (ap_world b)\<lparr>w_dns := tr\<rparr>\<rparr>)"
  by (auto simp: unchanged_def)

text \<open>Each handler in turn.\<close>

lemma controller_handlers_unchanged:
  "listControllersH W r a = (rep, a') \<Longrightarrow> unchanged a a'"
  "getControllerH v W r a = (rep, a') \<Longrightarrow> unchanged a a'"
  "createControllerH W r a = (rep, a') \<Longrightarrow> 400 \<le> rp_status rep \<Longrightarrow> unchanged a a'"
  "deleteControllerH v W r a = (rep, a') \<Longrightarrow> 400 \<le> rp_status rep \<Longrightarrow> unchanged a a'"
  by (auto simp: listControllersH_def getControllerH_def createControllerH_def deleteControllerH_def
      dest: onStore_reads onStore_errors onStore_create_errors split: option.splits sum.splits prod.splits if_splits)

lemma updateControllerH_unchanged:
  "updateControllerH v W r a = (rep, a') \<Longrightarrow> 400 \<le> rp_status rep \<Longrightarrow> unchanged a a'"
  by (auto simp: updateControllerH_def Let_def dest!: keptKey_unchanged onStore_errors intro: unchanged_trans
      split: option.splits sum.splits prod.splits)

lemma http_handlers_unchanged:
  "listNetworkListsH v W r a = (rep, a') \<Longrightarrow> unchanged a a'"
  "testController W r a = (rep, a') \<Longrightarrow> unchanged a a'"
  by (auto simp: listNetworkListsH_def testController_def
      dest!: onStore_reads withHttp_unchanged completeTest_unchanged intro: unchanged_trans
      split: option.splits sum.splits prod.splits if_splits)

lemma job_handlers_unchanged:
  "listJobsH W r a = (rep, a') \<Longrightarrow> unchanged a a'"
  "getJobH v W r a = (rep, a') \<Longrightarrow> unchanged a a'"
  "getJobLogs v W r a = (rep, a') \<Longrightarrow> unchanged a a'"
  "createJobH W r a = (rep, a') \<Longrightarrow> 400 \<le> rp_status rep \<Longrightarrow> unchanged a a'"
  "updateJobH v W r a = (rep, a') \<Longrightarrow> 400 \<le> rp_status rep \<Longrightarrow> unchanged a a'"
  "runJobH v W r a = (rep, a') \<Longrightarrow> 400 \<le> rp_status rep \<Longrightarrow> unchanged a a'"
  by (auto simp: listJobsH_def getJobH_def getJobLogs_def createJobH_def updateJobH_def runJobH_def
      dest: onStore_reads onStore_create_errors split: option.splits sum.splits prod.splits if_splits)

lemma dns_handlers_unchanged:
  "listDNSServersH W r a = (rep, a') \<Longrightarrow> unchanged a a'"
  "getDNSServerH v W r a = (rep, a') \<Longrightarrow> unchanged a a'"
  "health W r a = (rep, a') \<Longrightarrow> unchanged a a'"
  "resolveHostnamesH W r a = (rep, a') \<Longrightarrow> unchanged a a'"
  "createDNSServerH W r a = (rep, a') \<Longrightarrow> 400 \<le> rp_status rep \<Longrightarrow> unchanged a a'"
  "updateDNSServerH v W r a = (rep, a') \<Longrightarrow> 400 \<le> rp_status rep \<Longrightarrow> unchanged a a'"
  "deleteDNSServerH v W r a = (rep, a') \<Longrightarrow> 400 \<le> rp_status rep \<Longrightarrow> unchanged a a'"
  by (auto simp: listDNSServersH_def getDNSServerH_def health_def resolveHostnamesH_def createDNSServerH_def
      updateDNSServerH_def deleteDNSServerH_def Let_def
      dest!: onStore_reads onStore_errors intro: unchanged_dns split: option.splits sum.splits prod.splits if_splits)

definition is_deletion :: "string \<Rightarrow> pat list \<Rightarrow> bool" where
  "is_deletion m ps \<longleftrightarrow> m = ''DELETE'' \<and> ps = [Lit ''api'', Lit ''jobs'', ID]"

lemmas handlers_unchanged_all = controller_handlers_unchanged updateControllerH_unchanged http_handlers_unchanged
  job_handlers_unchanged dns_handlers_unchanged

lemma handlers_unchanged:
  "(m, ps, h) \<in> set routes \<Longrightarrow> h v W r a = (rep, a') \<Longrightarrow> m = ''GET'' \<or> 400 \<le> rp_status rep \<Longrightarrow>
   \<not> is_deletion m ps \<Longrightarrow> unchanged a a'"
  unfolding routes_def is_deletion_def
  by (simp, elim disjE conjE) (simp_all add: handlers_unchanged_all)

text \<open>
  C25: Reads and failures change nothing. A GET or HEAD request, and any request that is answered
  with an error status, leaves the tables, the schedule and the running jobs as they were, with
  one exception: deleting a job, which is taken off the schedule before the deletion can fail.
\<close>
theorem requests_safe:
  assumes "serve W r a = (rep, a')"
    and "hr_method r = ''GET'' \<or> hr_method r = ''HEAD'' \<or> 400 \<le> rp_status rep"
    and "\<not> (hr_method r = ''DELETE'' \<and> matchPath [Lit ''api'', Lit ''jobs'', ID] (hr_path r))"
  shows "unchanged a a'"
  using assms(1)
proof (rule serve_induct)
  fix m ps h
  assume a: "(m, ps, h) \<in> set routes" "methodServes m (hr_method r)" "matchPath ps (hr_path r)"
    "h (pathValue ps (hr_path r)) W r a = (rep, a')"
  have "m \<noteq> ''HEAD''" using a(1) by (auto simp: routes_def)
  then have "m = ''GET'' \<or> 400 \<le> rp_status rep" using assms(2) a(2) by (auto simp: methodServes_def)
  moreover have "\<not> is_deletion m ps" using a(2,3) assms(3) by (auto simp: is_deletion_def methodServes_def)
  ultimately show ?thesis using handlers_unchanged [OF a(1,4)] by blast
qed simp_all

subsection \<open>Keys\<close>

text \<open>
  C26: Updating a controller without its key keeps the key. If the update succeeds and the body has
  an empty key or the placeholder that the replies show, the stored key is the one from before;
  with any other key in the body, that key is stored. The rest is stored as given.
\<close>
theorem update_keeps_key:
  assumes "updateControllerH v W r a = (rep, a')" and "rp_status rep < 400"
    and "decodeController W (hr_body r) = Some c" and "parseID v = Some i"
    and "viewController (w_db (ap_world a)) i = Some old"
  shows "viewController (w_db (ap_world a')) i = Some (controllerContent (c\<lparr>c_apiKey :=
    if c_apiKey c = [] \<or> c_apiKey c = placeholder then c_apiKey old else c_apiKey c\<rparr>))"
proof -
  obtain a1 c1 where k: "keptKey W i c a = (Some c1, a1)"
    and u: "onStore (updateController (dbOf W) (c1\<lparr>c_id := i\<rparr>)) a1 = (Inr (), a')"
    using assms(1-4) by (auto simp: updateControllerH_def Let_def split: prod.splits option.splits sum.splits)
  have c1: "c1 = c\<lparr>c_apiKey := if c_apiKey c = [] \<or> c_apiKey c = placeholder then c_apiKey old else c_apiKey c\<rparr>"
  proof (cases "c_apiKey c = [] \<or> c_apiKey c = placeholder")
    case True
    then obtain full where g: "onStore (getController (dbOf W) i) a = (Inr full, a1)" and c1: "c1 = c\<lparr>c_apiKey := c_apiKey full\<rparr>"
      using k by (auto simp: keptKey_def split: prod.splits sum.splits)
    have "getController (dbOf W) i (w_db (ap_world a)) = (Inr full, w_db (ap_world a1))" using onStoreD [OF g] by simp
    then have "readController (dbOf W) i (w_db (ap_world a)) = (Inr (controllerContent full), w_db (ap_world a1))"
      by (simp add: readController_def)
    from controller_get_Inr [OF this] assms(5) have "controllerContent full = old" by simp
    then have "c_apiKey full = c_apiKey old" by (auto simp: controllerContent_def)
    then show ?thesis using True by (simp add: c1)
  next
    case False
    then show ?thesis using k by (simp add: keptKey_def)
  qed
  have "viewController (w_db (ap_world a1)) i = Some old"
    using keptKey_unchanged [OF k] assms(5) by (auto simp: unchanged_def)
  moreover have "setController (dbOf W) i c1 (w_db (ap_world a1)) = (Inr (), w_db (ap_world a'))"
    using onStoreD [OF u] by (simp add: setController_def)
  ultimately have "viewController (w_db (ap_world a')) i = Some (controllerContent c1)"
    using controller_update_Inr by fastforce
  then show ?thesis by (simp add: c1)
qed

subsection \<open>The schedule follows the jobs\<close>

definition follows :: "'c web_env \<Rightarrow> 'c app \<Rightarrow> bool" where
  "follows W a \<longleftrightarrow> sched_ok (we_cron W) (ap_sched a) \<and>
     (\<forall>j. planned (we_cron W) (ap_sched a) j = wanted (we_cron W) (w_db (ap_world a)) j)"

definition app_inv :: "'c web_env \<Rightarrow> 'c app \<Rightarrow> bool" where
  "app_inv W a \<longleftrightarrow> db_ok (w_db (ap_world a)) \<and> db_calm (dbOf W) (w_db (ap_world a)) \<and> follows W a"

text \<open>Operations that keep the jobs.\<close>

definition tame :: "(db \<Rightarrow> 'a \<times> db) \<Rightarrow> bool" where
  "tame f \<longleftrightarrow> (\<forall>d. schema (snd (f d)) = schema d \<and> sync_jobs (snd (f d)) = sync_jobs d \<and>
     (db_ok d \<longrightarrow> db_ok (snd (f d))))"

lemma tame_app:
  assumes "tame f" and "onStore f a = (x, a')" and "app_inv W a"
  shows "app_inv W a'"
proof -
  have "w_db (ap_world a') = snd (f (w_db (ap_world a)))" "ap_sched a' = ap_sched a"
    using onStoreD [OF assms(2)] by simp_all
  then show ?thesis
    using assms(1,3) by (simp add: app_inv_def follows_def tame_def db_calm_def wanted_def viewJob_def)
qed

lemma unchanged_app: "unchanged a a' \<Longrightarrow> app_inv W a \<Longrightarrow> app_inv W a'"
  by (auto simp: unchanged_def app_inv_def follows_def db_calm_def wanted_def viewJob_def)

lemma exec_tame:
  assumes "\<And>ctx d y d'. f ctx d = (Inr y, d') \<Longrightarrow> schema d' = schema d \<and> sync_jobs d' = sync_jobs d"
    and "\<And>d. db_ok d \<Longrightarrow> db_ok (snd (dbExec E objs f d))"
  shows "tame (dbExec E objs f)"
  unfolding tame_def
proof (intro allI conjI)
  fix d
  have "schema (snd (dbExec E objs f d)) = schema d \<and> sync_jobs (snd (dbExec E objs f d)) = sync_jobs d"
    by (rule dbExec_inv [where P = "\<lambda>s. schema s = schema d \<and> sync_jobs s = sync_jobs d"])
      (use assms(1) in auto)
  then show "schema (snd (dbExec E objs f d)) = schema d" "sync_jobs (snd (dbExec E objs f d)) = sync_jobs d"
    by simp_all
qed (use assms(2) in simp)

lemma tame_ops:
  "tame (updateController E c)" "tame (deleteController E i)" "tame (updateDNSServer E d)" "tame (deleteDNSServer E i)"
  unfolding updateController_def deleteController_def updateDNSServer_def deleteDNSServer_def
  by (rule exec_tame; fastforce simp: controllers_ok [unfolded updateController_def deleteController_def]
      dns_ok [unfolded updateDNSServer_def deleteDNSServer_def] split: if_splits)+

lemma tame_createController: "tame (createController E c)"
proof -
  have "tame (dbExec E controllerObjs (insertController E (defaultSite c)))"
    by (rule exec_tame) (auto simp: insertController_def controllers_ok(1) createController_snd addController_eq
        [symmetric] dest: sym split: sum.splits, metis addController_eq controllers_ok(1) createController_snd)
  then show ?thesis
    by (simp add: tame_def createController_snd addController_eq)
qed

lemma tame_createDNSServer: "tame (createDNSServer E d)"
  unfolding tame_def
proof (intro allI conjI impI)
  fix s
  have "schema (snd (createDNSServer E d s)) = schema s \<and> sync_jobs (snd (createDNSServer E d s)) = sync_jobs s"
    unfolding createDNSServer_def Let_def
    by (rule dbExec_inv [where P = "\<lambda>u. schema u = schema s \<and> sync_jobs u = sync_jobs s"])
      (auto simp: insertDNSRow_def split: sum.splits)
  then show "schema (snd (createDNSServer E d s)) = schema s" "sync_jobs (snd (createDNSServer E d s)) = sync_jobs s"
    by simp_all
qed (simp add: dns_ok)

lemma controller_handlers_inv:
  assumes "app_inv W a"
  shows "createControllerH W r a = (rep, a') \<Longrightarrow> app_inv W a'"
    "updateControllerH v W r a = (rep, a') \<Longrightarrow> app_inv W a'"
    "deleteControllerH v W r a = (rep, a') \<Longrightarrow> app_inv W a'"
    "createDNSServerH W r a = (rep, a') \<Longrightarrow> app_inv W a'"
    "updateDNSServerH v W r a = (rep, a') \<Longrightarrow> app_inv W a'"
    "deleteDNSServerH v W r a = (rep, a') \<Longrightarrow> app_inv W a'"
  using assms
  by (auto simp: createControllerH_def updateControllerH_def deleteControllerH_def createDNSServerH_def
      updateDNSServerH_def deleteDNSServerH_def Let_def
      dest!: tame_app [OF tame_createController] tame_app [OF tame_createDNSServer] keptKey_unchanged
        tame_app [OF tame_ops(1)] tame_app [OF tame_ops(2)] tame_app [OF tame_ops(3)] tame_app [OF tame_ops(4)]
      dest: unchanged_app split: option.splits sum.splits prod.splits if_splits)

lemma getJob_wanted:
  assumes "db_calm E d"
  shows "(case fst (getJob E i d) of Inl _ \<Rightarrow> None | Inr _ \<Rightarrow> wanted L d i) = wanted L d i"
proof (cases "fst (getJob E i d)")
  case (Inl e)
  then have "i \<notin> r_id ` set (sync_jobs d)" using getJob_calm [OF assms, of i] by auto
  then show ?thesis using Inl by (simp add: wanted_def viewJob_def row_of_eq_None [THEN iffD2])
qed simp

lemma reload_follows:
  assumes "cron_ok (we_cron W)" and "db_ok (w_db (ap_world a))" and "db_calm (dbOf W) (w_db (ap_world a))"
    and "sched_ok (we_cron W) (ap_sched a)"
    and "\<And>j. j \<noteq> i \<Longrightarrow> planned (we_cron W) (ap_sched a) j = wanted (we_cron W) (w_db (ap_world a)) j"
  shows "app_inv W (reloadH W i a)"
proof -
  obtain s d where r: "reload (we_cron W) (dbOf W) i (ap_sched a, w_db (ap_world a)) = (s, d)" by fastforce
  have "d = (w_db (ap_world a))\<lparr>stmtNo := Suc (stmtNo (w_db (ap_world a)))\<rparr>"
    using r by (auto simp: reload_def Let_def getJob_def dest!: dbQuery_frame split: prod.splits sum.splits)
  moreover note reload_spec [OF assms(1,4) r] getJob_wanted [OF assms(3), where i = i and L = "we_cron W"]
  ultimately show ?thesis
    using assms(2,3,5) r by (auto simp: reloadH_def app_inv_def follows_def db_calm_def wanted_def viewJob_def)
qed

lemma job_ops_schema:
  "schema (snd (createJob E j d)) = schema d" "schema (snd (updateJob E j d)) = schema d"
  "schema (snd (deleteJob E i d)) = schema d"
proof -
  show "schema (snd (deleteJob E i d)) = schema d" unfolding deleteJob_def
    by (rule dbExec_inv [where P = "\<lambda>s. schema s = schema d"]) (auto simp: Let_def split: if_splits)
  have "schema (snd (dbExec E jobObjs (insertJob E j) d)) = schema d" for j
    by (rule dbExec_inv [where P = "\<lambda>s. schema s = schema d"]) (auto simp: insertJob_def split: sum.splits if_splits)
  then show "schema (snd (createJob E j d)) = schema d" by (simp add: createJob_def Let_def case_prod_beta)
  have "schema (snd (dbExec E jobObjs (setJob E j) d)) = schema d" for j
    by (rule dbExec_inv [where P = "\<lambda>s. schema s = schema d"]) (auto simp: setJob_def split: if_splits)
  then show "schema (snd (updateJob E j d)) = schema d" by (simp add: updateJob_def Let_def case_prod_beta)
qed

lemma wanted_view: "viewJob d' j = viewJob d j \<Longrightarrow> wanted L d' j = wanted L d j"
  by (simp add: wanted_def)

lemma createJobH_inv:
  assumes "cron_ok (we_cron W)" and "app_inv W a" and "createJobH W r a = (rep, a')"
  shows "app_inv W a'"
proof (cases "400 \<le> rp_status rep")
  case True
  then show ?thesis using unchanged_app job_handlers_unchanged(4) assms(2,3) by blast
next
  case False
  then obtain job i j a1 where c: "onStore (createJob (dbOf W) job) a = ((Inr i, j), a1)" and a': "a' = reloadH W i a1"
    using assms(3) by (auto simp: createJobH_def split: option.splits if_splits prod.splits sum.splits)
  note o = onStoreD [OF c]
  have "addJob (dbOf W) job (w_db (ap_world a)) = (Inr i, w_db (ap_world a1))" using o by (simp add: addJob_def)
  with assms(2) job_create_Inr have v: "viewJob (w_db (ap_world a1)) = (viewJob (w_db (ap_world a)))(i \<mapsto> jobContent job)"
    by (fastforce simp: app_inv_def)
  show ?thesis
    unfolding a'
  proof (rule reload_follows [OF assms(1)])
    show "db_ok (w_db (ap_world a1))" using jobs_ok(1) [of "w_db (ap_world a)" "dbOf W" job] o assms(2) by (simp add: app_inv_def)
    show "db_calm (dbOf W) (w_db (ap_world a1))"
      using job_ops_schema(1) [of "dbOf W" job "w_db (ap_world a)"] o assms(2) by (simp add: app_inv_def db_calm_def)
    show "sched_ok (we_cron W) (ap_sched a1)" using o assms(2) by (simp add: app_inv_def follows_def)
    show "planned (we_cron W) (ap_sched a1) j = wanted (we_cron W) (w_db (ap_world a1)) j" if "j \<noteq> i" for j
      using o assms(2) that wanted_view [of "w_db (ap_world a1)" j "w_db (ap_world a)", where L = "we_cron W"] v
      by (simp add: app_inv_def follows_def)
  qed
qed

lemma updateJobH_inv:
  assumes "cron_ok (we_cron W)" and "app_inv W a" and "updateJobH v W r a = (rep, a')"
  shows "app_inv W a'"
proof (cases "400 \<le> rp_status rep")
  case True
  then show ?thesis using unchanged_app job_handlers_unchanged(5) assms(2,3) by blast
next
  case False
  then obtain job i j a1 where c: "onStore (updateJob (dbOf W) (job\<lparr>j_id := i\<rparr>)) a = ((Inr (), j), a1)" and a': "a' = reloadH W i a1"
    using assms(3) by (auto simp: updateJobH_def split: option.splits if_splits prod.splits sum.splits)
  note o = onStoreD [OF c]
  have "changeJob (dbOf W) i job (w_db (ap_world a)) = (Inr (), w_db (ap_world a1))" using o by (simp add: changeJob_def)
  from job_update_Inr [OF this] have v: "j \<noteq> i \<Longrightarrow> viewJob (w_db (ap_world a1)) j = viewJob (w_db (ap_world a)) j" for j
    by (simp split: if_splits)
  show ?thesis
    unfolding a'
  proof (rule reload_follows [OF assms(1)])
    show "db_ok (w_db (ap_world a1))" using jobs_ok(2) [of "w_db (ap_world a)" "dbOf W" "job\<lparr>j_id := i\<rparr>"] o assms(2) by (simp add: app_inv_def)
    show "db_calm (dbOf W) (w_db (ap_world a1))"
      using job_ops_schema(2) [of "dbOf W" "job\<lparr>j_id := i\<rparr>" "w_db (ap_world a)"] o assms(2) by (simp add: app_inv_def db_calm_def)
    show "sched_ok (we_cron W) (ap_sched a1)" using o assms(2) by (simp add: app_inv_def follows_def)
    show "planned (we_cron W) (ap_sched a1) j = wanted (we_cron W) (w_db (ap_world a1)) j" if "j \<noteq> i" for j
      using o assms(2) that wanted_view [OF v [OF that], where L = "we_cron W"] by (simp add: app_inv_def follows_def)
  qed
qed

lemma deleteJob_calm: "db_calm E d \<Longrightarrow> \<exists>d'. deleteJob E i d = (Inr (), d')"
  by (simp add: deleteJob_def db_calm_exec Let_def)

lemma deleteJobH_inv:
  assumes "cron_ok (we_cron W)" and "app_inv W a" and "deleteJobH v W r a = (rep, a')"
  shows "app_inv W a'"
proof (cases "parseID v")
  case None
  then show ?thesis using assms by (simp add: deleteJobH_def)
next
  case (Some i)
  let ?a = "a\<lparr>ap_sched := remove (we_cron W) i (ap_sched a)\<rparr>"
  obtain x a1 where d: "onStore (deleteJob (dbOf W) i) ?a = (x, a1)" by fastforce
  note o = onStoreD [OF d, simplified]
  have calm: "db_calm (dbOf W) (w_db (ap_world a))" using assms(2) by (simp add: app_inv_def)
  have a1: "a' = a1" using assms(3) Some d by (auto simp: deleteJobH_def Let_def split: sum.splits)
  obtain y where "deleteJob (dbOf W) i (w_db (ap_world a)) = (Inr (), y)" using deleteJob_calm [OF calm] by blast
  then have del: "deleteJob (dbOf W) i (w_db (ap_world a)) = (Inr (), w_db (ap_world a1))" using o by simp
  from job_delete_Inr [OF del] have v: "viewJob (w_db (ap_world a1)) = (viewJob (w_db (ap_world a)))(i := None)" by simp
  have u: "sched_ok (we_cron W) (ap_sched a1)"
    "planned (we_cron W) (ap_sched a1) = (planned (we_cron W) (ap_sched a))(i := None)"
    using unschedule_spec [OF assms(1), of "ap_sched a" i] assms(2) o by (simp_all add: app_inv_def follows_def remove_def)
  have "db_ok (w_db (ap_world a1))" "schema (w_db (ap_world a1)) = schema (w_db (ap_world a))"
    using jobs_ok(3) [of "w_db (ap_world a)" "dbOf W" i] job_ops_schema(3) [of "dbOf W" i "w_db (ap_world a)"]
      del assms(2) by (simp_all add: app_inv_def)
  then show ?thesis
    using u v assms(2) by (simp add: a1 app_inv_def follows_def db_calm_def wanted_def)
qed

lemma runJobH_inv: "runJobH v W r a = (rep, a') \<Longrightarrow> app_inv W a \<Longrightarrow> app_inv W a'"
  by (auto simp: runJobH_def app_inv_def follows_def dest!: onStore_reads(4)
      dest: unchanged_app [unfolded app_inv_def follows_def] split: option.splits prod.splits sum.splits)

lemma start_db: "start L E (s, d) = (r, s', d') \<Longrightarrow> d' = d\<lparr>stmtNo := Suc (stmtNo d)\<rparr>"
  by (auto simp: start_def Let_def listJobs_def dest!: dbQuery_frame split: prod.splits sum.splits)

lemma serve_inv:
  assumes "cron_ok (we_cron W)" and "app_inv W a" and "serve W r a = (rep, a')"
  shows "app_inv W a'"
  using assms(3)
proof (rule serve_induct)
  fix m ps h
  assume "(m, ps, h) \<in> set routes" "h (pathValue ps (hr_path r)) W r a = (rep, a')"
  then consider "unchanged a a'" | "app_inv W a'"
    unfolding routes_def
    by (simp, elim disjE conjE)
      (simp_all add: handlers_unchanged_all controller_handlers_inv [OF assms(2)] createJobH_inv [OF assms(1,2)]
        updateJobH_inv [OF assms(1,2)] deleteJobH_inv [OF assms(1,2)] runJobH_inv [OF _ assms(2)])
  then show ?thesis using unchanged_app [OF _ assms(2)] by cases
qed (use assms(2) in simp_all)

text \<open>
  The schedule follows the jobs. Starting from a scheduler that has just loaded the jobs, after
  any sequence of requests, as long as the statements on the database do not fail, each job is
  scheduled with exactly the schedule that its row in the store asks for: a new or changed job at
  once, a disabled, deleted or unscheduled job not at all.
\<close>
theorem schedule_follows:
  assumes "cron_ok (we_cron W)" and "db_ok d" and "db_calm (dbOf W) d"
    and "start (we_cron W) (dbOf W) (newScheduler (we_cron W), d) = (Inr (), s, d')"
    and "w_db (ap_world a) = d'" and "ap_sched a = s"
    and "a' = fold (\<lambda>r a. snd (serve W r a)) rs a"
  shows "planned (we_cron W) (ap_sched a') j = wanted (we_cron W) (w_db (ap_world a')) j"
proof -
  have "app_inv W a \<Longrightarrow> app_inv W (fold (\<lambda>r a. snd (serve W r a)) rs a)" for a
  proof (induction rs arbitrary: a)
    case (Cons r rs)
    obtain rep b where "serve W r a = (rep, b)" by fastforce
    with serve_inv [OF assms(1) Cons.prems this] Cons.IH show ?case by simp
  qed simp
  moreover have "app_inv W a"
    using start_contract [OF assms(1,2,4)] start_db [OF assms(4)] assms(2,3,5,6)
    by (auto simp: app_inv_def follows_def db_calm_def wanted_def viewJob_def)
  ultimately show ?thesis by (simp add: assms(7) app_inv_def follows_def)
qed

definition demo_web :: "((nat \<times> string \<times> int) list \<times> nat \<times> bool) web_env" where
  "demo_web = \<lparr>we_sync = demo_sync, we_cron = demo_cron,
     we_decode = (\<lambda>body.
       if body = ''job'' then Inr (JObj [(''name'', JStr ''allow''), (''controller_id'', JNum ''1''),
         (''network_list_id'', JStr ''L1''), (''hostnames'', JStr ''10.0.0.1''), (''schedule'', JStr ''@daily''),
         (''enabled'', JBool True)])
       else if body = ''test'' then Inr (JObj [(''controller_id'', JNum ''1''), (''url'', JStr ''https://other'')])
       else if body = ''rename'' then Inr (JObj [(''name'', JStr ''home''), (''url'', JStr ''https://unifi'')])
       else Inl ''syntax error''),
     we_static = (\<lambda>p. \<lparr>rp_status = 200, rp_body = None\<rparr>)\<rparr>"

lemma demo_web_simps [simp]:
  "we_cron demo_web = demo_cron" "we_sync demo_web = demo_sync" "dbOf demo_web = demo_db True"
  "we_static demo_web p = \<lparr>rp_status = 200, rp_body = None\<rparr>"
  by (simp_all add: demo_web_def dbOf_def)

lemma demo_world_calm: "db_calm (demo_db True) (w_db demo_world)"
  by (simp add: db_calm_def demo_db_def demo_world_def)

theorem replies_redacted_witness:
  "\<exists>rep a'. serve demo_web \<lparr>hr_method = ''GET'', hr_path = [''api'', ''controllers''], hr_limit = [], hr_body = []\<rparr>
      \<lparr>ap_world = demo_world, ap_sched = demo_sched, ap_spawned = []\<rparr> = (rep, a') \<and> reply_keys rep \<subseteq> {placeholder}"
proof -
  obtain rep a' where s: "serve demo_web \<lparr>hr_method = ''GET'', hr_path = [''api'', ''controllers''], hr_limit = [], hr_body = []\<rparr>
      \<lparr>ap_world = demo_world, ap_sched = demo_sched, ap_spawned = []\<rparr> = (rep, a')" by fastforce
  have "\<forall>p. reply_keys (we_static demo_web p) = {}" by (simp add: reply_keys_def)
  with replies_redacted [OF s] s show ?thesis by blast
qed

theorem requests_safe_witness:
  "\<exists>rep a'. serve demo_web \<lparr>hr_method = ''HEAD'', hr_path = [''api'', ''jobs''], hr_limit = [], hr_body = []\<rparr>
      \<lparr>ap_world = demo_world, ap_sched = demo_sched, ap_spawned = []\<rparr> = (rep, a') \<and>
    unchanged \<lparr>ap_world = demo_world, ap_sched = demo_sched, ap_spawned = []\<rparr> a'"
proof -
  obtain rep a' where s: "serve demo_web \<lparr>hr_method = ''HEAD'', hr_path = [''api'', ''jobs''], hr_limit = [], hr_body = []\<rparr>
      \<lparr>ap_world = demo_world, ap_sched = demo_sched, ap_spawned = []\<rparr> = (rep, a')" by fastforce
  from requests_safe [OF s] s show ?thesis by simp
qed

theorem schedule_follows_witness:
  "\<exists>s d. start demo_cron (demo_db True) (newScheduler demo_cron, w_db demo_world) = (Inr (), s, d) \<and>
     (let a = fold (\<lambda>r a. snd (serve demo_web r a))
        [\<lparr>hr_method = ''POST'', hr_path = [''api'', ''jobs''], hr_limit = [], hr_body = ''job''\<rparr>]
        \<lparr>ap_world = demo_world\<lparr>w_db := d\<rparr>, ap_sched = s, ap_spawned = []\<rparr> in
      planned demo_cron (ap_sched a) 2 = wanted demo_cron (w_db (ap_world a)) 2)"
proof -
  obtain s d where st: "start demo_cron (demo_db True) (newScheduler demo_cron, w_db demo_world) = (Inr (), s, d)"
  proof -
    have "fst (start demo_cron (demo_db True) (newScheduler demo_cron, w_db demo_world)) = Inr ()"
      by (simp add: start_def listJobs_def dbQuery_def db_calm_exec [OF demo_world_calm] Let_def)
    then show ?thesis using that by (metis prod.exhaust fst_conv)
  qed
  let ?rs = "[\<lparr>hr_method = ''POST'', hr_path = [''api'', ''jobs''], hr_limit = [], hr_body = ''job''\<rparr>]"
  let ?a = "\<lparr>ap_world = demo_world\<lparr>w_db := d\<rparr>, ap_sched = s, ap_spawned = []\<rparr>"
  have "planned (we_cron demo_web) (ap_sched (fold (\<lambda>r a. snd (serve demo_web r a)) ?rs ?a)) 2 =
      wanted (we_cron demo_web) (w_db (ap_world (fold (\<lambda>r a. snd (serve demo_web r a)) ?rs ?a))) 2"
    by (rule schedule_follows [OF _ demo_world_ok _ _ _ _ refl])
      (use st demo_world_calm demo_cron_ok in simp_all)
  then show ?thesis using st by (simp add: Let_def)
qed

theorem update_keeps_key_witness:
  "viewController (w_db (ap_world (snd (updateControllerH ''1'' demo_web
      \<lparr>hr_method = ''PUT'', hr_path = [''api'', ''controllers'', ''1''], hr_limit = [], hr_body = ''rename''\<rparr>
      \<lparr>ap_world = demo_world, ap_sched = demo_sched, ap_spawned = []\<rparr>)))) 1 =
    Some (controllerContent (demo_controller\<lparr>c_site := []\<rparr>))"
proof -
  let ?r = "\<lparr>hr_method = ''PUT'', hr_path = [''api'', ''controllers'', ''1''], hr_limit = [], hr_body = ''rename''\<rparr>"
  let ?a = "\<lparr>ap_world = demo_world, ap_sched = demo_sched, ap_spawned = []\<rparr>"
  obtain rep a' where u: "updateControllerH ''1'' demo_web ?r ?a = (rep, a')" by fastforce
  have d: "decodeController demo_web ''rename'' = Some (demo_controller\<lparr>c_apiKey := []\<rparr>)" by code_simp
  have p: "parseID ''1'' = Some 1" by code_simp
  have v: "viewController (w_db (ap_world ?a)) 1 = Some (controllerContent demo_controller)"
    by (simp add: viewController_def row_of_def demo_world_def controllerContent_def demo_controller_def)
  have calm: "getController (demo_db True) 1 (w_db demo_world) = (Inr (demo_controller\<lparr>c_id := 1\<rparr>), (w_db demo_world)\<lparr>stmtNo := 1\<rparr>)"
    by (simp add: getController_def dbQuery_def dbExec_def demo_world_def demo_db_def empty_db_def)
  have upd: "\<exists>y. updateController (demo_db True) c ((w_db demo_world)\<lparr>stmtNo := 1\<rparr>) = (Inr (), y)" for c
    by (simp add: updateController_def dbExec_def demo_world_def demo_db_def)
  have kept: "keptKey demo_web 1 (demo_controller\<lparr>c_apiKey := []\<rparr>) ?a =
      (Some (demo_controller\<lparr>c_apiKey := ''k''\<rparr>), ?a\<lparr>ap_world := demo_world\<lparr>w_db := (w_db demo_world)\<lparr>stmtNo := 1\<rparr>\<rparr>\<rparr>)"
    by (simp add: keptKey_def onStore_def calm) (simp add: demo_controller_def)
  obtain y where y: "updateController (demo_db True) (demo_controller\<lparr>c_apiKey := ''k'', c_id := 1\<rparr>)
      ((w_db demo_world)\<lparr>stmtNo := Suc 0\<rparr>) = (Inr (), y)" using upd by (metis One_nat_def)
  have "rp_status rep = 200"
    using u by (auto simp: updateControllerH_def p d kept onStore_def y Let_def writeJSON_def)
  then have "rp_status rep < 400" by simp
  from update_keeps_key [OF u this _ p v] d show ?thesis
    using u by (simp add: controllerContent_def demo_controller_def)
qed

end
