(* ===== verification/Web_More.thy ===== *)
theory Web_More
  imports Web_Props
begin

text \<open>
  Further guarantees of the HTTP interface (\<^verbatim>\<open>internal/web/handler.go\<close>): the form of every reply, what
  is read back from the structs it sends, the limits of the log view and of the response recorder,
  and two behaviours of handlers that the tests do not cover.
\<close>

subsection \<open>The form of replies\<close>

definition error_body :: "json option \<Rightarrow> bool" where
  "error_body b \<longleftrightarrow> (\<exists>msg. b = Some (JObj [(''error'', JStr msg)]))"

definition reply_typed :: "reply \<Rightarrow> bool" where
  "reply_typed rep \<longleftrightarrow>
     (if rp_status rep \<ge> 400 then rp_status rep \<in> {400, 404, 422, 500, 502} \<and> error_body (rp_body rep)
      else if rp_status rep = 204 then rp_body rep = None
      else rp_status rep \<in> {200, 201, 202} \<and> rp_body rep \<noteq> None)"

lemma reply_typed_simps [simp]:
  "st \<in> {200, 201, 202} \<Longrightarrow> reply_typed (writeJSON st v)"
  "st \<in> {400, 404, 422, 500, 502} \<Longrightarrow> reply_typed (writeError st msg)" "reply_typed noContent"
  by (auto simp: reply_typed_def writeJSON_def writeError_def noContent_def error_body_def)

lemma completeTest_typed: "completeTest W q a = (Inl rep, a') \<Longrightarrow> reply_typed rep"
  by (auto simp: completeTest_def split: if_splits prod.splits sum.splits)

lemma controller_handlers_typed:
  "listControllersH W r a = (rep, a') \<Longrightarrow> reply_typed rep" "createControllerH W r a = (rep, a') \<Longrightarrow> reply_typed rep"
  "getControllerH v W r a = (rep, a') \<Longrightarrow> reply_typed rep" "updateControllerH v W r a = (rep, a') \<Longrightarrow> reply_typed rep"
  "deleteControllerH v W r a = (rep, a') \<Longrightarrow> reply_typed rep" "listNetworkListsH v W r a = (rep, a') \<Longrightarrow> reply_typed rep"
  by (auto simp: listControllersH_def createControllerH_def getControllerH_def updateControllerH_def
      deleteControllerH_def listNetworkListsH_def Let_def split: option.splits prod.splits sum.splits if_splits)

lemma test_typed: "testController W r a = (rep, a') \<Longrightarrow> reply_typed rep"
  by (auto simp: testController_def dest: completeTest_typed split: option.splits prod.splits sum.splits if_splits)

lemma job_handlers_typed:
  "listJobsH W r a = (rep, a') \<Longrightarrow> reply_typed rep" "createJobH W r a = (rep, a') \<Longrightarrow> reply_typed rep"
  "getJobH v W r a = (rep, a') \<Longrightarrow> reply_typed rep" "updateJobH v W r a = (rep, a') \<Longrightarrow> reply_typed rep"
  "deleteJobH v W r a = (rep, a') \<Longrightarrow> reply_typed rep" "runJobH v W r a = (rep, a') \<Longrightarrow> reply_typed rep"
  "getJobLogs v W r a = (rep, a') \<Longrightarrow> reply_typed rep"
  by (auto simp: listJobsH_def createJobH_def getJobH_def updateJobH_def deleteJobH_def runJobH_def getJobLogs_def
      Let_def split: option.splits prod.splits sum.splits if_splits)

lemma other_handlers_typed:
  "resolveHostnamesH W r a = (rep, a') \<Longrightarrow> reply_typed rep" "health W r a = (rep, a') \<Longrightarrow> reply_typed rep"
  "listDNSServersH W r a = (rep, a') \<Longrightarrow> reply_typed rep" "createDNSServerH W r a = (rep, a') \<Longrightarrow> reply_typed rep"
  "getDNSServerH v W r a = (rep, a') \<Longrightarrow> reply_typed rep" "updateDNSServerH v W r a = (rep, a') \<Longrightarrow> reply_typed rep"
  "deleteDNSServerH v W r a = (rep, a') \<Longrightarrow> reply_typed rep"
  by (auto simp: resolveHostnamesH_def health_def listDNSServersH_def createDNSServerH_def getDNSServerH_def
      updateDNSServerH_def deleteDNSServerH_def Let_def split: option.splits prod.splits sum.splits if_splits)

text \<open>
  C27: Every reply of the API is well formed. A request that one of the routes serves is answered with
  200, 201 or 202 and a JSON value, with 204 and no body, or with 400, 404, 422, 500 or 502 and an
  object whose only member is the text of the error.
\<close>
theorem replies_typed:
  fixes W :: "'c web_env"
  assumes "serve W r a = (rep, a')" and "filter (serves r) (routes :: (string \<times> pat list \<times> (string \<Rightarrow> 'c handler)) list) \<noteq> []"
  shows "reply_typed rep"
proof (cases "filter (serves r) (routes :: (string \<times> pat list \<times> (string \<Rightarrow> 'c handler)) list)")
  case (Cons e t)
  obtain m ps h where e: "e = (m, ps, h)" by (metis prod.exhaust)
  have h: "h (pathValue ps (hr_path r)) W r a = (rep, a')" using assms(1) unfolding serve_def Cons e by simp
  have "e \<in> set (filter (serves r) (routes :: (string \<times> pat list \<times> (string \<Rightarrow> 'c handler)) list))"
    unfolding Cons by simp
  from subsetD [OF filter_is_subset this] have "(m, ps, h) \<in> set routes" unfolding e .
  with h show ?thesis
    unfolding routes_def
    by (simp, elim disjE conjE)
      (simp_all add: controller_handlers_typed test_typed job_handlers_typed other_handlers_typed)
qed (use assms(2) in simp)

subsection \<open>Structs read back\<close>

lemma digit_no_sign: "is_digit c \<Longrightarrow> c \<noteq> CHR ''-'' \<and> c \<noteq> CHR ''+''"
  by (auto simp: is_digit_def code_def)

lemma itoa_head: "\<exists>c s. itoa n = c # s \<and> c \<noteq> CHR ''-'' \<and> c \<noteq> CHR ''+''"
proof -
  obtain c s where n: "itoa n = c # s" using itoa_ne [of n] by (cases "itoa n") auto
  then have "is_digit c" using itoa_digits [of c n] by simp
  with n digit_no_sign show ?thesis by blast
qed

text \<open>\<^verbatim>\<open>ParseInt\<close> reads what \<^verbatim>\<open>Itoa\<close> prints, for every 64-bit integer.\<close>

definition is_int64 :: "int \<Rightarrow> bool" where
  "is_int64 i \<longleftrightarrow> - (2 ^ 63) \<le> i \<and> i < 2 ^ 63"

lemma parseInt64_itoa [simp]:
  assumes "is_int64 i"
  shows "parseInt64 (itoa_int i) = Some i"
proof (cases "i < 0")
  case True
  then show ?thesis
    using assms by (auto simp: parseInt64_def itoa_int_def digits_val_itoa itoa_digits is_int64_def Let_def)
next
  case False
  obtain c s where n: "itoa (nat i) = c # s" "c \<noteq> CHR ''-''" "c \<noteq> CHR ''+''" using itoa_head by blast
  have "\<forall>c \<in> set (itoa (nat i)). is_digit c" using itoa_digits by blast
  moreover have "digits_val 0 (itoa (nat i)) = nat i" by (rule digits_val_itoa)
  ultimately show ?thesis
    using assms False n by (auto simp: parseInt64_def itoa_int_def is_int64_def Let_def)
qed

text \<open>
  The members that a field collects from an encoded struct: the names differ without regard to case.
\<close>

lemma setWith_one: "setWith f [v] a = (if v = JNull then Some a else f v)"
  by (cases v) (auto split: option.splits)

definition job_fits :: "SyncJob \<Rightarrow> bool" where
  "job_fits j \<longleftrightarrow> is_int64 (j_id j) \<and> is_int64 (j_controllerID j) \<and> is_int64 (j_ttlHours j)"

lemma foldName_keys:
  "foldName ''controller_id'' = ''controller_id''" "foldName ''network_list_id'' = ''network_list_id''"
  "foldName ''hostnames'' = ''hostnames''" "foldName ''schedule'' = ''schedule''"
  "foldName ''observed_ip_ttl_hours'' = ''observed_ip_ttl_hours''" "foldName ''enabled'' = ''enabled''"
  "foldName ''last_run_at'' = ''last_run_at''" "foldName ''last_result'' = ''last_result''"
  "foldName ''created_at'' = ''created_at''" "foldName ''updated_at'' = ''updated_at''"
  "foldName ''controller_name'' = ''controller_name''" "foldName ''url'' = ''url''"
  "foldName ''api_key'' = ''api_key''" "foldName ''site'' = ''site''"
  "foldName ''skip_tls_verify'' = ''skip_tls_verify''" "foldName ''address'' = ''address''"
  by code_simp+

lemma members_simps:
  "members n [] = []" "members n ((k, v) # obj) = (if foldName k = foldName n then v # members n obj else members n obj)"
  "members n (xs @ ys) = members n xs @ members n ys"
  "members n (if b then [] else [(k, v)]) = (if b \<or> foldName k \<noteq> foldName n then [] else [v])"
  by (simp_all add: members_def)

lemma field_values:
  "members n obj = [JStr s] \<Longrightarrow> strField n obj = Some s" "members n obj = [] \<Longrightarrow> strField n obj = Some []"
  "members n obj = [jint i] \<Longrightarrow> is_int64 i \<Longrightarrow> intField n obj = Some i"
  "members n obj = [JBool b] \<Longrightarrow> boolField n obj = Some b"
  "members n obj = [jopt q] \<Longrightarrow> ptrField n obj = Some q"
  by (simp_all add: strField_def intField_def boolField_def ptrField_def jint_def jopt_def split: option.splits)

definition jobMembers :: "SyncJob \<Rightarrow> (string \<times> json) list" where
  "jobMembers j = (case jobJSON j of JObj obj \<Rightarrow> obj | _ \<Rightarrow> [])"

lemma job_members:
  "members ''id'' (jobMembers j) = [jint (j_id j)]"
  "members ''name'' (jobMembers j) = [JStr (j_name j)]"
  "members ''controller_id'' (jobMembers j) = [jint (j_controllerID j)]"
  "members ''network_list_id'' (jobMembers j) = [JStr (j_networkListID j)]"
  "members ''hostnames'' (jobMembers j) = [JStr (j_hostnames j)]"
  "members ''schedule'' (jobMembers j) = [JStr (j_schedule j)]"
  "members ''observed_ip_ttl_hours'' (jobMembers j) = [jint (j_ttlHours j)]"
  "members ''enabled'' (jobMembers j) = [JBool (j_enabled j)]"
  "members ''last_run_at'' (jobMembers j) = [jopt (j_lastRunAt j)]"
  "members ''last_result'' (jobMembers j) = [jopt (j_lastResult j)]"
  "members ''created_at'' (jobMembers j) = [JStr (j_createdAt j)]"
  "members ''updated_at'' (jobMembers j) = [JStr (j_updatedAt j)]"
  "members ''controller_name'' (jobMembers j) = (if j_controllerName j = [] then [] else [JStr (j_controllerName j)])"
  unfolding jobMembers_def jobJSON_def json.case members_simps foldName_keys folded_names
  by simp_all

text \<open>
  C28: What the API sends of a job can be sent back. The object that encodes a job decodes to the same
  job, its optional fields included, whenever its numbers are 64-bit integers.
\<close>
theorem job_roundtrip:
  assumes "job_fits j" and "we_decode W body = Inr (jobJSON j)"
  shows "decodeJob W body = Some j"
proof -
  have obj: "decodeObject W body = Some (jobMembers j)"
    by (simp add: decodeObject_def assms(2) jobMembers_def jobJSON_def)
  have fits: "is_int64 (j_id j)" "is_int64 (j_controllerID j)" "is_int64 (j_ttlHours j)"
    using assms(1) by (simp_all add: job_fits_def)
  have name: "strField ''controller_name'' (jobMembers j) = Some (j_controllerName j)"
    using job_members(13) [of j] field_values(1,2) by (cases "j_controllerName j = []") auto
  note fields = field_values(3) [OF job_members(1) fits(1)] field_values(1) [OF job_members(2)]
    field_values(3) [OF job_members(3) fits(2)] field_values(1) [OF job_members(4)] field_values(1) [OF job_members(5)]
    field_values(1) [OF job_members(6)] field_values(3) [OF job_members(7) fits(3)] field_values(4) [OF job_members(8)]
    field_values(5) [OF job_members(9)] field_values(5) [OF job_members(10)] field_values(1) [OF job_members(11)]
    field_values(1) [OF job_members(12)]
  show ?thesis unfolding decodeJob_def obj bind.bind_lunit fields name by simp
qed

subsection \<open>Deleting a job, testing a controller\<close>

text \<open>
  A deletion that fails still stops the schedule. When the database refuses to delete a job, the
  request is answered with 500 and the job stays in the store as it was, enabled or not, but
  the scheduler no longer runs it.
\<close>
theorem failed_delete_unschedules:
  assumes "cron_ok (we_cron W)" and "sched_ok (we_cron W) (ap_sched a)" and "parseID v = Some i"
    and "deleteJobH v W r a = (rep, a')" and "400 \<le> rp_status rep"
  shows "viewJob (w_db (ap_world a')) = viewJob (w_db (ap_world a)) \<and> planned (we_cron W) (ap_sched a') i = None"
proof -
  let ?a = "a\<lparr>ap_sched := remove (we_cron W) i (ap_sched a)\<rparr>"
  obtain err where o: "onStore (deleteJob (dbOf W) i) ?a = (Inl err, a')"
    using assms(3-5) by (auto simp: deleteJobH_def Let_def split: prod.splits sum.splits)
  have u: "unchanged ?a a'"
    using o by (auto simp: deleteJob_def Let_def unchanged_def dest!: onStoreD dbExec_Inl split: if_splits)
  have "viewJob (w_db (ap_world a')) = viewJob (w_db (ap_world a))"
    using u by (auto simp: unchanged_def viewJob_stmtNo)
  moreover have "planned (we_cron W) (ap_sched a') i = None"
    using u unschedule_spec [OF assms(1,2), of i] by (simp add: unchanged_def remove_def)
  ultimately show ?thesis ..
qed

text \<open>
  A connection test takes the saved key to the address of the request. Given the number of a saved
  controller, no key and an address, the client that lists the networks is made from the address
  in the request and the saved key, whatever the saved address is.
\<close>
theorem test_sends_saved_key:
  assumes "decodeTest W (hr_body r) = Some q" and "tr_apiKey q = []" and "tr_controllerID q \<noteq> 0" and "tr_url q \<noteq> []"
    and "onStore (getController (dbOf W) (tr_controllerID q)) a = (Inr old, a1)" and "c_apiKey old \<noteq> []"
    and "newClient (e_http (we_sync W)) (tr_url q) (if tr_site q = [] then c_site old else tr_site q) (c_apiKey old)
           (tr_skipTLSVerify q) = Inr client"
  shows "testController W r a = (case withHttp (listNetworkLists (e_http (we_sync W)) client) a1 of
      (Inl err, a) \<Rightarrow> (writeError 502 err, a)
    | (Inr nls, a) \<Rightarrow> (writeJSON 200 (JObj [(''network_lists'', jint (int (length (sliceOf nls)))), (''ok'', JBool True)]), a))"
proof -
  have "completeTest W q a = (Inr (q\<lparr>tr_apiKey := c_apiKey old, tr_url := tr_url q,
      tr_site := if tr_site q = [] then c_site old else tr_site q\<rparr>), a1)"
    using assms(2-6) by (simp add: completeTest_def)
  then show ?thesis using assms(1,4,6,7) by (simp add: testController_def)
qed

text \<open>
  A controller without lists may be shown as null. When its answer has null for the data, the reply
  is the JSON value null and not an empty array.
\<close>
theorem null_lists_reply:
  assumes "parseID v = Some i" and "onStore (getController (dbOf W) i) a = (Inr ctrl, a1)"
    and "newClient (e_http (we_sync W)) (c_url ctrl) (c_site ctrl) (c_apiKey ctrl) (c_skipTLSVerify ctrl) = Inr client"
    and "withHttp (listNetworkLists (e_http (we_sync W)) client) a1 = (Inr None, a2)"
  shows "listNetworkListsH v W r a = (writeJSON 200 JNull, a2)"
  using assms by (simp add: listNetworkListsH_def sliceJSON_def)

subsection \<open>Limits\<close>

lemma logLimit_bounds: "1 \<le> logLimit l \<and> logLimit l \<le> 200"
  by (auto simp: logLimit_def split: option.splits)

text \<open>The log view is bounded: whatever limit is asked for, at most 200 entries are sent.\<close>
theorem log_view_bounded:
  assumes "getJobLogs v W r a = (rep, a')" and "rp_status rep = 200"
  shows "\<exists>logs. rp_body rep = Some (JArr logs) \<and> length logs \<le> 200"
proof -
  obtain i logs where rep: "rep = writeJSON 200 (JArr (map runLogJSON logs))"
    and o: "onStore (getRunLogs (dbOf W) i (logLimit (hr_limit r))) a = (Inr logs, a')"
    using assms by (auto simp: getJobLogs_def split: option.splits prod.splits sum.splits)
  have "length logs \<le> nat (logLimit (hr_limit r))"
    using o logLimit_bounds [of "hr_limit r"]
    by (auto simp: getRunLogs_def dbQuery_def onStore_def Let_def dest!: dbExec_Inr split: prod.splits if_splits sum.splits)
  also have "\<dots> \<le> 200" using logLimit_bounds [of "hr_limit r"] by (simp add: nat_le_iff)
  finally show ?thesis using rep by (simp add: writeJSON_def)
qed

definition bodies :: "write_op list \<Rightarrow> string" where
  "bodies ops = concat (map (\<lambda>x. case x of SetStatus st \<Rightarrow> [] | WriteBytes b n \<Rightarrow> b) ops)"

definition sent :: "write_op list \<Rightarrow> nat" where
  "sent ops = sum_list (map (\<lambda>x. case x of SetStatus st \<Rightarrow> 0 | WriteBytes b n \<Rightarrow> n) ops)"

lemma recorder_fold:
  "length (rec_preview rw) \<le> 512 \<Longrightarrow>
   rec_preview (fold recordWrite ops rw) = take 512 (rec_preview rw @ bodies ops) \<and>
   rec_bytes (fold recordWrite ops rw) = rec_bytes rw + sent ops"
proof (induction ops arbitrary: rw)
  case (Cons x ops)
  show ?case
  proof (cases x)
    case (WriteBytes b n)
    have "length (rec_preview (recordWrite x rw)) \<le> 512"
      and "rec_preview (recordWrite x rw) = take 512 (rec_preview rw @ b)"
      and "rec_bytes (recordWrite x rw) = rec_bytes rw + n"
      using Cons.prems by (auto simp: WriteBytes Let_def errorBodyPreviewMax_def min_def)
    with Cons.IH [of "recordWrite x rw"] show ?thesis
      by (simp add: WriteBytes bodies_def sent_def min_def)
  next
    case (SetStatus st)
    with Cons.IH [of "recordWrite x rw"] Cons.prems show ?thesis by (simp add: bodies_def sent_def)
  qed
qed (simp add: bodies_def sent_def)

text \<open>
  The access log tells what was sent. It counts the bytes that the connection took, and for a failed
  response it shows the first 512 bytes of what the handler wrote, without surrounding white space.
\<close>
theorem response_logged:
  "al_bytes (loggingMiddleware ops) = sent ops \<and>
   al_preview (loggingMiddleware ops) \<in> {None, Some (trimSpace (take 512 (bodies ops)))}"
  using recorder_fold [of newRecorder ops] by (simp add: loggingMiddleware_def newRecorder_def Let_def)

subsection \<open>Examples\<close>

abbreviation demo_app :: "((nat \<times> string \<times> int) list \<times> nat \<times> bool) app" where
  "demo_app \<equiv> \<lparr>ap_world = demo_world, ap_sched = demo_sched, ap_spawned = []\<rparr>"

abbreviation demo_request :: "string \<Rightarrow> string list \<Rightarrow> string \<Rightarrow> http_in" where
  "demo_request m path body \<equiv> \<lparr>hr_method = m, hr_path = path, hr_limit = ''500'', hr_body = body\<rparr>"

lemma demo_sched_ok: "sched_ok demo_cron demo_sched"
  by (auto simp: sched_ok_def demo_cron_def demo_sched_def split: if_splits)

theorem replies_typed_witness:
  "\<exists>rep a'. serve demo_web (demo_request ''GET'' [''api'', ''jobs''] []) demo_app = (rep, a') \<and> reply_typed rep"
proof -
  obtain rep a' where s: "serve demo_web (demo_request ''GET'' [''api'', ''jobs''] []) demo_app = (rep, a')" by fastforce
  have "filter (serves (demo_request ''GET'' [''api'', ''jobs''] []))
      (routes :: (string \<times> pat list \<times> (string \<Rightarrow> ((nat \<times> string \<times> int) list \<times> nat \<times> bool) handler)) list) \<noteq> []"
    by (simp add: routes_def methodServes_def)
  from replies_typed [OF s this] s show ?thesis by blast
qed

definition demo_job :: SyncJob where
  "demo_job = \<lparr>j_id = 1, j_name = ''allow'', j_controllerID = 1, j_networkListID = ''L1'', j_hostnames = ''10.0.0.1'',
     j_schedule = ''@daily'', j_ttlHours = -1, j_enabled = True, j_lastRunAt = None, j_lastResult = Some ''success'',
     j_createdAt = ''t'', j_updatedAt = ''u'', j_controllerName = []\<rparr>"

theorem job_roundtrip_witness:
  "decodeJob (demo_web\<lparr>we_decode := (\<lambda>body. Inr (jobJSON demo_job))\<rparr>) [] = Some demo_job"
  by (rule job_roundtrip) (simp_all add: demo_job_def job_fits_def is_int64_def)

definition broken_web :: "((nat \<times> string \<times> int) list \<times> nat \<times> bool) web_env" where
  "broken_web = demo_web\<lparr>we_sync := demo_sync\<lparr>e_db := (demo_db True)\<lparr>dctx := (\<lambda>n.
     \<lparr>fault = Some ''database is locked'', fk_on = True, ctx_time = 0, row_rank = (\<lambda>i. 0)\<rparr>)\<rparr>\<rparr>\<rparr>"

theorem failed_delete_unschedules_witness:
  "\<exists>rep a'. deleteJobH ''1'' broken_web (demo_request ''DELETE'' [''api'', ''jobs'', ''1''] []) demo_app = (rep, a') \<and>
     viewJob (w_db (ap_world a')) = viewJob (w_db demo_world) \<and> planned demo_cron (ap_sched a') 1 = None"
proof -
  let ?r = "demo_request ''DELETE'' [''api'', ''jobs'', ''1''] []"
  obtain rep a' where d: "deleteJobH ''1'' broken_web ?r demo_app = (rep, a')" by fastforce
  have p: "parseID ''1'' = Some 1" by code_simp
  have c: "we_cron broken_web = demo_cron" by (simp add: broken_web_def)
  have "rp_status rep = 500"
    using d by (auto simp: deleteJobH_def p onStore_def deleteJob_def dbExec_def dbOf_def broken_web_def Let_def)
  then have "400 \<le> rp_status rep" by simp
  from failed_delete_unschedules [OF _ _ p d this] have
    "viewJob (w_db (ap_world a')) = viewJob (w_db demo_world) \<and> planned demo_cron (ap_sched a') 1 = None"
    unfolding c by (simp add: demo_cron_ok demo_sched_ok)
  with d show ?thesis by blast
qed

theorem test_sends_saved_key_witness:
  "\<exists>client a1. newClient demo_http ''https://other'' [] ''k'' False = Inr client \<and> cl_apiKey client = ''k'' \<and>
     testController demo_web (demo_request ''POST'' [''api'', ''controllers'', ''test''] ''test'') demo_app =
       (case withHttp (listNetworkLists demo_http client) a1 of
          (Inl err, a) \<Rightarrow> (writeError 502 err, a)
        | (Inr nls, a) \<Rightarrow> (writeJSON 200 (JObj [(''network_lists'', jint (int (length (sliceOf nls)))), (''ok'', JBool True)]), a))"
proof -
  let ?r = "demo_request ''POST'' [''api'', ''controllers'', ''test''] ''test''"
  let ?q = "\<lparr>tr_controllerID = 1, tr_url = ''https://other'', tr_site = [], tr_apiKey = [], tr_skipTLSVerify = False\<rparr>"
  have q: "decodeTest demo_web (hr_body ?r) = Some ?q" by code_simp
  obtain a1 where g: "onStore (getController (dbOf demo_web) (tr_controllerID ?q)) demo_app = (Inr (demo_controller\<lparr>c_id := 1\<rparr>), a1)"
    by (simp add: onStore_def getController_def dbQuery_def dbExec_def demo_world_def demo_db_def empty_db_def)
  obtain client where n: "newClient demo_http ''https://other'' [] ''k'' False = Inr client" "cl_apiKey client = ''k''"
  proof -
    have "newClient demo_http ''https://other'' [] ''k'' False =
        Inr \<lparr>cl_baseURL = ''https://unifi'', cl_site = [], cl_siteID = [], cl_apiBase = [], cl_apiKey = ''k'',
             cl_skipTLSVerify = False\<rparr>" by code_simp
    then show ?thesis using that by simp
  qed
  have h: "e_http (we_sync demo_web) = demo_http" by (simp add: demo_sync_def)
  have "testController demo_web ?r demo_app = (case withHttp (listNetworkLists (e_http (we_sync demo_web)) client) a1 of
      (Inl err, a) \<Rightarrow> (writeError 502 err, a)
    | (Inr nls, a) \<Rightarrow> (writeJSON 200 (JObj [(''network_lists'', jint (int (length (sliceOf nls)))), (''ok'', JBool True)]), a))"
    by (rule test_sends_saved_key [OF q _ _ _ g]) (use n(1) h in \<open>simp_all add: demo_controller_def\<close>)
  with n h show ?thesis by auto
qed

theorem log_view_bounded_witness:
  "\<exists>rep a' logs. getJobLogs ''1'' demo_web (demo_request ''GET'' [''api'', ''jobs'', ''1'', ''logs''] []) demo_app = (rep, a') \<and>
     rp_body rep = Some (JArr logs) \<and> length logs \<le> 200"
proof -
  let ?r = "demo_request ''GET'' [''api'', ''jobs'', ''1'', ''logs''] []"
  obtain rep a' where l: "getJobLogs ''1'' demo_web ?r demo_app = (rep, a')" by fastforce
  have p: "parseID ''1'' = Some 1" by code_simp
  have "rp_status rep = 200"
    using l by (auto simp: getJobLogs_def p onStore_def getRunLogs_def dbQuery_def dbExec_def demo_world_def demo_db_def
      empty_db_def Let_def)
  from log_view_bounded [OF l this] l show ?thesis by blast
qed

end
