(* ===== verification/Log_Attrs.thy ===== *)
theory Log_Attrs
  imports Go_Strings Go_Time
begin

text \<open>
  The data that log events carry, and how \<^verbatim>\<open>internal/logging/logging.go\<close> turns it into text:
  attributes and their values, the conversion of variadic arguments, the level names, the
  handlers that collect and render attributes. The parts of \<^verbatim>\<open>log/slog\<close>, \<^verbatim>\<open>time\<close> and
  \<^verbatim>\<open>path/filepath\<close> that these functions use are modelled here as well.

  An instant is a number of nanoseconds since 1970 together with the offset of its zone in seconds.
  A value of kind Any is the text that \<^verbatim>\<open>fmt\<close> prints for it, except for the two types that the
  code asks for, levels and source positions.
\<close>

type_synonym go_time = "int \<times> int"

definition zeroTime :: int where
  "zeroTime = -62135596800000000000"

datatype val =
    VString string | VInt int | VUint nat | VFloat string | VBool bool
  | VTime go_time | VDuration int
  | VLevel int | VSource "(string \<times> string \<times> nat) option" | VAny string
  | VGroup "attr list" | VLogValuer string val
and attr = Attr (attrKey: string) (attrValue: val)

subsection \<open>Instants and durations as text\<close>

definition strip0 :: "string \<Rightarrow> string" where
  "strip0 s = rev (dropWhile (\<lambda>c. c = CHR ''0'') (rev s))"

definition fracText :: "nat \<Rightarrow> int \<Rightarrow> string" where
  "fracText prec n = (let f = strip0 (padded prec n) in if f = [] then [] else ''.'' @ f)"

definition dateText :: "int \<Rightarrow> string" where
  "dateText n = (let (y, m, d) = civil n in year_text y @ ''-'' @ padded 2 m @ ''-'' @ padded 2 d)"

definition clockText :: "int \<Rightarrow> string" where
  "clockText s = padded 2 (s div 3600) @ '':'' @ padded 2 (s div 60 mod 60) @ '':'' @ padded 2 (s mod 60)"

definition zoneText :: "int \<Rightarrow> string" where
  "zoneText off = (if off = 0 then ''Z''
     else (if off \<le> -60 then ''-'' else ''+'') @
       padded 2 (\<bar>off\<bar> div 60 div 60) @ '':'' @ padded 2 (\<bar>off\<bar> div 60 mod 60))"

definition localSec :: "go_time \<Rightarrow> int" where
  "localSec t = fst t div 10 ^ 9 + snd t"

definition rfc3339Nano :: "go_time \<Rightarrow> string" where
  "rfc3339Nano t = dateText (localSec t div 86400 + unix_day) @ ''T'' @ clockText (localSec t mod 86400) @
     fracText 9 (fst t mod 10 ^ 9) @ zoneText (snd t)"

definition consoleStamp :: "go_time \<Rightarrow> string" where
  \<comment> \<open>the layout 2006-01-02 15:04:05.000\<close>
  "consoleStamp t = dateText (localSec t div 86400 + unix_day) @ '' '' @ clockText (localSec t mod 86400) @
     ''.'' @ padded 3 (fst t mod 10 ^ 9 div 10 ^ 6)"

definition months :: "string list" where
  "months = [''Jan'', ''Feb'', ''Mar'', ''Apr'', ''May'', ''Jun'', ''Jul'', ''Aug'', ''Sep'', ''Oct'', ''Nov'', ''Dec'']"

definition stampText :: "go_time \<Rightarrow> string" where
  \<comment> \<open>the layout Jan \<^verbatim>\<open>_2\<close> 15:04:05\<close>
  "stampText t = (let (y, m, d) = civil (localSec t div 86400 + unix_day) in
     months ! nat (m - 1) @ '' '' @ (if d < 10 then '' '' @ padded 1 d else padded 2 d) @ '' '' @
     clockText (localSec t mod 86400))"

definition fileStamp :: "go_time \<Rightarrow> string" where
  \<comment> \<open>the layout 20060102-150405\<close>
  "fileStamp t = (let (y, m, d) = civil (localSec t div 86400 + unix_day); s = localSec t mod 86400 in
     year_text y @ padded 2 m @ padded 2 d @ ''-'' @
     padded 2 (s div 3600) @ padded 2 (s div 60 mod 60) @ padded 2 (s mod 60))"

definition micro :: string where
  \<comment> \<open>U+00B5 in UTF-8\<close>
  "micro = [char_of (194 :: nat), char_of (181 :: nat)]"

definition durationText :: "int \<Rightarrow> string" where
  "durationText d =
     (let u = \<bar>d\<bar>; s = u div 10 ^ 9; num = (\<lambda>n. itoa (nat n)) in
      (if d < 0 then ''-'' else []) @
      (if u = 0 then ''0s''
       else if u < 10 ^ 3 then num u @ ''ns''
       else if u < 10 ^ 6 then num (u div 10 ^ 3) @ fracText 3 (u mod 10 ^ 3) @ micro @ ''s''
       else if u < 10 ^ 9 then num (u div 10 ^ 6) @ fracText 6 (u mod 10 ^ 6) @ ''ms''
       else (if s div 3600 > 0 then num (s div 3600) @ ''h'' else []) @
            (if s div 60 > 0 then num (s div 60 mod 60) @ ''m'' else []) @
            num (s mod 60) @ fracText 9 (u mod 10 ^ 9) @ ''s''))"

subsection \<open>Levels\<close>

definition LevelVerbose :: int where "LevelVerbose = -8"
definition LevelDebug :: int where "LevelDebug = -4"
definition LevelInfo :: int where "LevelInfo = 0"
definition LevelWarn :: int where "LevelWarn = 4"
definition LevelError :: int where "LevelError = 8"

lemmas level_defs = LevelVerbose_def LevelDebug_def LevelInfo_def LevelWarn_def LevelError_def

text \<open>\<^verbatim>\<open>slog.Level.String\<close>.\<close>

definition levelString :: "int \<Rightarrow> string" where
  "levelString l =
     (let str = (\<lambda>base v. if v = 0 then base else base @ (if v > 0 then ''+'' else []) @ itoa_int v) in
      if l < LevelInfo then str ''DEBUG'' (l - LevelDebug)
      else if l < LevelWarn then str ''INFO'' (l - LevelInfo)
      else if l < LevelError then str ''WARN'' (l - LevelWarn)
      else str ''ERROR'' (l - LevelError))"

definition formatLevel :: "int \<Rightarrow> string" where
  "formatLevel level =
     (if level = LevelVerbose then ''VERBOSE''
      else if level \<le> LevelDebug then ''DEBUG''
      else if level < LevelWarn then ''INFO''
      else if level < LevelError then ''WARN''
      else ''ERROR'')"

definition formatConsoleLevel :: "int \<Rightarrow> string" where
  "formatConsoleLevel level =
     (if level = LevelVerbose then ''VRB''
      else if level \<le> LevelDebug then ''DBG''
      else if level < LevelWarn then ''INF''
      else if level < LevelError then ''WRN''
      else ''ERR'')"

definition esc :: "string \<Rightarrow> string" where
  "esc sgr = CHR 0x1B # ''['' @ sgr @ ''m''"

definition colorizeLevel :: "string \<Rightarrow> string" where
  "colorizeLevel level =
     (let color = (if level \<in> {''VERBOSE'', ''VRB''} then esc ''90''
                   else if level \<in> {''DEBUG'', ''DBG''} then esc ''36''
                   else if level \<in> {''WARN'', ''WRN''} then esc ''33''
                   else if level \<in> {''ERROR'', ''ERR''} then esc ''31'' else []) in
      if color = [] then level else color @ level @ esc ''0'')"

subsection \<open>Attributes\<close>

definition fieldKeyVerbosePrefix :: string where
  "fieldKeyVerbosePrefix = ''verbose.''"

text \<open>An argument of a logging call: a string, an attribute (with its printed text), another value.\<close>

datatype arg = ArgStr string | ArgAttr attr string | ArgVal val

fun anyValue :: "arg \<Rightarrow> val" where
  "anyValue (ArgStr s) = VString s"
| "anyValue (ArgAttr a t) = VAny t"
| "anyValue (ArgVal v) = v"

definition VerboseField :: "string \<Rightarrow> arg \<Rightarrow> attr" where
  "VerboseField key v = Attr (fieldKeyVerbosePrefix @ key) (anyValue v)"

fun argsToAttrs :: "arg list \<Rightarrow> attr list" where
  "argsToAttrs [] = []"
| "argsToAttrs [ArgStr x] = [Attr ''!BADKEY'' (VString x)]"
| "argsToAttrs (ArgStr x # v # args) = Attr x (anyValue v) # argsToAttrs args"
| "argsToAttrs (ArgAttr a t # args) = a # argsToAttrs args"
| "argsToAttrs (ArgVal v # args) = Attr ''!BADKEY'' v # argsToAttrs args"

fun emptyGroup :: "attr \<Rightarrow> bool" where
  "emptyGroup (Attr k v) \<longleftrightarrow> v = VGroup []"

text \<open>\<^verbatim>\<open>slog.Record.Add\<close> leaves out empty groups, and so does \<^verbatim>\<open>slog.Group\<close>.\<close>

definition recordAdd :: "attr list \<Rightarrow> attr list" where
  "recordAdd as = filter (\<lambda>a. \<not> emptyGroup a) as"

definition slogGroup :: "string \<Rightarrow> attr \<Rightarrow> attr" where
  "slogGroup name a = Attr name (VGroup (recordAdd [a]))"

text \<open>\<^verbatim>\<open>Value.Resolve\<close>: at most a hundred calls of \<^verbatim>\<open>LogValue\<close>.\<close>

fun resolveN :: "string \<Rightarrow> nat \<Rightarrow> val \<Rightarrow> val" where
  "resolveN ty 0 v = VAny (''LogValue called too many times'' @ [CHR 0x0A] @ '' from Value of type '' @ ty)"
| "resolveN ty (Suc n) (VLogValuer t v) = resolveN ty n v"
| "resolveN ty (Suc n) v = v"

fun resolve :: "val \<Rightarrow> val" where
  "resolve (VLogValuer t v) = resolveN t 100 (VLogValuer t v)"
| "resolve v = v"

primrec vdepth :: "val \<Rightarrow> nat" and adepth :: "attr \<Rightarrow> nat" where
  "vdepth (VString _) = 1" | "vdepth (VInt _) = 1" | "vdepth (VUint _) = 1" | "vdepth (VFloat _) = 1"
| "vdepth (VBool _) = 1" | "vdepth (VTime _) = 1" | "vdepth (VDuration _) = 1" | "vdepth (VLevel _) = 1"
| "vdepth (VSource _) = 1" | "vdepth (VAny _) = 1"
| "vdepth (VGroup as) = Suc (sum_list (map adepth as))"
| "vdepth (VLogValuer _ v) = Suc (vdepth v)"
| "adepth (Attr _ v) = Suc (vdepth v)"

lemma vdepth_pos: "0 < vdepth v"
  by (induction v rule: val.induct) simp_all

lemma vdepth_resolveN: "vdepth (resolveN ty n v) \<le> vdepth v"
proof (induction ty n v rule: resolveN.induct)
  case (1 ty v)
  then show ?case using vdepth_pos [of v] by simp
qed simp_all

lemma vdepth_resolve: "vdepth (resolve v) \<le> vdepth v"
proof (cases v)
  case (VLogValuer t w)
  then show ?thesis using vdepth_resolveN [of t 100 "VLogValuer t w"] by simp
qed simp_all

end
