(* ===== verification/Log_Console.thy ===== *)
theory Log_Console
  imports Log_Attrs
begin

text \<open>
  The handlers of \<^verbatim>\<open>internal/logging/logging.go\<close> that turn a record into text or into an event: the
  pretty console handler, the replacement of attributes for the structured handlers, the level
  filter and the handler in front of the ring, with their \<^verbatim>\<open>WithAttrs\<close> and \<^verbatim>\<open>WithGroup\<close>.
  \<^verbatim>\<open>rt_frame\<close> is the runtime's table from program counters to source positions, and \<^verbatim>\<open>rt_group\<close> the
  text of a group in \<^verbatim>\<open>slog.Value.String\<close>, which is never reached.
\<close>

record event_body =
  ev_time :: go_time
  ev_level :: int
  ev_msg :: string
  ev_pc :: nat
  ev_attrs :: "attr list"

record frame =
  fr_pc :: nat
  fr_file :: string
  fr_line :: nat

record log_rt =
  rt_frame :: "nat \<Rightarrow> frame"
  rt_group :: "attr list \<Rightarrow> string"

text \<open>\<^verbatim>\<open>filepath.Base\<close>: the last element of a path.\<close>

definition baseName :: "string \<Rightarrow> string" where
  "baseName p = (if p = [] then ''.'' else
     let q = rev (dropWhile (\<lambda>c. c = CHR ''/'') (rev p)) in
     if q = [] then ''/'' else rev (takeWhile (\<lambda>c. c \<noteq> CHR ''/'') (rev q)))"

definition sourceFromPC :: "log_rt \<Rightarrow> nat \<Rightarrow> string" where
  "sourceFromPC R pc =
     (if pc = 0 then []
      else let f = rt_frame R pc in
        if fr_file f = [] then [] else baseName (fr_file f) @ '':'' @ itoa (fr_line f))"

text \<open>
  The first frame outside this package, from the program counters and the frames that the runtime
  reports for them.
\<close>

definition firstExternalCallerPC :: "nat list \<Rightarrow> frame list \<Rightarrow> nat" where
  "firstExternalCallerPC pcs frames =
     (case pcs of [] \<Rightarrow> 0 | pc # _ \<Rightarrow>
        (case filter (\<lambda>f. \<not> hasSuffix (map (\<lambda>c. if c = CHR 0x5C then CHR ''/'' else c) (fr_file f))
                               ''/internal/logging/logging.go'') frames of
           f # _ \<Rightarrow> fr_pc f | [] \<Rightarrow> pc))"

subsection \<open>Values and fields\<close>

fun formatPrettyValue :: "log_rt \<Rightarrow> val \<Rightarrow> string" where
  "formatPrettyValue R v =
     (case resolve v of
        VTime t \<Rightarrow> rfc3339Nano t
      | VDuration d \<Rightarrow> durationText d
      | VString s \<Rightarrow> s
      | VBool b \<Rightarrow> (if b then ''true'' else ''false'')
      | VAny t \<Rightarrow> t
      | VLevel l \<Rightarrow> levelString l
      | VSource None \<Rightarrow> ''<nil>''
      | VSource (Some (fn, file, line)) \<Rightarrow> ''&{'' @ fn @ '' '' @ file @ '' '' @ itoa line @ ''}''
      | VInt i \<Rightarrow> itoa_int i
      | VUint n \<Rightarrow> itoa n
      | VFloat t \<Rightarrow> t
      | VGroup as \<Rightarrow> rt_group R as
      | VLogValuer t w \<Rightarrow> t)"

declare formatPrettyValue.simps [simp del]

definition field :: "bool \<Rightarrow> string \<Rightarrow> string \<Rightarrow> string" where
  "field colorize key valueText =
     (if colorize then esc ''2'' @ key @ esc ''0'' @ '': '' @ valueText else key @ '': '' @ valueText)"

function collectPrettyField ::
  "log_rt \<Rightarrow> bool \<Rightarrow> bool \<Rightarrow> attr \<Rightarrow> string list \<Rightarrow> string \<times> string list \<Rightarrow> string \<times> string list" where
  "collectPrettyField R colorize verbose (Attr k v) groups (category, fs) =
     (case resolve v of
        VGroup nested \<Rightarrow>
          fold (\<lambda>a st. collectPrettyField R colorize verbose a (if k \<noteq> [] then groups @ [k] else groups) st)
            nested (category, fs)
      | value \<Rightarrow>
          let isVerboseOnly = hasPrefix k fieldKeyVerbosePrefix;
              key = (if isVerboseOnly then trimPrefix k fieldKeyVerbosePrefix else k) in
          if isVerboseOnly \<and> \<not> verbose then (category, fs)
          else let key = (if groups \<noteq> [] then join ''.'' (groups @ [key]) else key);
                   valueText = formatPrettyValue R value in
            if key = ''category'' \<and> category = [] then (valueText, fs)
            else (category, fs @ [field colorize key valueText]))"
  by pat_completeness auto

lemma group_shallower:
  assumes "resolve v = VGroup nested" and "a \<in> set nested"
  shows "adepth a < adepth (Attr k v)"
proof -
  have "adepth a \<le> sum_list (map adepth nested)" using assms(2) by (simp add: member_le_sum_list)
  also have "\<dots> < vdepth (resolve v)" by (simp add: assms(1))
  also have "\<dots> \<le> vdepth v" by (rule vdepth_resolve)
  finally show ?thesis by simp
qed

termination collectPrettyField
  by (relation "measure (\<lambda>(R, c, v, a, g, st). adepth a)") (auto intro: group_shallower simp del: adepth.simps)

declare collectPrettyField.simps [simp del]

subsection \<open>The console handler\<close>

record prettyConsoleHandler =
  ph_addSource :: bool
  ph_verbose :: bool
  ph_colorize :: bool
  ph_groups :: "string list"
  ph_attrs :: "(string list \<times> attr) list"

definition newPrettyConsoleHandler :: "bool \<Rightarrow> bool \<Rightarrow> prettyConsoleHandler" where
  "newPrettyConsoleHandler addSource colorize =
     \<lparr>ph_addSource = addSource, ph_verbose = addSource, ph_colorize = colorize, ph_groups = [], ph_attrs = []\<rparr>"

definition prettyWithAttrs :: "attr list \<Rightarrow> prettyConsoleHandler \<Rightarrow> prettyConsoleHandler" where
  "prettyWithAttrs as h = h\<lparr>ph_attrs := ph_attrs h @ map (Pair (ph_groups h)) as\<rparr>"

definition prettyWithGroup :: "string \<Rightarrow> prettyConsoleHandler \<Rightarrow> prettyConsoleHandler" where
  "prettyWithGroup name h = (if name = [] then h else h\<lparr>ph_groups := ph_groups h @ [name]\<rparr>)"

definition paint :: "bool \<Rightarrow> string \<Rightarrow> string \<Rightarrow> string" where
  "paint on sgr s = (if on then esc sgr @ s @ esc ''0'' else s)"

definition collected :: "log_rt \<Rightarrow> prettyConsoleHandler \<Rightarrow> attr list \<Rightarrow> string \<times> string list" where
  "collected R h as =
     fold (\<lambda>a. collectPrettyField R (ph_colorize h) (ph_verbose h) a (ph_groups h)) as
       (fold (\<lambda>(groups, a). collectPrettyField R (ph_colorize h) (ph_verbose h) a groups) (ph_attrs h) ([], []))"

definition fieldsText :: "bool \<Rightarrow> bool \<Rightarrow> string list \<Rightarrow> string" where
  "fieldsText colorize verbose fs =
     (if fs = [] then []
      else if verbose then concat (map (\<lambda>f. CHR 0x0A # ''    '' @ f) fs)
      else paint colorize ''2'' '' ('' @ join '' - '' fs @ paint colorize ''2'' '')'')"

text \<open>The line that \<^verbatim>\<open>Handle\<close> writes; \<open>now\<close> replaces a zero time.\<close>

definition prettyHandle :: "log_rt \<Rightarrow> go_time \<Rightarrow> prettyConsoleHandler \<Rightarrow> 'e event_body_scheme \<Rightarrow> string" where
  "prettyHandle R now h r =
     (let c = ph_colorize h;
          ts = (if fst (ev_time r) = zeroTime then now else ev_time r);
          label = formatConsoleLevel (ev_level r);
          levelLabel = (if c then colorizeLevel label else label);
          source = (if ph_addSource h then sourceFromPC R (ev_pc r) else []);
          (category, fs) = collected R h (ev_attrs r) in
      paint c ''2'' (''['' @ consoleStamp ts @ '']'') @ '' '' @
      paint c ''2'' ''['' @ levelLabel @ paint c ''2'' '']'' @ '' '' @
      (if source \<noteq> [] then paint c ''2'' source @ '': '' else []) @
      (if category \<noteq> [] then paint c ''1'' category @ '': '' else []) @
      ev_msg r @ fieldsText c (ph_verbose h) fs @ [CHR 0x0A])"

subsection \<open>Structured handlers\<close>

definition replaceSlogAttr :: "attr \<Rightarrow> attr" where
  "replaceSlogAttr a =
     (case a of Attr k v \<Rightarrow>
        let k = (if hasPrefix k fieldKeyVerbosePrefix then trimPrefix k fieldKeyVerbosePrefix else k) in
        if k = ''time'' then (case v of VTime t \<Rightarrow> Attr ''time'' (VString (rfc3339Nano t)) | _ \<Rightarrow> Attr k v)
        else if k = ''level'' then (case v of VLevel l \<Rightarrow> Attr ''level'' (VString (formatLevel l)) | _ \<Rightarrow> Attr k v)
        else if k = ''source'' then (case v of
            VSource (Some (fn, file, line)) \<Rightarrow> Attr ''source'' (VString (baseName file @ '':'' @ itoa line))
          | _ \<Rightarrow> Attr k v)
        else Attr k v)"

end
