(* ===== verification/Log_Ring.thy ===== *)
theory Log_Ring
  imports Buffers Log_Console
begin

text \<open>
  The ring of log events (\<^verbatim>\<open>eventRing\<close> in \<^verbatim>\<open>internal/logging/logging.go\<close>) and its contract: it holds the
  last events that were pushed, numbered without gaps. Sequence numbers are natural numbers; the
  code's \<^verbatim>\<open>uint64\<close> wraps after 2 to the 64 events.
\<close>

record logEvent = event_body +
  ev_seq :: nat

record eventRing =
  er_buf :: "logEvent list"
  er_cap :: nat
  er_head :: nat
  er_tail :: nat

definition numbered :: "nat \<Rightarrow> event_body \<Rightarrow> logEvent" where
  "numbered i b = event_body.extend b (logEvent.fields i)"

definition zeroEvent :: logEvent where
  "zeroEvent = numbered 0 \<lparr>ev_time = (zeroTime, 0), ev_level = 0, ev_msg = [], ev_pc = 0, ev_attrs = []\<rparr>"

definition newEventRing :: "nat \<Rightarrow> eventRing" where
  "newEventRing capacity = \<lparr>er_buf = replicate capacity zeroEvent, er_cap = capacity, er_head = 0, er_tail = 0\<rparr>"

text \<open>The results of \<open>push\<close>: the ring, the number, whether an event was evicted and which.\<close>

definition push :: "logEvent \<Rightarrow> eventRing \<Rightarrow> eventRing \<times> nat \<times> bool \<times> nat" where
  "push e r =
     (let seq = er_head r; e = e\<lparr>ev_seq := seq\<rparr>; idx = seq mod er_cap r;
          evicted = (er_head r - er_tail r \<ge> er_cap r);
          evictedSeq = (if evicted then er_tail r else 0);
          r = (if evicted then r\<lparr>er_tail := er_tail r + 1\<rparr> else r) in
      (r\<lparr>er_buf := (er_buf r)[idx := e], er_head := er_head r + 1\<rparr>, seq, evicted, evictedSeq))"

definition get :: "nat \<Rightarrow> eventRing \<Rightarrow> logEvent option" where
  "get seq r = (if seq < er_tail r \<or> seq \<ge> er_head r then None else Some (er_buf r ! (seq mod er_cap r)))"

subsection \<open>The contract\<close>

definition ring_ok :: "eventRing \<Rightarrow> bool" where
  "ring_ok r \<longleftrightarrow> 0 < er_cap r \<and> length (er_buf r) = er_cap r \<and> er_tail r \<le> er_head r \<and>
     er_head r - er_tail r \<le> er_cap r \<and>
     (\<forall>s \<in> {er_tail r..<er_head r}. ev_seq (er_buf r ! (s mod er_cap r)) = s)"

definition live :: "eventRing \<Rightarrow> logEvent list" where
  "live r = map (\<lambda>s. er_buf r ! (s mod er_cap r)) [er_tail r..<er_head r]"

definition ring_items :: "eventRing \<Rightarrow> event_body list" where
  "ring_items r = map event_body.truncate (live r)"

definition append_event :: "event_body \<Rightarrow> eventRing \<Rightarrow> eventRing" where
  "append_event b r = fst (push (numbered 0 b) r)"

lemma ring_ok_new: "0 < n \<Longrightarrow> ring_ok (newEventRing n)"
  by (simp add: ring_ok_def newEventRing_def)

lemma truncate_numbered [simp]: "event_body.truncate (numbered i b) = b"
  by (simp add: numbered_def event_body.defs logEvent.defs)

lemma truncate_seq [simp]: "event_body.truncate (e\<lparr>ev_seq := i\<rparr>) = event_body.truncate e"
  by (simp add: event_body.defs)

lemma window_mod:
  assumes "s \<noteq> (t :: nat)" and "s < t" and "t - s < c"
  shows "s mod c \<noteq> t mod c"
proof
  assume eq: "s mod c = t mod c"
  have "c dvd t - s" using eq assms(2) by (metis less_imp_le_nat mod_eq_dvd_iff_nat)
  with assms show False by (metis dvd_imp_le linorder_not_le zero_less_diff)
qed

lemma push_fields:
  "er_cap (fst (push e r)) = er_cap r" "er_head (fst (push e r)) = Suc (er_head r)"
  "er_tail (fst (push e r)) = (if er_head r - er_tail r \<ge> er_cap r then Suc (er_tail r) else er_tail r)"
  "er_buf (fst (push e r)) = (er_buf r)[er_head r mod er_cap r := e\<lparr>ev_seq := er_head r\<rparr>]"
  by (simp_all add: push_def Let_def)

lemma push_slot:
  assumes "ring_ok r" and "s < er_head r" and "er_tail (fst (push e r)) \<le> s"
  shows "er_buf (fst (push e r)) ! (s mod er_cap r) = er_buf r ! (s mod er_cap r)"
proof -
  have "s mod er_cap r \<noteq> er_head r mod er_cap r"
    using assms by (intro window_mod) (auto simp: push_fields ring_ok_def split: if_splits)
  then show ?thesis by (simp add: push_fields)
qed

lemma push_last:
  "ring_ok r \<Longrightarrow> er_buf (fst (push e r)) ! (er_head r mod er_cap r) = e\<lparr>ev_seq := er_head r\<rparr>"
  by (simp add: push_fields ring_ok_def)

lemma ring_ok_push:
  assumes "ring_ok r"
  shows "ring_ok (fst (push e r))"
proof -
  have "ev_seq (er_buf (fst (push e r)) ! (s mod er_cap r)) = s"
    if "er_tail (fst (push e r)) \<le> s" "s < Suc (er_head r)" for s
  proof (cases "s = er_head r")
    case True
    then show ?thesis using push_last [OF assms, of e] by simp
  next
    case False
    then show ?thesis
      using that push_slot [OF assms, of s e] assms by (auto simp: ring_ok_def push_fields split: if_splits)
  qed
  then show ?thesis using assms by (auto simp: ring_ok_def push_fields)
qed

lemma live_push:
  assumes "ring_ok r"
  shows "live (fst (push e r)) =
    (if length (live r) = er_cap r then tl (live r) else live r) @ [e\<lparr>ev_seq := er_head r\<rparr>]"
proof -
  let ?r = "fst (push e r)"
  have le: "er_tail ?r \<le> er_head r" using assms by (auto simp: push_fields ring_ok_def)
  have "live ?r = map (\<lambda>s. er_buf ?r ! (s mod er_cap r)) [er_tail ?r..<er_head r] @ [e\<lparr>ev_seq := er_head r\<rparr>]"
    using le push_last [OF assms, of e] by (simp add: live_def push_fields)
  also have "map (\<lambda>s. er_buf ?r ! (s mod er_cap r)) [er_tail ?r..<er_head r] =
      map (\<lambda>s. er_buf r ! (s mod er_cap r)) [er_tail ?r..<er_head r]"
    using push_slot [OF assms] by simp
  also have "\<dots> = (if length (live r) = er_cap r then tl (live r) else live r)"
    using assms by (auto simp: live_def push_fields ring_ok_def map_tl [symmetric] tl_upt)
  finally show ?thesis .
qed

lemma subseq_tl: "subseq (tl xs) xs"
  by (cases xs) auto

interpretation event_ring: evicting_buffer ring_ok ring_items append_event er_cap
proof unfold_locales
  fix q x
  assume ok: "ring_ok q"
  show "ring_ok (append_event x q)" using ok by (simp add: append_event_def ring_ok_push)
  show "er_cap (append_event x q) = er_cap q" by (simp add: append_event_def push_fields)
  show "length (ring_items q) \<le> er_cap q" using ok by (simp add: ring_items_def live_def ring_ok_def)
  show "subseq (ring_items (append_event x q)) (ring_items q @ [x])"
    using live_push [OF ok, of "numbered 0 x"]
    by (auto simp: ring_items_def append_event_def intro: list_emb_append_mono subseq_map subseq_tl)
  show "ring_items (append_event x q) = ring_items q @ [x]" if "length (ring_items q) < er_cap q"
    using that live_push [OF ok, of "numbered 0 x"] by (simp add: ring_items_def append_event_def)
  show "ring_items (append_event x q) = tl (ring_items q) @ [x]" if "length (ring_items q) = er_cap q"
    using that live_push [OF ok, of "numbered 0 x"] by (simp add: ring_items_def append_event_def map_tl)
  show "0 < er_cap q" using ok by (simp add: ring_ok_def)
qed

end
