(* ===== verification/Log_Manager.thy ===== *)
theory Log_Manager
  imports Log_Ring
begin

text \<open>
  The log manager of \<^verbatim>\<open>internal/logging/logging.go\<close>: its configuration, the logger in front of the
  ring, the ring's producers (\<^verbatim>\<open>enqueue\<close> and what calls it) and its consumers, one worker per sink.

  The operating system, the network and the text handler of \<^verbatim>\<open>log/slog\<close> are the fields of \<open>log_os\<close>, over
  a state of any type. The mutex is the field \<open>ls_mu\<close>: an operation that locks it while it is held
  by its own caller blocks for ever, which is the value None.
\<close>

record Config =
  debugEnabled :: bool
  verboseEnabled :: bool
  logToStdout :: bool
  logToFile :: bool
  filePath :: string
  fileMaxSizeMB :: int
  fileMaxFiles :: int
  syslogEnabled :: bool
  syslogProtocol :: string
  syslogHost :: string
  syslogTag :: string

definition DefaultConfig :: Config where
  "DefaultConfig = \<lparr>debugEnabled = False, verboseEnabled = False, logToStdout = True, logToFile = False,
     filePath = ''./sync.log'', fileMaxSizeMB = 50, fileMaxFiles = 10, syslogEnabled = False,
     syslogProtocol = ''udp'', syslogHost = [], syslogTag = ''go-unifi-network-list-sync''\<rparr>"

definition ringCapacity :: nat where "ringCapacity = 5000"

definition missedWarnInterval :: int where
  \<comment> \<open>30 seconds\<close>
  "missedWarnInterval = 30 * 10 ^ 9"

subsection \<open>The handlers in front of the ring\<close>

record ringEnqueueHandler =
  rh_cfg :: Config
  rh_groups :: "string list"
  rh_attrs :: "attr list"

definition ringWithAttrs :: "attr list \<Rightarrow> ringEnqueueHandler \<Rightarrow> ringEnqueueHandler" where
  "ringWithAttrs as h = h\<lparr>rh_attrs := rh_attrs h @ map (foldr slogGroup (rh_groups h)) as\<rparr>"

definition ringWithGroup :: "string \<Rightarrow> ringEnqueueHandler \<Rightarrow> ringEnqueueHandler" where
  "ringWithGroup name h = (if name = [] then h else h\<lparr>rh_groups := rh_groups h @ [name]\<rparr>)"

definition ringEnabled :: "ringEnqueueHandler \<Rightarrow> int \<Rightarrow> bool" where
  "ringEnabled h level = True"

text \<open>The event that \<^verbatim>\<open>Handle\<close> enqueues for a record.\<close>

definition ringHandle :: "ringEnqueueHandler \<Rightarrow> event_body \<Rightarrow> event_body" where
  "ringHandle h r = r\<lparr>ev_attrs := rh_attrs h @ ev_attrs r\<rparr>"

record levelFilterHandler =
  lf_next :: ringEnqueueHandler
  lf_cfg :: Config

definition levelEnabled :: "levelFilterHandler \<Rightarrow> int \<Rightarrow> bool" where
  "levelEnabled h level =
     (if level = LevelVerbose then verboseEnabled (lf_cfg h)
      else if level = LevelDebug then debugEnabled (lf_cfg h)
      else ringEnabled (lf_next h) level)"

definition filterHandle :: "levelFilterHandler \<Rightarrow> event_body \<Rightarrow> event_body" where
  "filterHandle h r = ringHandle (lf_next h) r"

definition filterWithAttrs :: "attr list \<Rightarrow> levelFilterHandler \<Rightarrow> levelFilterHandler" where
  "filterWithAttrs as h = h\<lparr>lf_next := ringWithAttrs as (lf_next h)\<rparr>"

definition filterWithGroup :: "string \<Rightarrow> levelFilterHandler \<Rightarrow> levelFilterHandler" where
  "filterWithGroup name h = h\<lparr>lf_next := ringWithGroup name (lf_next h)\<rparr>"

subsection \<open>Sinks and their workers\<close>

datatype sink = SinkConsole | SinkFile | SinkSyslog

datatype log_writer = Stdout | FileWriter nat | SyslogWriter nat string

datatype sink_handler = PrettyHandler prettyConsoleHandler | StructuredHandler log_writer bool

text \<open>\<open>sw_batch\<close> is the local variable of the goroutine: events taken and not yet written.\<close>

record sinkWorker =
  sw_index :: sink
  sw_nextSeq :: nat
  sw_missed :: nat
  sw_handler :: sink_handler
  sw_batch :: "logEvent list"

fun sinkName :: "sink \<Rightarrow> string" where
  "sinkName SinkConsole = ''console''"
| "sinkName SinkFile = ''file''"
| "sinkName SinkSyslog = ''syslog''"

definition newSinkWorker :: "sink \<Rightarrow> nat \<Rightarrow> sink_handler \<Rightarrow> sinkWorker" where
  "newSinkWorker index startSeq h =
     \<lparr>sw_index = index, sw_nextSeq = startSeq, sw_missed = 0, sw_handler = h, sw_batch = []\<rparr>"

text \<open>Collecting a batch, under the mutex.\<close>

function collectBatch :: "eventRing \<Rightarrow> sinkWorker \<Rightarrow> sinkWorker" where
  "collectBatch r sw =
     (if sw_nextSeq sw < er_head r
      then (case get (sw_nextSeq sw) r of
          None \<Rightarrow> collectBatch r (sw\<lparr>sw_missed := sw_missed sw + 1, sw_nextSeq := sw_nextSeq sw + 1\<rparr>)
        | Some ev \<Rightarrow> collectBatch r (sw\<lparr>sw_batch := sw_batch sw @ [ev], sw_nextSeq := sw_nextSeq sw + 1\<rparr>))
      else sw)"
  by pat_completeness auto
termination by (relation "measure (\<lambda>(r, sw). er_head r - sw_nextSeq sw)") auto

declare collectBatch.simps [simp del]

definition takeBatch :: "eventRing \<Rightarrow> sinkWorker \<Rightarrow> sinkWorker" where
  "takeBatch r sw = collectBatch r
     (if sw_nextSeq sw < er_tail r
      then sw\<lparr>sw_missed := sw_missed sw + (er_tail r - sw_nextSeq sw), sw_nextSeq := er_tail r\<rparr>
      else sw)"

record 'w log_os =
  os_rt :: log_rt
  os_callers :: "nat list \<times> frame list"
  os_now :: "'w \<Rightarrow> go_time"
  os_upper :: "string \<Rightarrow> string"
  os_noColor :: string
  os_stdoutDevice :: "bool option"
  os_textLine :: "(attr \<Rightarrow> attr) \<Rightarrow> bool \<Rightarrow> event_body \<Rightarrow> string"
  os_stdout :: "string \<Rightarrow> 'w \<Rightarrow> 'w"
  os_stderr :: "string \<Rightarrow> 'w \<Rightarrow> 'w"
  os_mkdirAll :: "string \<Rightarrow> 'w \<Rightarrow> unit res \<times> 'w"
  os_openAppend :: "string \<Rightarrow> 'w \<Rightarrow> nat res \<times> 'w"
  os_fileWrite :: "nat \<Rightarrow> string \<Rightarrow> 'w \<Rightarrow> 'w"
  os_fileSize :: "nat \<Rightarrow> 'w \<Rightarrow> int option"
  os_closeFile :: "nat \<Rightarrow> 'w \<Rightarrow> 'w"
  os_rename :: "string \<Rightarrow> string \<Rightarrow> 'w \<Rightarrow> 'w"
  os_readDir :: "string \<Rightarrow> 'w \<Rightarrow> (string \<times> bool) list option"
  os_removeFile :: "string \<Rightarrow> 'w \<Rightarrow> unit res \<times> 'w"
  os_dial :: "string \<Rightarrow> string \<Rightarrow> 'w \<Rightarrow> nat res \<times> 'w"
  os_send :: "nat \<Rightarrow> string \<Rightarrow> 'w \<Rightarrow> unit res \<times> 'w"
  os_hangUp :: "nat \<Rightarrow> 'w \<Rightarrow> 'w"

text \<open>The result of a \<^verbatim>\<open>Write\<close>: the number of bytes and an error.\<close>

definition syslogWrite :: "'w log_os \<Rightarrow> nat \<Rightarrow> string \<Rightarrow> string \<Rightarrow> 'w \<Rightarrow> (nat \<times> string option) \<times> 'w" where
  "syslogWrite E conn tag p w =
     (let msg = ''<14>'' @ stampText (os_now E w) @ '' '' @ tag @ '': '' @ p in
      case os_send E conn msg w of (_, w) \<Rightarrow> ((length p, None), w))"

fun writeTo :: "'w log_os \<Rightarrow> log_writer \<Rightarrow> string \<Rightarrow> 'w \<Rightarrow> 'w" where
  "writeTo E Stdout p w = os_stdout E p w"
| "writeTo E (FileWriter f) p w = os_fileWrite E f p w"
| "writeTo E (SyslogWriter conn tag) p w = snd (syslogWrite E conn tag p w)"

definition toRecord :: "logEvent \<Rightarrow> event_body" where
  "toRecord e = (event_body.truncate e)\<lparr>ev_attrs := recordAdd (ev_attrs e)\<rparr>"

definition handleEvent :: "'w log_os \<Rightarrow> sink_handler \<Rightarrow> logEvent \<Rightarrow> 'w \<Rightarrow> 'w" where
  "handleEvent E h e w =
     (case h of
        PrettyHandler p \<Rightarrow> writeTo E Stdout (prettyHandle (os_rt E) (os_now E w) p (toRecord e)) w
      | StructuredHandler wr addSource \<Rightarrow> writeTo E wr (os_textLine E replaceSlogAttr addSource (toRecord e)) w)"

definition writeBatch :: "'w log_os \<Rightarrow> sinkWorker \<Rightarrow> 'w \<Rightarrow> sinkWorker \<times> 'w" where
  "writeBatch E sw w = (sw\<lparr>sw_batch := []\<rparr>, fold (handleEvent E (sw_handler sw)) (sw_batch sw) w)"

subsection \<open>The manager\<close>

record manager =
  m_config :: Config
  m_logFile :: "nat option"
  m_sysConn :: "nat option"
  m_logger :: "levelFilterHandler option"
  m_ring :: eventRing
  m_workers :: "sinkWorker list"
  m_workersDone :: bool
  m_rotationStop :: bool
  m_missed :: "sink \<Rightarrow> nat"
  m_lastMissedWarn :: int
  m_inMissedWarn :: bool

definition newManager :: manager where
  "newManager = \<lparr>m_config = DefaultConfig, m_logFile = None, m_sysConn = None, m_logger = None,
     m_ring = newEventRing ringCapacity, m_workers = [], m_workersDone = False, m_rotationStop = False,
     m_missed = (\<lambda>_. 0), m_lastMissedWarn = zeroTime, m_inMissedWarn = False\<rparr>"

record 'w log_state =
  ls_mgr :: manager
  ls_world :: 'w
  ls_mu :: bool

definition lockMu :: "'w log_state \<Rightarrow> 'w log_state option" where
  "lockMu s = (if ls_mu s then None else Some (s\<lparr>ls_mu := True\<rparr>))"

definition unlockMu :: "'w log_state \<Rightarrow> 'w log_state" where
  "unlockMu s = s\<lparr>ls_mu := False\<rparr>"

subsection \<open>Producing events\<close>

definition countEviction :: "nat \<Rightarrow> sinkWorker \<Rightarrow> sinkWorker" where
  "countEviction evictedSeq sw =
     (if sw_nextSeq sw \<le> evictedSeq then sw\<lparr>sw_missed := sw_missed sw + 1\<rparr> else sw)"

definition overflowWarning :: "sinkWorker list \<Rightarrow> string" where
  "overflowWarning ws = ''[logging] ring buffer overflow '' @ map char_of [226, 128, 148 :: nat] @ '' missed events: '' @
     join '', '' (map (\<lambda>sw. sinkName (sw_index sw) @ ''='' @ itoa (sw_missed sw)) (filter (\<lambda>sw. sw_missed sw > 0) ws)) @
     [CHR 0x0A]"

definition accountEvictionLocked :: "'w log_os \<Rightarrow> nat \<Rightarrow> 'w log_state \<Rightarrow> 'w log_state" where
  "accountEvictionLocked E evictedSeq s =
     (let m = ls_mgr s; m = m\<lparr>m_workers := map (countEviction evictedSeq) (m_workers m)\<rparr>;
          s = s\<lparr>ls_mgr := m\<rparr>; now = fst (os_now E (ls_world s)) in
      if \<not> m_inMissedWarn m \<and> now - m_lastMissedWarn m > missedWarnInterval
      then (let s = s\<lparr>ls_mgr := m\<lparr>m_lastMissedWarn := now, m_inMissedWarn := False\<rparr>\<rparr> in
        if filter (\<lambda>sw. sw_missed sw > 0) (m_workers m) \<noteq> []
        then s\<lparr>ls_world := os_stderr E (overflowWarning (m_workers m)) (ls_world s)\<rparr> else s)
      else s)"

definition enqueueLocked :: "'w log_os \<Rightarrow> event_body \<Rightarrow> 'w log_state \<Rightarrow> 'w log_state" where
  "enqueueLocked E e s =
     (case push (numbered 0 e) (m_ring (ls_mgr s)) of (r, seq, evicted, evictedSeq) \<Rightarrow>
        let s = s\<lparr>ls_mgr := (ls_mgr s)\<lparr>m_ring := r\<rparr>\<rparr> in
        if evicted then accountEvictionLocked E evictedSeq s else s)"

definition enqueue :: "'w log_os \<Rightarrow> event_body \<Rightarrow> 'w log_state \<Rightarrow> 'w log_state option" where
  "enqueue E e s = Option.bind (lockMu s) (\<lambda>s. Some (unlockMu (enqueueLocked E e s)))"

text \<open>A record that reaches the logger, from \<^verbatim>\<open>slog\<close> or bridged from \<^verbatim>\<open>log.Printf\<close>.\<close>

definition slogLog :: "'w log_os \<Rightarrow> levelFilterHandler \<Rightarrow> int \<Rightarrow> string \<Rightarrow> attr list \<Rightarrow> 'w log_state \<Rightarrow> 'w log_state option" where
  "slogLog E lg level msg as s =
     (if levelEnabled lg level
      then enqueue E (filterHandle lg \<lparr>ev_time = os_now E (ls_world s), ev_level = level, ev_msg = msg,
             ev_pc = hd (fst (os_callers E) @ [0]), ev_attrs = recordAdd as\<rparr>) s
      else Some s)"

definition logPrintf :: "'w log_os \<Rightarrow> string \<Rightarrow> 'w log_state \<Rightarrow> 'w log_state option" where
  "logPrintf E msg s =
     (case m_logger (ls_mgr s) of
        None \<Rightarrow> Some (s\<lparr>ls_world := os_stderr E (msg @ [CHR 0x0A]) (ls_world s)\<rparr>)
      | Some lg \<Rightarrow> slogLog E lg LevelInfo msg [] s)"

text \<open>The manager's own entry point, which bypasses the handlers' attributes.\<close>

definition managerLog :: "'w log_os \<Rightarrow> int \<Rightarrow> string \<Rightarrow> arg list \<Rightarrow> 'w log_state \<Rightarrow> 'w log_state option" where
  "managerLog E level msg args s =
     Option.bind (lockMu s) (\<lambda>s.
       let cfg = m_config (ls_mgr s); logger = m_logger (ls_mgr s); s = unlockMu s in
       case logger of
         None \<Rightarrow> Some s
       | Some lg \<Rightarrow>
           if \<not> levelEnabled lg level then Some s
           else let pc = (if verboseEnabled cfg then firstExternalCallerPC (fst (os_callers E)) (snd (os_callers E)) else 0) in
             enqueue E \<lparr>ev_time = os_now E (ls_world s), ev_level = level, ev_msg = msg, ev_pc = pc,
                        ev_attrs = argsToAttrs args\<rparr> s)"

definition logInfo :: "'w log_os \<Rightarrow> string \<Rightarrow> arg list \<Rightarrow> 'w log_state \<Rightarrow> 'w log_state option" where
  "logInfo E = managerLog E LevelInfo"

definition logWarn :: "'w log_os \<Rightarrow> string \<Rightarrow> arg list \<Rightarrow> 'w log_state \<Rightarrow> 'w log_state option" where
  "logWarn E = managerLog E LevelWarn"

definition logError :: "'w log_os \<Rightarrow> string \<Rightarrow> arg list \<Rightarrow> 'w log_state \<Rightarrow> 'w log_state option" where
  "logError E = managerLog E LevelError"

text \<open>Reading the configuration takes the mutex and releases it.\<close>

definition getConfig :: "'w log_state \<Rightarrow> (Config \<times> 'w log_state) option" where
  "getConfig s = Option.bind (lockMu s) (\<lambda>s. Some (m_config (ls_mgr s), unlockMu s))"

definition isDebug :: "'w log_state \<Rightarrow> (bool \<times> 'w log_state) option" where
  "isDebug s = Option.bind (lockMu s) (\<lambda>s. Some (debugEnabled (m_config (ls_mgr s)), unlockMu s))"

definition isVerbose :: "'w log_state \<Rightarrow> (bool \<times> 'w log_state) option" where
  "isVerbose s = Option.bind (lockMu s) (\<lambda>s. Some (verboseEnabled (m_config (ls_mgr s)), unlockMu s))"

definition logDebug :: "'w log_os \<Rightarrow> string \<Rightarrow> arg list \<Rightarrow> 'w log_state \<Rightarrow> 'w log_state option" where
  "logDebug E msg args s =
     Option.bind (isDebug s) (\<lambda>(on, s). if on then managerLog E LevelDebug msg args s else Some s)"

definition logVerbose :: "'w log_os \<Rightarrow> string \<Rightarrow> arg list \<Rightarrow> 'w log_state \<Rightarrow> 'w log_state option" where
  "logVerbose E msg args s =
     Option.bind (isVerbose s) (\<lambda>(on, s). if on then managerLog E LevelVerbose msg args s else Some s)"

subsection \<open>Diagnostics\<close>

record SinkStats =
  st_name :: string
  st_missed :: nat
  st_nextSeq :: nat
  st_lag :: nat

record DiagStats =
  ds_ringHead :: nat
  ds_ringTail :: nat
  ds_ringUsed :: nat
  ds_ringCap :: nat
  ds_sinks :: "SinkStats list"

definition diagnostics :: "manager \<Rightarrow> DiagStats" where
  "diagnostics m =
     (let r = m_ring m in
      \<lparr>ds_ringHead = er_head r, ds_ringTail = er_tail r, ds_ringUsed = er_head r - er_tail r, ds_ringCap = er_cap r,
       ds_sinks = map (\<lambda>sw. \<lparr>st_name = sinkName (sw_index sw), st_missed = sw_missed sw, st_nextSeq = sw_nextSeq sw,
         st_lag = (if er_head r > sw_nextSeq sw then er_head r - sw_nextSeq sw else 0)\<rparr>) (m_workers m)\<rparr>)"

subsection \<open>Laws\<close>

text \<open>A worker takes exactly what the ring still has of its part.\<close>

definition seqs_from :: "nat \<Rightarrow> eventRing \<Rightarrow> logEvent list" where
  "seqs_from n r = map (\<lambda>s. er_buf r ! (s mod er_cap r)) [max n (er_tail r)..<er_head r]"

lemma collectBatch_live:
  "er_tail r \<le> sw_nextSeq sw \<Longrightarrow> sw_nextSeq sw \<le> er_head r \<Longrightarrow>
   collectBatch r sw = sw\<lparr>sw_batch := sw_batch sw @ seqs_from (sw_nextSeq sw) r, sw_nextSeq := er_head r\<rparr>"
proof (induction r sw rule: collectBatch.induct)
  case (1 r sw)
  show ?case
  proof (cases "sw_nextSeq sw < er_head r")
    case True
    then have g: "get (sw_nextSeq sw) r = Some (er_buf r ! (sw_nextSeq sw mod er_cap r))"
      using 1(3) by (simp add: get_def)
    have "collectBatch r sw = collectBatch r (sw\<lparr>sw_batch := sw_batch sw @ [er_buf r ! (sw_nextSeq sw mod er_cap r)],
        sw_nextSeq := sw_nextSeq sw + 1\<rparr>)"
      using True by (subst collectBatch.simps) (simp add: g)
    also have "\<dots> = sw\<lparr>sw_batch := sw_batch sw @ seqs_from (sw_nextSeq sw) r, sw_nextSeq := er_head r\<rparr>"
      using 1(2) [OF True g] 1(3) True by (simp add: seqs_from_def max_absorb1 upt_conv_Cons)
    finally show ?thesis .
  next
    case False
    then show ?thesis using 1(4) by (subst collectBatch.simps) (simp add: seqs_from_def)
  qed
qed

lemma takeBatch_eq:
  assumes "er_tail r \<le> er_head r" and "sw_nextSeq sw \<le> er_head r"
  shows "takeBatch r sw = sw\<lparr>sw_missed := sw_missed sw + (er_tail r - sw_nextSeq sw),
    sw_batch := sw_batch sw @ seqs_from (sw_nextSeq sw) r, sw_nextSeq := er_head r\<rparr>"
  using assms by (auto simp: takeBatch_def collectBatch_live seqs_from_def max_def)

end
