(* ===== verification/Log_Outputs.thy ===== *)
theory Log_Outputs
  imports Log_Manager
begin

text \<open>
  Opening, closing and rotating the outputs of the log manager (\<^verbatim>\<open>internal/logging/logging.go\<close>):
  \<^verbatim>\<open>Configure\<close>, \<^verbatim>\<open>Close\<close>, \<^verbatim>\<open>RotateFileIfNeeded\<close> and what they call, and the functions of
  \<^verbatim>\<open>path/filepath\<close> they use. Waiting for the workers to stop is running each of them to its exit;
  no event is produced meanwhile here (the interleavings are the subject of Log\_Workers and
  Log\_Stopping).
\<close>

subsection \<open>Paths\<close>

definition cleanSeg :: "bool \<Rightarrow> string list \<Rightarrow> string \<Rightarrow> string list" where
  "cleanSeg rooted acc s =
     (if s = [] \<or> s = ''.'' then acc
      else if s = ''..'' then
        (if acc \<noteq> [] \<and> last acc \<noteq> ''..'' then butlast acc else if rooted then acc else acc @ [s])
      else acc @ [s])"

definition cleanPath :: "string \<Rightarrow> string" where
  "cleanPath p =
     (let rooted = hasPrefix p ''/''; segs = foldl (cleanSeg rooted) [] (split_on ''/'' p) in
      if rooted then ''/'' @ join ''/'' segs else if segs = [] then ''.'' else join ''/'' segs)"

definition dirName :: "string \<Rightarrow> string" where
  "dirName p = cleanPath (rev (dropWhile (\<lambda>c. c \<noteq> CHR ''/'') (rev p)))"

definition joinPath :: "string \<Rightarrow> string \<Rightarrow> string" where
  "joinPath d name = (if d = [] then (if name = [] then [] else cleanPath name) else cleanPath (d @ ''/'' @ name))"

subsection \<open>Opening and closing\<close>

definition openLogFile :: "'w log_os \<Rightarrow> string \<Rightarrow> 'w log_state \<Rightarrow> unit res \<times> 'w log_state" where
  "openLogFile E path s =
     (case os_mkdirAll E (dirName path) (ls_world s) of
        (Inl err, w) \<Rightarrow> (Inl (''create log directory: '' @ err), s\<lparr>ls_world := w\<rparr>)
      | (Inr _, w) \<Rightarrow>
          (case os_openAppend E path w of
             (Inl err, w) \<Rightarrow> (Inl (''open log file: '' @ err), s\<lparr>ls_world := w\<rparr>)
           | (Inr f, w) \<Rightarrow> (Inr (), s\<lparr>ls_world := w, ls_mgr := (ls_mgr s)\<lparr>m_logFile := Some f\<rparr>\<rparr>)))"

definition openSyslog :: "'w log_os \<Rightarrow> string \<Rightarrow> string \<Rightarrow> 'w log_state \<Rightarrow> unit res \<times> 'w log_state" where
  "openSyslog E protocol host s =
     (let protocol = toLower (os_upper E) protocol;
          protocol = (if protocol \<noteq> ''udp'' \<and> protocol \<noteq> ''tcp'' then ''udp'' else protocol) in
      case os_dial E protocol host (ls_world s) of
        (Inl err, w) \<Rightarrow> (Inl (''connect to syslog: '' @ err), s\<lparr>ls_world := w\<rparr>)
      | (Inr conn, w) \<Rightarrow> (Inr (), s\<lparr>ls_world := w, ls_mgr := (ls_mgr s)\<lparr>m_sysConn := Some conn\<rparr>\<rparr>))"

definition closeOutputs :: "'w log_os \<Rightarrow> 'w log_state \<Rightarrow> 'w log_state" where
  "closeOutputs E s =
     (let s = (case m_logFile (ls_mgr s) of None \<Rightarrow> s
               | Some f \<Rightarrow> s\<lparr>ls_world := os_closeFile E f (ls_world s), ls_mgr := (ls_mgr s)\<lparr>m_logFile := None\<rparr>\<rparr>) in
      case m_sysConn (ls_mgr s) of None \<Rightarrow> s
      | Some c \<Rightarrow> s\<lparr>ls_world := os_hangUp E c (ls_world s), ls_mgr := (ls_mgr s)\<lparr>m_sysConn := None\<rparr>\<rparr>)"

definition startRotationWatcherLocked :: "manager \<Rightarrow> manager" where
  "startRotationWatcherLocked m =
     (if m_logFile m = None \<or> fileMaxSizeMB (m_config m) \<le> 0 then m
      else if m_rotationStop m then m else m\<lparr>m_rotationStop := True\<rparr>)"

definition stopRotationWatcherLocked :: "manager \<Rightarrow> manager" where
  "stopRotationWatcherLocked m = (if m_rotationStop m then m\<lparr>m_rotationStop := False\<rparr> else m)"

text \<open>A worker that was told to stop: it writes what it has in hand, then all that is left in the ring.\<close>

definition runToExit :: "'w log_os \<Rightarrow> eventRing \<Rightarrow> sinkWorker \<Rightarrow> 'w \<Rightarrow> 'w" where
  "runToExit E r sw w =
     (case writeBatch E sw w of (sw, w) \<Rightarrow>
        if sw_nextSeq sw < er_head r then snd (writeBatch E (takeBatch r sw) w) else w)"

definition stopWorkersLocked :: "'w log_os \<Rightarrow> 'w log_state \<Rightarrow> 'w log_state" where
  "stopWorkersLocked E s =
     (let m = ls_mgr s; ws = m_workers m in
      if ws = [] then s
      else s\<lparr>ls_mgr := m\<lparr>m_workers := [], m_workersDone := False,
               m_missed := fold (\<lambda>sw ms. ms(sw_index sw := ms (sw_index sw) + sw_missed sw)) ws (m_missed m)\<rparr>,
             ls_world := fold (runToExit E (m_ring m)) ws (ls_world s)\<rparr>)"

definition rebuildLoggerLocked :: "manager \<Rightarrow> manager" where
  "rebuildLoggerLocked m = m\<lparr>m_logger := Some
     \<lparr>lf_next = \<lparr>rh_cfg = m_config m, rh_groups = [], rh_attrs = []\<rparr>, lf_cfg = m_config m\<rparr>\<rparr>"

definition newStructuredHandler :: "log_writer \<Rightarrow> bool \<Rightarrow> sink_handler" where
  "newStructuredHandler wr addSource = StructuredHandler wr addSource"

definition shouldColorize :: "'w log_os \<Rightarrow> bool" where
  "shouldColorize E =
     (if os_noColor E \<noteq> [] then False else case os_stdoutDevice E of None \<Rightarrow> False | Some device \<Rightarrow> device)"

subsection \<open>Configure and Close\<close>

definition openFileOutput :: "'w log_os \<Rightarrow> Config \<Rightarrow> 'w log_state \<Rightarrow> bool \<times> string list \<times> 'w log_state" where
  "openFileOutput E cfg s =
     (if logToFile cfg \<and> filePath cfg \<noteq> [] then
        (case openLogFile E (filePath cfg) s of
           (Inl err, s) \<Rightarrow> (False, [''failed to open log file '' @ filePath cfg @ '': '' @ err], s)
         | (Inr _, s) \<Rightarrow> (True, [], s))
      else (False, [], s))"

definition openSyslogOutput :: "'w log_os \<Rightarrow> Config \<Rightarrow> 'w log_state \<Rightarrow> bool \<times> string list \<times> 'w log_state" where
  "openSyslogOutput E cfg s =
     (if syslogEnabled cfg \<and> syslogHost cfg \<noteq> [] then
        (case openSyslog E (syslogProtocol cfg) (syslogHost cfg) s of
           (Inl err, s) \<Rightarrow> (False, [''failed to connect to syslog '' @ syslogProtocol cfg @ ''://'' @ syslogHost cfg @ '': '' @ err], s)
         | (Inr _, s) \<Rightarrow> (True, [], s))
      else (False, [], s))"

definition sysTag :: "Config \<Rightarrow> string" where
  "sysTag cfg = (if syslogTag cfg = [] then ''go-unifi-network-list-sync'' else syslogTag cfg)"

text \<open>The workers of a configuration; without any output, the console.\<close>

definition sinkWorkers :: "'w log_os \<Rightarrow> Config \<Rightarrow> bool \<Rightarrow> bool \<Rightarrow> manager \<Rightarrow> sinkWorker list" where
  "sinkWorkers E cfg hasFile hasSyslog m =
     (let startSeq = er_head (m_ring m);
          hasConsole = (logToStdout cfg \<or> \<not> hasFile \<and> \<not> hasSyslog) in
      (if hasConsole then [newSinkWorker SinkConsole startSeq
          (PrettyHandler (newPrettyConsoleHandler (verboseEnabled cfg) (shouldColorize E)))] else []) @
      (if hasFile then [newSinkWorker SinkFile startSeq
          (newStructuredHandler (FileWriter (the (m_logFile m))) (verboseEnabled cfg))] else []) @
      (if hasSyslog then [newSinkWorker SinkSyslog startSeq
          (newStructuredHandler (SyslogWriter (the (m_sysConn m)) (sysTag cfg)) (verboseEnabled cfg))] else []))"

fun emitWarnings :: "'w log_os \<Rightarrow> levelFilterHandler \<Rightarrow> string list \<Rightarrow> 'w log_state \<Rightarrow> 'w log_state option" where
  "emitWarnings E lg [] s = Some s"
| "emitWarnings E lg (warning # ws) s =
     Option.bind (slogLog E lg LevelWarn ''Logging configuration warning''
       (argsToAttrs [ArgStr ''category'', ArgStr ''logging.config'', ArgStr ''detail'', ArgStr warning]) s)
     (emitWarnings E lg ws)"

definition reconfigured :: "'w log_os \<Rightarrow> Config \<Rightarrow> 'w log_state \<Rightarrow> string list \<times> 'w log_state" where
  "reconfigured E cfg s =
     (let s = s\<lparr>ls_mgr := stopRotationWatcherLocked (ls_mgr s)\<rparr>;
          s = closeOutputs E (stopWorkersLocked E s);
          s = s\<lparr>ls_mgr := (ls_mgr s)\<lparr>m_config := cfg\<rparr>\<rparr> in
      case openFileOutput E cfg s of (hasFile, warnings1, s) \<Rightarrow>
      case openSyslogOutput E cfg s of (hasSyslog, warnings2, s) \<Rightarrow>
        let m = (ls_mgr s)\<lparr>m_workersDone := False\<rparr>;
            m = m\<lparr>m_workers := m_workers m @ sinkWorkers E cfg hasFile hasSyslog m\<rparr> in
        (warnings1 @ warnings2, s\<lparr>ls_mgr := startRotationWatcherLocked (rebuildLoggerLocked m)\<rparr>))"

definition configure :: "'w log_os \<Rightarrow> Config \<Rightarrow> 'w log_state \<Rightarrow> 'w log_state option" where
  "configure E cfg s =
     Option.bind (lockMu s) (\<lambda>s.
       case reconfigured E cfg s of (warnings, s) \<Rightarrow>
         let s = unlockMu s in
         case m_logger (ls_mgr s) of None \<Rightarrow> Some s | Some lg \<Rightarrow> emitWarnings E lg warnings s)"

definition closeManager :: "'w log_os \<Rightarrow> 'w log_state \<Rightarrow> 'w log_state option" where
  "closeManager E s =
     Option.bind (lockMu s) (\<lambda>s.
       let s = s\<lparr>ls_mgr := stopRotationWatcherLocked (ls_mgr s)\<rparr>;
           s = closeOutputs E (stopWorkersLocked E s) in
       Some (unlockMu (s\<lparr>ls_mgr := rebuildLoggerLocked (ls_mgr s)\<rparr>)))"

subsection \<open>Rotation\<close>

text \<open>The rotated files among the entries of a directory (a name and whether it is a directory).\<close>

definition rotatedNames :: "string \<Rightarrow> (string \<times> bool) list \<Rightarrow> string list" where
  "rotatedNames base entries =
     filter (\<lambda>name. hasPrefix name (base @ ''.'') \<and> name \<noteq> base)
       (map fst (filter (\<lambda>(name, isDir). \<not> isDir) entries))"

definition surplus :: "string \<Rightarrow> nat \<Rightarrow> (string \<times> bool) list \<Rightarrow> string list" where
  "surplus base maxFiles entries =
     (let rotated = rotatedNames base entries in
      if length rotated \<le> maxFiles then [] else take (length rotated - maxFiles) (sort rotated))"

fun removeAll_log :: "'w log_os \<Rightarrow> string \<Rightarrow> string list \<Rightarrow> 'w log_state \<Rightarrow> 'w log_state option" where
  "removeAll_log E dir [] s = Some s"
| "removeAll_log E dir (name # names) s =
     (let fullPath = joinPath dir name in
      case os_removeFile E fullPath (ls_world s) of (res, w) \<Rightarrow>
        Option.bind (logPrintf E (case res of
              Inl err \<Rightarrow> ''Warning: failed to remove old log file '' @ fullPath @ '': '' @ err
            | Inr _ \<Rightarrow> ''Removed old rotated log file: '' @ name) (s\<lparr>ls_world := w\<rparr>))
          (removeAll_log E dir names))"

definition cleanupRotatedFiles :: "'w log_os \<Rightarrow> string \<Rightarrow> nat \<Rightarrow> 'w log_state \<Rightarrow> 'w log_state option" where
  "cleanupRotatedFiles E basePath maxFiles s =
     (case os_readDir E (dirName basePath) (ls_world s) of
        None \<Rightarrow> Some s
      | Some entries \<Rightarrow> removeAll_log E (dirName basePath) (surplus (baseName basePath) maxFiles entries) s)"

definition int64 :: "int \<Rightarrow> int" where
  "int64 i = sint (word_of_int i :: 64 word)"

definition maxBytes :: "Config \<Rightarrow> int" where
  "maxBytes cfg = int64 (fileMaxSizeMB cfg * 1024 * 1024)"

text \<open>Whether the size limit of the open file is reached.\<close>

definition rotationDue :: "'w log_os \<Rightarrow> 'w log_state \<Rightarrow> nat option" where
  "rotationDue E s =
     (case m_logFile (ls_mgr s) of None \<Rightarrow> None
      | Some f \<Rightarrow> if fileMaxSizeMB (m_config (ls_mgr s)) \<le> 0 then None
          else (case os_fileSize E f (ls_world s) of None \<Rightarrow> None
            | Some n \<Rightarrow> if n < maxBytes (m_config (ls_mgr s)) then None else Some f))"

definition redirectFile :: "manager \<Rightarrow> manager" where
  "redirectFile m = m\<lparr>m_workers := map (\<lambda>sw. if sw_index sw = SinkFile
     then sw\<lparr>sw_handler := newStructuredHandler (FileWriter (the (m_logFile m))) (verboseEnabled (m_config m))\<rparr> else sw) (m_workers m)\<rparr>"

definition moveAside :: "'w log_os \<Rightarrow> nat \<Rightarrow> 'w log_state \<Rightarrow> 'w log_state" where
  "moveAside E f s =
     (let oldPath = filePath (m_config (ls_mgr s)); w = os_closeFile E f (ls_world s) in
      s\<lparr>ls_mgr := (ls_mgr s)\<lparr>m_logFile := None\<rparr>,
        ls_world := os_rename E oldPath (oldPath @ ''.'' @ fileStamp (os_now E w)) w\<rparr>)"

definition rotateLocked :: "'w log_os \<Rightarrow> 'w log_state \<Rightarrow> 'w log_state option" where
  "rotateLocked E s =
     (case rotationDue E s of None \<Rightarrow> Some s
      | Some f \<Rightarrow>
          let oldPath = filePath (m_config (ls_mgr s)) in
          case openLogFile E oldPath (moveAside E f s) of
            (Inl err, s) \<Rightarrow> logPrintf E (''Failed to reopen log file after rotation: '' @ err) s
          | (Inr _, s) \<Rightarrow>
              let s = s\<lparr>ls_mgr := redirectFile (ls_mgr s)\<rparr> in
              if fileMaxFiles (m_config (ls_mgr s)) > 0
              then cleanupRotatedFiles E oldPath (nat (fileMaxFiles (m_config (ls_mgr s)))) s
              else Some s)"

definition rotateFileIfNeeded :: "'w log_os \<Rightarrow> 'w log_state \<Rightarrow> 'w log_state option" where
  "rotateFileIfNeeded E s =
     Option.bind (lockMu s) (\<lambda>s. Option.bind (rotateLocked E s) (\<lambda>s. Some (unlockMu s)))"

subsection \<open>The connection test\<close>

definition testSyslogConnection :: "'w log_os \<Rightarrow> string \<Rightarrow> string \<Rightarrow> 'w \<Rightarrow> unit res \<times> 'w" where
  "testSyslogConnection E protocol host w =
     (let protocol = toLower (os_upper E) protocol in
      if protocol \<noteq> ''udp'' \<and> protocol \<noteq> ''tcp''
      then (Inl (''unsupported protocol: '' @ protocol @ '' (use udp or tcp)''), w)
      else if host = [] then (Inl ''syslog host is empty'', w)
      else (case os_dial E protocol host w of
          (Inl err, w) \<Rightarrow> (Inl (''failed to connect: '' @ err), w)
        | (Inr conn, w) \<Rightarrow>
            (case os_send E conn (''<14>'' @ stampText (os_now E w) @
                 '' go-unifi-network-list-sync: test connection from go-unifi-network-list-sync'' @ [CHR 0x0A]) w of
               (r, w) \<Rightarrow> (r, os_hangUp E conn w))))"

end
