(* ===== verification/Log_Workers.thy ===== *)
theory Log_Workers
  imports Log_Manager
begin

text \<open>
  The producers and the sink workers of the log manager as they interleave
  (\<^verbatim>\<open>internal/logging/logging.go\<close>, \<^verbatim>\<open>enqueue\<close> and \<^verbatim>\<open>sinkWorker.run\<close>). A step is a critical section of
  the manager's mutex, an event enqueued or a worker taking its batch, or the writing of one
  event of a batch, which a worker does outside the mutex.
\<close>

datatype log_ev = Pushed event_body | Took nat | Wrote nat logEvent

abbreviation workers_of :: "'w log_state \<Rightarrow> sinkWorker list" where
  "workers_of s \<equiv> m_workers (ls_mgr s)"

abbreviation ring_of :: "'w log_state \<Rightarrow> eventRing" where
  "ring_of s \<equiv> m_ring (ls_mgr s)"

definition setWorker :: "nat \<Rightarrow> sinkWorker \<Rightarrow> 'w log_state \<Rightarrow> 'w log_state" where
  "setWorker i sw s = s\<lparr>ls_mgr := (ls_mgr s)\<lparr>m_workers := (workers_of s)[i := sw]\<rparr>\<rparr>"

inductive log_step :: "'w log_os \<Rightarrow> 'w log_state \<Rightarrow> log_ev \<Rightarrow> 'w log_state \<Rightarrow> bool" for E where
  pushed: "\<not> ls_mu s \<Longrightarrow> log_step E s (Pushed e) (enqueueLocked E e s)"
| took: "\<not> ls_mu s \<Longrightarrow> i < length (workers_of s) \<Longrightarrow> sw = workers_of s ! i \<Longrightarrow> sw_batch sw = [] \<Longrightarrow>
    sw_nextSeq sw < er_head (ring_of s) \<Longrightarrow>
    log_step E s (Took i) (setWorker i (takeBatch (ring_of s) sw) s)"
| wrote: "i < length (workers_of s) \<Longrightarrow> sw = workers_of s ! i \<Longrightarrow> sw_batch sw = e # es \<Longrightarrow>
    log_step E s (Wrote i e) (setWorker i (sw\<lparr>sw_batch := es\<rparr>)
      (s\<lparr>ls_world := handleEvent E (sw_handler sw) e (ls_world s)\<rparr>))"

inductive log_run :: "'w log_os \<Rightarrow> 'w log_state \<Rightarrow> log_ev list \<Rightarrow> 'w log_state \<Rightarrow> bool" for E s0 where
  start: "log_run E s0 [] s0"
| step: "log_run E s0 tr s \<Longrightarrow> log_step E s ev s' \<Longrightarrow> log_run E s0 (tr @ [ev]) s'"

fun pushes :: "log_ev list \<Rightarrow> event_body list" where
  "pushes [] = []"
| "pushes (Pushed e # tr) = e # pushes tr"
| "pushes (_ # tr) = pushes tr"

fun written :: "nat \<Rightarrow> log_ev list \<Rightarrow> logEvent list" where
  "written i [] = []"
| "written i (Wrote j e # tr) = (if j = i then e # written i tr else written i tr)"
| "written i (_ # tr) = written i tr"

lemma pushes_append [simp]: "pushes (tr @ tr') = pushes tr @ pushes tr'"
  by (induction tr rule: pushes.induct) simp_all

lemma written_append [simp]: "written i (tr @ tr') = written i tr @ written i tr'"
  by (induction i tr rule: written.induct) simp_all

subsection \<open>The invariant\<close>

text \<open>
  \<open>h0\<close> is the head of the ring at the start and \<open>ps\<close> what has been pushed since; \<open>out\<close> is what a
  worker has written.
\<close>

definition ring_inv :: "nat \<Rightarrow> event_body list \<Rightarrow> eventRing \<Rightarrow> bool" where
  "ring_inv h0 ps r \<longleftrightarrow> ring_ok r \<and> er_head r = h0 + length ps \<and> er_tail r \<le> max h0 (er_head r - er_cap r) \<and>
     (\<forall>s \<in> {max (er_tail r) h0..<er_head r}. event_body.truncate (er_buf r ! (s mod er_cap r)) = ps ! (s - h0))"

definition worker_inv :: "nat \<Rightarrow> event_body list \<Rightarrow> logEvent list \<Rightarrow> eventRing \<Rightarrow> sinkWorker \<Rightarrow> bool" where
  "worker_inv h0 ps out r sw \<longleftrightarrow> h0 \<le> sw_nextSeq sw \<and> sw_nextSeq sw \<le> er_head r \<and>
     sorted_wrt (<) (map ev_seq (out @ sw_batch sw)) \<and>
     (\<forall>e \<in> set (out @ sw_batch sw). h0 \<le> ev_seq e \<and> ev_seq e < sw_nextSeq sw \<and>
        event_body.truncate e = ps ! (ev_seq e - h0)) \<and>
     sw_missed sw + 2 * length (out @ sw_batch sw) = 2 * (sw_nextSeq sw - h0) + (er_tail r - sw_nextSeq sw) \<and>
     (er_tail r \<le> h0 \<longrightarrow> length (out @ sw_batch sw) = sw_nextSeq sw - h0)"

lemma ring_inv_push:
  assumes "ring_inv h0 ps r"
  shows "ring_inv h0 (ps @ [e]) (fst (push (numbered 0 e) r))"
proof -
  let ?r = "fst (push (numbered 0 e) r)"
  have ok: "ring_ok r" and hd: "er_head r = h0 + length ps"
    using assms by (simp_all add: ring_inv_def)
  have "event_body.truncate (er_buf ?r ! (s mod er_cap r)) = (ps @ [e]) ! (s - h0)"
    if s: "max (er_tail ?r) h0 \<le> s" "s < er_head ?r" for s
  proof (cases "s = er_head r")
    case True
    then show ?thesis using push_last [OF ok, of "numbered 0 e"] hd by simp
  next
    case False
    then have less: "s < er_head r" using s by (simp add: push_fields)
    have "er_tail r \<le> s" using s by (auto simp: push_fields split: if_splits)
    with less s have "event_body.truncate (er_buf r ! (s mod er_cap r)) = ps ! (s - h0)"
      using assms by (simp add: ring_inv_def)
    moreover have "s - h0 < length ps" using less s(1) hd by linarith
    ultimately show ?thesis using push_slot [OF ok less, of "numbered 0 e"] s by (simp add: nth_append)
  qed
  moreover have "er_tail ?r \<le> max h0 (er_head ?r - er_cap r)"
    using assms by (auto simp: ring_inv_def ring_ok_def push_fields max_def split: if_splits)
  ultimately show ?thesis using ring_ok_push [OF ok] hd by (auto simp: ring_inv_def push_fields)
qed

lemma worker_inv_push:
  assumes "worker_inv h0 ps out r sw" and "ring_inv h0 ps r"
  shows "worker_inv h0 (ps @ [e]) out (fst (push (numbered 0 e) r))
    (if er_head r - er_tail r \<ge> er_cap r then countEviction (er_tail r) sw else sw)"
proof -
  have "(ps @ [e]) ! (k - h0) = ps ! (k - h0)" if "h0 \<le> k" "k < sw_nextSeq sw" for k
  proof -
    have "k - h0 < length ps" using that assms unfolding worker_inv_def ring_inv_def by linarith
    then show ?thesis by (simp add: nth_append)
  qed
  then show ?thesis
    using assms(1) by (auto simp: worker_inv_def countEviction_def push_fields split: if_splits)
qed

lemma seqs_from_props:
  assumes "ring_inv h0 ps r" and "h0 \<le> n"
  shows "map ev_seq (seqs_from n r) = [max n (er_tail r)..<er_head r]"
    and "e \<in> set (seqs_from n r) \<Longrightarrow> n \<le> ev_seq e \<and> ev_seq e < er_head r \<and> event_body.truncate e = ps ! (ev_seq e - h0)"
    and "length (seqs_from n r) = er_head r - max n (er_tail r)"
proof -
  have slot: "ev_seq (er_buf r ! (s mod er_cap r)) = s"
    "event_body.truncate (er_buf r ! (s mod er_cap r)) = ps ! (s - h0)"
    if "max n (er_tail r) \<le> s" "s < er_head r" for s
    using that assms by (simp_all add: ring_inv_def ring_ok_def)
  show "map ev_seq (seqs_from n r) = [max n (er_tail r)..<er_head r]"
    unfolding seqs_from_def map_map by (rule map_idI) (use slot in auto)
  show "n \<le> ev_seq e \<and> ev_seq e < er_head r \<and> event_body.truncate e = ps ! (ev_seq e - h0)"
    if "e \<in> set (seqs_from n r)" using that slot by (auto simp: seqs_from_def)
qed (simp add: seqs_from_def)

lemma worker_inv_take:
  assumes "worker_inv h0 ps out r sw" and "ring_inv h0 ps r"
  shows "worker_inv h0 ps out r (takeBatch r sw)"
proof -
  let ?n = "sw_nextSeq sw"
  have h: "h0 \<le> ?n" "?n \<le> er_head r" "er_tail r \<le> er_head r"
    using assms by (simp_all add: worker_inv_def ring_inv_def ring_ok_def)
  note new = seqs_from_props [OF assms(2) h(1)]
  have t: "takeBatch r sw = sw\<lparr>sw_missed := sw_missed sw + (er_tail r - ?n),
      sw_batch := sw_batch sw @ seqs_from ?n r, sw_nextSeq := er_head r\<rparr>"
    by (rule takeBatch_eq [OF h(3,2)])
  have old: "ev_seq e < ?n" if "e \<in> set (out @ sw_batch sw)" for e
    using that assms(1) by (auto simp: worker_inv_def)
  have "sorted_wrt (<) (map ev_seq (out @ sw_batch sw) @ [max ?n (er_tail r)..<er_head r])"
    using assms(1) old by (fastforce simp: worker_inv_def sorted_wrt_append)
  then have S: "sorted_wrt (<) (map ev_seq (out @ sw_batch sw @ seqs_from ?n r))" by (simp add: new(1))
  have E: "\<forall>e \<in> set (out @ sw_batch sw @ seqs_from ?n r).
      h0 \<le> ev_seq e \<and> ev_seq e < er_head r \<and> event_body.truncate e = ps ! (ev_seq e - h0)"
  proof
    fix e assume e: "e \<in> set (out @ sw_batch sw @ seqs_from ?n r)"
    show "h0 \<le> ev_seq e \<and> ev_seq e < er_head r \<and> event_body.truncate e = ps ! (ev_seq e - h0)"
    proof (cases "e \<in> set (out @ sw_batch sw)")
      case True
      with assms(1) have "h0 \<le> ev_seq e \<and> ev_seq e < ?n \<and> event_body.truncate e = ps ! (ev_seq e - h0)"
        unfolding worker_inv_def by blast
      then show ?thesis using h by simp
    next
      case False
      then have "e \<in> set (seqs_from ?n r)" using e by simp
      from new(2) [OF this] show ?thesis using h by simp
    qed
  qed
  have len: "length (out @ sw_batch sw @ seqs_from ?n r) =
      length (out @ sw_batch sw) + (er_head r - max ?n (er_tail r))" using new(3) by simp
  have m: "sw_missed sw + 2 * length (out @ sw_batch sw) = 2 * (?n - h0) + (er_tail r - ?n)"
    and l: "er_tail r \<le> h0 \<Longrightarrow> length (out @ sw_batch sw) = ?n - h0"
    using assms(1) unfolding worker_inv_def by blast+
  have M: "sw_missed sw + (er_tail r - ?n) + 2 * length (out @ sw_batch sw @ seqs_from ?n r) =
      2 * (er_head r - h0) + (er_tail r - er_head r)"
    unfolding len using m h by (cases "?n \<le> er_tail r") simp_all
  have L: "er_tail r \<le> h0 \<Longrightarrow> length (out @ sw_batch sw @ seqs_from ?n r) = er_head r - h0"
    unfolding len using l h by simp
  show ?thesis using S E M L h by (simp add: worker_inv_def t)
qed

lemma worker_inv_write:
  "worker_inv h0 ps out r sw \<Longrightarrow> sw_batch sw = e # es \<Longrightarrow> worker_inv h0 ps (out @ [e]) r (sw\<lparr>sw_batch := es\<rparr>)"
  by (simp add: worker_inv_def)

lemma enqueueLocked_mgr:
  "ring_of (enqueueLocked E e s) = fst (push (numbered 0 e) (ring_of s))"
  "workers_of (enqueueLocked E e s) = map (\<lambda>sw. if er_head (ring_of s) - er_tail (ring_of s) \<ge> er_cap (ring_of s)
      then countEviction (er_tail (ring_of s)) sw else sw) (workers_of s)"
  "ls_mu (enqueueLocked E e s) = ls_mu s"
  by (auto simp: enqueueLocked_def accountEvictionLocked_def push_def Let_def)

definition log_inv :: "nat \<Rightarrow> log_ev list \<Rightarrow> 'w log_state \<Rightarrow> bool" where
  "log_inv h0 tr s \<longleftrightarrow> ring_inv h0 (pushes tr) (ring_of s) \<and>
     (\<forall>i < length (workers_of s). worker_inv h0 (pushes tr) (written i tr) (ring_of s) (workers_of s ! i))"

lemma log_inv_step:
  "log_step E s ev s' \<Longrightarrow> log_inv h0 tr s \<Longrightarrow> log_inv h0 (tr @ [ev]) s'"
proof (induction rule: log_step.induct)
  case (pushed s e)
  then have r: "ring_inv h0 (pushes tr) (ring_of s)" by (simp add: log_inv_def)
  from pushed show ?case
    using ring_inv_push [OF r, of e] worker_inv_push [OF _ r, where e = e]
    by (simp add: log_inv_def enqueueLocked_mgr)
next
  case (took s i sw)
  then show ?case
    by (auto simp: log_inv_def setWorker_def nth_list_update worker_inv_take)
next
  case (wrote i s sw e es)
  then show ?case
    by (auto simp: log_inv_def setWorker_def nth_list_update worker_inv_write)
qed

lemma log_inv_run: "log_run E s0 tr s \<Longrightarrow> log_inv h0 [] s0 \<Longrightarrow> log_inv h0 tr s"
  by (induction rule: log_run.induct) (auto intro: log_inv_step)

text \<open>Workers as \<^verbatim>\<open>Configure\<close> starts them.\<close>

definition fresh_workers :: "'w log_state \<Rightarrow> bool" where
  "fresh_workers s \<longleftrightarrow> ring_ok (ring_of s) \<and> (\<forall>sw \<in> set (workers_of s).
     sw_nextSeq sw = er_head (ring_of s) \<and> sw_missed sw = 0 \<and> sw_batch sw = [])"

lemma log_inv_fresh: "fresh_workers s \<Longrightarrow> log_inv (er_head (ring_of s)) [] s"
  by (auto simp: log_inv_def fresh_workers_def ring_inv_def worker_inv_def ring_ok_def)

end
