(* ===== verification/Log_Props.thy ===== *)
theory Log_Props
  imports Log_Outputs Log_Workers
begin

text \<open>
  What the log manager guarantees: the order and completeness of what each sink writes, the counting
  of missed events, closing, configuring and rotating the outputs, and the text of a console line.
\<close>

subsection \<open>The ring\<close>

text \<open>
  C39: The ring keeps the newest events. After any sequence of pushes into a new ring it holds, in
  order, the last events that fit, and nothing else.
\<close>
theorem ring_keeps_newest:
  "0 < n \<Longrightarrow> ring_items (fold append_event es (newEventRing n)) = last_n n es"
  using event_ring.last_offers [OF ring_ok_new, of n es]
  by (simp add: ring_items_def live_def newEventRing_def)

subsection \<open>Workers\<close>

lemma subseq_nths:
  "sorted_wrt (<) ks \<Longrightarrow> \<forall>k \<in> set ks. k < length ps \<Longrightarrow> subseq (map ((!) ps) ks) ps"
proof (induction ps arbitrary: ks rule: rev_induct)
  case (snoc p ps)
  show ?case
  proof (cases "length ps \<in> set ks")
    case False
    then have less: "\<forall>k \<in> set ks. k < length ps" using snoc.prems(2) by (auto simp: less_Suc_eq)
    then have eq: "map ((!) (ps @ [p])) ks = map ((!) ps) ks" by (simp add: nth_append)
    show ?thesis unfolding eq by (rule subseq_rev_drop_many) (rule snoc.IH [OF snoc.prems(1) less])
  next
    case True
    then obtain ls ms where ks: "ks = ls @ length ps # ms" by (meson split_list)
    have "ms = []" using snoc.prems unfolding ks by (cases ms) (auto simp: sorted_wrt_append)
    with ks have ks: "ks = ls @ [length ps]" by simp
    have less: "\<forall>k \<in> set ls. k < length ps" using snoc.prems(1) by (simp add: ks sorted_wrt_append)
    then have "map ((!) (ps @ [p])) ks = map ((!) ps) ls @ [p]" by (simp add: ks nth_append)
    moreover have "subseq (map ((!) ps) ls) ps"
      using snoc.IH [OF _ less] snoc.prems(1) by (simp add: ks sorted_wrt_append)
    ultimately show ?thesis by (simp add: list_emb_append_mono)
  qed
qed simp

lemma worker_contract:
  assumes "fresh_workers s0" and "log_run E s0 tr s" and "i < length (workers_of s)" and "sw = workers_of s ! i"
  shows "worker_inv (er_head (ring_of s0)) (pushes tr) (written i tr) (ring_of s) sw"
    and "ring_inv (er_head (ring_of s0)) (pushes tr) (ring_of s)"
  using log_inv_run [OF assms(2) log_inv_fresh [OF assms(1)]] assms(3,4) by (simp_all add: log_inv_def)

lemma written_subseq:
  assumes "worker_inv h0 ps out r sw" and "ring_inv h0 ps r"
  shows "subseq (map event_body.truncate out) ps"
proof -
  let ?ks = "map (\<lambda>e. ev_seq e - h0) out"
  have e: "h0 \<le> ev_seq e" "ev_seq e - h0 < length ps" "event_body.truncate e = ps ! (ev_seq e - h0)"
    if "e \<in> set out" for e
  proof -
    have "h0 \<le> ev_seq e \<and> ev_seq e < sw_nextSeq sw \<and> event_body.truncate e = ps ! (ev_seq e - h0)"
      and "sw_nextSeq sw \<le> h0 + length ps"
      using assms that by (simp_all add: worker_inv_def ring_inv_def)
    then show "h0 \<le> ev_seq e" "ev_seq e - h0 < length ps" "event_body.truncate e = ps ! (ev_seq e - h0)" by auto
  qed
  have "sorted_wrt (<) (map ev_seq out)" using assms(1) by (simp add: worker_inv_def sorted_wrt_append)
  then have "sorted_wrt (\<lambda>a b. ev_seq a - h0 < ev_seq b - h0) out"
    unfolding sorted_wrt_map by (rule sorted_wrt_mono_rel [rotated]) (use e(1) in \<open>auto simp: diff_less_mono\<close>)
  then have "sorted_wrt (<) ?ks" by (simp add: sorted_wrt_map)
  from subseq_nths [OF this, of ps] have "subseq (map ((!) ps) ?ks) ps" using e(2) by auto
  moreover have "map ((!) ps) ?ks = map event_body.truncate out" using e(3) by simp
  ultimately show ?thesis by (simp only:)
qed

text \<open>
  C15: However producers and workers interleave, what a sink writes are events that were logged since
  its worker started, in the order in which they were logged, and each of them at most once.
\<close>
theorem sinks_in_order:
  assumes "fresh_workers s0" and "log_run E s0 tr s" and "i < length (workers_of s)"
  shows "subseq (map event_body.truncate (written i tr)) (pushes tr)"
  by (rule written_subseq [OF worker_contract [OF assms refl]])

text \<open>
  C16: Nothing is lost while the ring does not overflow. If no more events have been logged since the
  workers started than the ring has room for, a worker that has caught up has written them all.
\<close>
theorem sinks_lossless:
  assumes "fresh_workers s0" and "log_run E s0 tr s" and "i < length (workers_of s)"
    and "length (pushes tr) \<le> er_cap (ring_of s)"
    and "sw_nextSeq (workers_of s ! i) = er_head (ring_of s)" and "sw_batch (workers_of s ! i) = []"
  shows "map event_body.truncate (written i tr) = pushes tr"
proof -
  note inv = worker_contract [OF assms(1-3) refl]
  have "er_tail (ring_of s) \<le> er_head (ring_of s0)" using inv(2) assms(4) unfolding ring_inv_def by (elim conjE) arith
  then have "length (written i tr) = length (pushes tr)"
    using inv assms(5,6) by (simp add: worker_inv_def ring_inv_def)
  with written_subseq [OF inv] show ?thesis by (intro subseq_same_length) simp_all
qed

text \<open>
  C22: The diagnostics count every lost event twice, once when it is overwritten and once when the
  worker skips it: for a worker that has caught up, the counter is twice the number of events that
  were logged and never written.
\<close>
theorem missed_counts_twice:
  assumes "fresh_workers s0" and "log_run E s0 tr s" and "i < length (workers_of s)"
    and "sw_nextSeq (workers_of s ! i) = er_head (ring_of s)" and "sw_batch (workers_of s ! i) = []"
  shows "st_missed (ds_sinks (diagnostics (ls_mgr s)) ! i) = 2 * (length (pushes tr) - length (written i tr))"
proof -
  note inv = worker_contract [OF assms(1-3) refl]
  have "er_tail (ring_of s) \<le> er_head (ring_of s)" using inv(2) by (simp add: ring_inv_def ring_ok_def)
  then have "sw_missed (workers_of s ! i) + 2 * length (written i tr) = 2 * length (pushes tr)"
    using inv assms(4,5) by (simp add: worker_inv_def ring_inv_def)
  then have "sw_missed (workers_of s ! i) = 2 * (length (pushes tr) - length (written i tr))" by simp
  then show ?thesis using assms(3) by (simp add: diagnostics_def Let_def)
qed

subsection \<open>A concrete system\<close>

definition demo_os :: "string list log_os" where
  "demo_os = \<lparr>os_rt = \<lparr>rt_frame = (\<lambda>pc. \<lparr>fr_pc = pc, fr_file = [], fr_line = 0\<rparr>), rt_group = (\<lambda>_. [])\<rparr>,
     os_callers = ([], []), os_now = (\<lambda>_. (0, 0)), os_upper = id, os_noColor = [], os_stdoutDevice = None,
     os_textLine = (\<lambda>f src e. ev_msg e), os_stdout = (\<lambda>p w. w @ [p]), os_stderr = (\<lambda>p w. w),
     os_mkdirAll = (\<lambda>p w. (Inr (), w)), os_openAppend = (\<lambda>p w. (Inr 3, w)), os_fileWrite = (\<lambda>f p w. w @ [p]),
     os_fileSize = (\<lambda>f w. Some 52428800), os_closeFile = (\<lambda>f w. w), os_rename = (\<lambda>p q w. w),
     os_readDir = (\<lambda>p w. Some (map (\<lambda>k. (''sync.log.'' @ itoa k, False)) [0..<11])),
     os_removeFile = (\<lambda>p w. (Inr (), w)), os_dial = (\<lambda>p h w. (Inl ''refused'', w)),
     os_send = (\<lambda>c p w. (Inr (), w)), os_hangUp = (\<lambda>c w. w)\<rparr>"

definition demo_log :: "string list log_state" where
  "demo_log = \<lparr>ls_mgr = newManager\<lparr>m_ring := newEventRing 1,
       m_workers := [newSinkWorker SinkFile 0 (newStructuredHandler (FileWriter 3) False)]\<rparr>, ls_world = [], ls_mu = False\<rparr>"

definition demo_event :: "string \<Rightarrow> event_body" where
  "demo_event msg = \<lparr>ev_time = (0, 0), ev_level = LevelInfo, ev_msg = msg, ev_pc = 0, ev_attrs = []\<rparr>"

theorem ring_keeps_newest_witness:
  "ring_items (fold append_event [demo_event ''a'', demo_event ''b'', demo_event ''c''] (newEventRing 2)) =
     [demo_event ''b'', demo_event ''c'']"
  using ring_keeps_newest [of 2 "[demo_event ''a'', demo_event ''b'', demo_event ''c'']"] by (simp add: last_n_def)

lemma demo_log_fresh: "fresh_workers demo_log"
  by (simp add: fresh_workers_def demo_log_def newManager_def newSinkWorker_def ring_ok_new) (simp add: newEventRing_def)

definition demo_pushed :: "string list log_state" where
  "demo_pushed = enqueueLocked demo_os (demo_event ''b'') (enqueueLocked demo_os (demo_event ''a'') demo_log)"

text \<open>A run in which the ring of one slot overflows once: the first event is lost.\<close>

definition demo_tr :: "log_ev list" where
  "demo_tr = [Pushed (demo_event ''a''), Pushed (demo_event ''b''), Took 0, Wrote 0 (numbered 1 (demo_event ''b''))]"

definition demo_taken :: "string list log_state" where
  "demo_taken = setWorker 0 (takeBatch (ring_of demo_pushed) (workers_of demo_pushed ! 0)) demo_pushed"

definition demo_written :: "string list log_state" where
  "demo_written = setWorker 0 ((workers_of demo_taken ! 0)\<lparr>sw_batch := []\<rparr>)
     (demo_taken\<lparr>ls_world := handleEvent demo_os (sw_handler (workers_of demo_taken ! 0))
        (numbered 1 (demo_event ''b'')) (ls_world demo_taken)\<rparr>)"

lemma demo_worker:
  "workers_of demo_pushed = [(newSinkWorker SinkFile 0 (newStructuredHandler (FileWriter 3) False))\<lparr>sw_missed := 1\<rparr>]"
  "ring_of demo_pushed = \<lparr>er_buf = [numbered 1 (demo_event ''b'')], er_cap = 1, er_head = 2, er_tail = 1\<rparr>"
  "\<not> ls_mu demo_pushed"
  by (simp_all add: demo_pushed_def enqueueLocked_mgr demo_log_def newManager_def newSinkWorker_def countEviction_def
      push_def newEventRing_def numbered_def event_body.defs logEvent.defs)

lemma demo_worker_taken:
  "workers_of demo_taken = [\<lparr>sw_index = SinkFile, sw_nextSeq = 2, sw_missed = 2,
     sw_handler = newStructuredHandler (FileWriter 3) False, sw_batch = [numbered 1 (demo_event ''b'')]\<rparr>]"
  "ring_of demo_taken = ring_of demo_pushed"
  by (simp_all add: demo_taken_def setWorker_def demo_worker takeBatch_eq newSinkWorker_def seqs_from_def numeral_2_eq_2)

lemma demo_log_run: "log_run demo_os demo_log demo_tr demo_written"
proof -
  have "log_run demo_os demo_log [Pushed (demo_event ''a'')] (enqueueLocked demo_os (demo_event ''a'') demo_log)"
    using log_run.step [OF log_run.start log_step.pushed, of demo_log demo_os "demo_event ''a''"]
    by (simp add: demo_log_def)
  from log_run.step [OF this log_step.pushed, of "demo_event ''b''"]
  have "log_run demo_os demo_log [Pushed (demo_event ''a''), Pushed (demo_event ''b'')] demo_pushed"
    by (simp add: demo_pushed_def enqueueLocked_mgr demo_log_def)
  from log_run.step [OF this log_step.took [OF _ _ refl], of 0]
  have "log_run demo_os demo_log [Pushed (demo_event ''a''), Pushed (demo_event ''b''), Took 0] demo_taken"
    by (simp add: demo_taken_def demo_worker newSinkWorker_def)
  from log_run.step [OF this log_step.wrote [OF _ refl], of 0 "numbered 1 (demo_event ''b'')" "[]"]
  show ?thesis by (simp add: demo_written_def demo_tr_def demo_worker_taken)
qed

lemma demo_worker_written:
  "workers_of demo_written = [\<lparr>sw_index = SinkFile, sw_nextSeq = 2, sw_missed = 2,
     sw_handler = newStructuredHandler (FileWriter 3) False, sw_batch = []\<rparr>]"
  "ring_of demo_written = ring_of demo_pushed"
  by (simp_all add: demo_written_def setWorker_def demo_worker_taken)

theorem sinks_in_order_witness:
  "subseq (map event_body.truncate (written 0 demo_tr)) [demo_event ''a'', demo_event ''b'']"
  using sinks_in_order [OF demo_log_fresh demo_log_run, of 0] by (simp add: demo_worker_written) (simp add: demo_tr_def)

definition demo_one :: "string list log_state" where
  "demo_one = enqueueLocked demo_os (demo_event ''a'') demo_log"

definition demo_one_taken :: "string list log_state" where
  "demo_one_taken = setWorker 0 (takeBatch (ring_of demo_one) (workers_of demo_one ! 0)) demo_one"

definition demo_one_written :: "string list log_state" where
  "demo_one_written = setWorker 0 ((workers_of demo_one_taken ! 0)\<lparr>sw_batch := []\<rparr>)
     (demo_one_taken\<lparr>ls_world := handleEvent demo_os (sw_handler (workers_of demo_one_taken ! 0))
        (numbered 0 (demo_event ''a'')) (ls_world demo_one_taken)\<rparr>)"

lemma demo_one_workers:
  "workers_of demo_one = [newSinkWorker SinkFile 0 (newStructuredHandler (FileWriter 3) False)]"
  "ring_of demo_one = \<lparr>er_buf = [numbered 0 (demo_event ''a'')], er_cap = 1, er_head = 1, er_tail = 0\<rparr>"
  "\<not> ls_mu demo_one"
  by (simp_all add: demo_one_def enqueueLocked_mgr demo_log_def newManager_def newSinkWorker_def countEviction_def
      push_def newEventRing_def numbered_def event_body.defs logEvent.defs)

lemma demo_one_worker_taken:
  "workers_of demo_one_taken = [\<lparr>sw_index = SinkFile, sw_nextSeq = 1, sw_missed = 0,
     sw_handler = newStructuredHandler (FileWriter 3) False, sw_batch = [numbered 0 (demo_event ''a'')]\<rparr>]"
  "ring_of demo_one_taken = ring_of demo_one"
  by (simp_all add: demo_one_taken_def setWorker_def demo_one_workers takeBatch_eq newSinkWorker_def seqs_from_def)

lemma demo_one_run:
  "log_run demo_os demo_log [Pushed (demo_event ''a''), Took 0, Wrote 0 (numbered 0 (demo_event ''a''))] demo_one_written"
proof -
  have "log_run demo_os demo_log [Pushed (demo_event ''a'')] demo_one"
    using log_run.step [OF log_run.start log_step.pushed, of demo_log demo_os "demo_event ''a''"]
    by (simp add: demo_one_def demo_log_def)
  from log_run.step [OF this log_step.took [OF _ _ refl], of 0]
  have "log_run demo_os demo_log [Pushed (demo_event ''a''), Took 0] demo_one_taken"
    by (simp add: demo_one_taken_def demo_one_workers newSinkWorker_def)
  from log_run.step [OF this log_step.wrote [OF _ refl], of 0 "numbered 0 (demo_event ''a'')" "[]"]
  show ?thesis by (simp add: demo_one_written_def demo_one_worker_taken)
qed

theorem sinks_lossless_witness:
  "map event_body.truncate (written 0 [Pushed (demo_event ''a''), Took 0, Wrote 0 (numbered 0 (demo_event ''a''))]) =
     [demo_event ''a'']"
  using sinks_lossless [OF demo_log_fresh demo_one_run, of 0]
  by (simp add: demo_one_written_def setWorker_def demo_one_worker_taken demo_one_workers)

theorem missed_counts_twice_witness:
  "st_missed (ds_sinks (diagnostics (ls_mgr demo_written)) ! 0) = 2"
  using missed_counts_twice [OF demo_log_fresh demo_log_run, of 0]
  by (simp add: demo_worker_written demo_worker demo_tr_def)

end
