(* ===== verification/Log_Control.thy ===== *)
theory Log_Control
  imports Log_Props
begin

text \<open>
  Configuring, closing and rotating the outputs of the log manager: which sinks run after
  \<^verbatim>\<open>Configure\<close>, what \<^verbatim>\<open>Close\<close> still writes, which files a rotation removes, and when it blocks.
\<close>

subsection \<open>Rotation\<close>

lemma levelEnabled_info [simp]: "levelEnabled lg LevelInfo" "levelEnabled lg LevelWarn"
  by (simp_all add: levelEnabled_def ringEnabled_def level_defs)

lemma logPrintf_held:
  "ls_mu s \<Longrightarrow> m_logger (ls_mgr s) = Some lg \<Longrightarrow> logPrintf E msg s = None"
  by (simp add: logPrintf_def slogLog_def enqueue_def lockMu_def)

lemma openLogFile_frame:
  "openLogFile E p s = (r, s') \<Longrightarrow> ls_mu s' = ls_mu s \<and> m_logger (ls_mgr s') = m_logger (ls_mgr s) \<and>
     m_config (ls_mgr s') = m_config (ls_mgr s)"
  by (auto simp: openLogFile_def split: prod.splits sum.splits)

lemma cleanup_held:
  assumes "ls_mu s" and "m_logger (ls_mgr s) = Some lg" and "os_readDir E (dirName p) (ls_world s) = Some entries"
  shows "cleanupRotatedFiles E p n s = (if surplus (baseName p) n entries = [] then Some s else None)"
proof (cases "surplus (baseName p) n entries")
  case (Cons name names)
  obtain r w where "os_removeFile E (joinPath (dirName p) name) (ls_world s) = (r, w)" by fastforce
  then show ?thesis using assms by (simp add: cleanupRotatedFiles_def Cons logPrintf_held)
qed (use assms in \<open>simp add: cleanupRotatedFiles_def\<close>)

lemma surplus_empty: "surplus base n entries = [] \<longleftrightarrow> length (rotatedNames base entries) \<le> n"
  by (auto simp: surplus_def Let_def dest: arg_cong [where f = length])

lemma rotate_open:
  assumes "m_logger (ls_mgr s) = Some lg" and "rotationDue E s = Some f"
    and "openLogFile E (filePath (m_config (ls_mgr s))) (moveAside E f (s\<lparr>ls_mu := True\<rparr>)) = (r, s1)"
  shows "rotateLocked E (s\<lparr>ls_mu := True\<rparr>) = (case r of Inl err \<Rightarrow> None | Inr _ \<Rightarrow>
      if 0 < fileMaxFiles (m_config (ls_mgr s))
      then cleanupRotatedFiles E (filePath (m_config (ls_mgr s))) (nat (fileMaxFiles (m_config (ls_mgr s))))
             (s1\<lparr>ls_mgr := redirectFile (ls_mgr s1)\<rparr>)
      else Some (s1\<lparr>ls_mgr := redirectFile (ls_mgr s1)\<rparr>))"
proof -
  have due: "rotationDue E (s\<lparr>ls_mu := True\<rparr>) = Some f" using assms(2) by (simp add: rotationDue_def cong: option.case_cong if_cong)
  have s1: "ls_mu s1" "m_logger (ls_mgr s1) = Some lg" "m_config (ls_mgr s1) = m_config (ls_mgr s)"
    using openLogFile_frame [OF assms(3)] assms(1) by (simp_all add: moveAside_def Let_def)
  show ?thesis
    using logPrintf_held [OF s1(1,2)] s1(3)
    by (cases r) (simp_all add: rotateLocked_def due assms(3) Let_def redirectFile_def)
qed

text \<open>
  Rotation blocks for ever as soon as it has an old file to remove. When the size limit is reached
  and the log file has been reopened, \<^verbatim>\<open>RotateFileIfNeeded\<close> fails to return exactly if the
  directory holds more rotated files than are to be kept: it reports the first removal with
  \<^verbatim>\<open>log.Printf\<close>, which is bridged to the ring and locks the mutex that the caller already holds.
\<close>
theorem rotate_blocks:
  assumes "\<not> ls_mu s" and "m_logger (ls_mgr s) = Some lg" and "rotationDue E s = Some f"
    and "path = filePath (m_config (ls_mgr s))" and "keep = fileMaxFiles (m_config (ls_mgr s))"
    and "openLogFile E path (moveAside E f (s\<lparr>ls_mu := True\<rparr>)) = (Inr (), s1)"
    and "os_readDir E (dirName path) (ls_world s1) = Some entries"
  shows "rotateFileIfNeeded E s = None \<longleftrightarrow> 0 < keep \<and> nat keep < length (rotatedNames (baseName path) entries)"
proof -
  let ?s2 = "s1\<lparr>ls_mgr := redirectFile (ls_mgr s1)\<rparr>"
  have "ls_mu ?s2" "m_logger (ls_mgr ?s2) = Some lg"
    using openLogFile_frame [OF assms(6)] assms(2) by (simp_all add: moveAside_def Let_def redirectFile_def)
  moreover have "os_readDir E (dirName path) (ls_world ?s2) = Some entries" using assms(7) by simp
  ultimately have c: "cleanupRotatedFiles E path (nat keep) ?s2 =
      (if surplus (baseName path) (nat keep) entries = [] then Some ?s2 else None)" by (rule cleanup_held)
  have "rotateFileIfNeeded E s = Option.bind (if 0 < keep then cleanupRotatedFiles E path (nat keep) ?s2 else Some ?s2)
      (\<lambda>s. Some (unlockMu s))"
    using rotate_open [OF assms(2,3) assms(6) [unfolded assms(4)]] assms(1,4,5)
    by (simp add: rotateFileIfNeeded_def lockMu_def)
  then show ?thesis by (auto simp: c surplus_empty)
qed

text \<open>The oldest names go: the rest, as many as are to be kept, come after them in byte order.\<close>

lemma sorted_take_drop: "sorted xs \<Longrightarrow> x \<in> set (take k xs) \<Longrightarrow> y \<in> set (drop k xs) \<Longrightarrow> x \<le> y"
  by (metis append_take_drop_id sorted_append)

lemma hasPrefix_length: "hasPrefix s p \<Longrightarrow> length p \<le> length s"
  by (metis hasPrefix_def length_take min.cobounded1)

text \<open>
  The clean-up removes the oldest rotated files and no others. What it removes are rotated files,
  never the log file itself; as many stay as are to be kept; and each that stays has a name, and
  so a time stamp, at or after every removed one.
\<close>
theorem cleanup_removes_oldest:
  assumes "x \<in> set (surplus base n entries)"
  shows "(x, False) \<in> set entries \<and> hasPrefix x (base @ ''.'') \<and> x \<noteq> base \<and>
    (\<exists>kept. mset (rotatedNames base entries) = mset (surplus base n entries) + mset kept \<and> length kept = n \<and>
       (\<forall>y \<in> set kept. x \<le> y))"
proof -
  let ?r = "rotatedNames base entries"
  let ?k = "length ?r - n"
  have more: "n < length ?r" using assms by (auto simp: surplus_def Let_def split: if_splits)
  then have s: "surplus base n entries = take ?k (sort ?r)" by (simp add: surplus_def Let_def)
  have "x \<in> set ?r" using assms s by (metis in_set_takeD set_sort)
  then have x: "(x, False) \<in> set entries" "hasPrefix x (base @ ''.'')" "x \<noteq> base"
    by (auto simp: rotatedNames_def)
  have "mset ?r = mset (take ?k (sort ?r)) + mset (drop ?k (sort ?r))"
    by (metis append_take_drop_id mset_append mset_sort)
  moreover have "length (drop ?k (sort ?r)) = n" using more by simp
  moreover have "\<forall>y \<in> set (drop ?k (sort ?r)). x \<le> y"
    using assms sorted_take_drop [OF sorted_sort] unfolding s by blast
  ultimately show ?thesis using x unfolding s by blast
qed

theorem cleanup_removes_oldest_witness:
  "(''sync.log.1'', False) \<in> set [(''sync.log.2'', False), (''sync.log'', False), (''sync.log.1'', False)]"
proof -
  have "''sync.log.1'' \<in> set (surplus ''sync.log'' 1 [(''sync.log.2'', False), (''sync.log'', False), (''sync.log.1'', False)])"
    by code_simp
  from cleanup_removes_oldest [OF this] show ?thesis by blast
qed

definition demo_logger :: levelFilterHandler where
  "demo_logger = \<lparr>lf_next = \<lparr>rh_cfg = DefaultConfig, rh_groups = [], rh_attrs = []\<rparr>, lf_cfg = DefaultConfig\<rparr>"

definition demo_rotating :: "string list log_state" where
  "demo_rotating = demo_log\<lparr>ls_mgr := (ls_mgr demo_log)\<lparr>m_config := DefaultConfig\<lparr>logToFile := True, filePath := ''sync.log''\<rparr>,
     m_logFile := Some 3, m_logger := Some demo_logger\<rparr>\<rparr>"

lemma demo_rotating_simps:
  "ls_mu demo_rotating = False" "m_logger (ls_mgr demo_rotating) = Some demo_logger"
  "m_logFile (ls_mgr demo_rotating) = Some 3"
  "m_config (ls_mgr demo_rotating) = DefaultConfig\<lparr>logToFile := True, filePath := ''sync.log''\<rparr>"
  by (simp_all add: demo_rotating_def demo_log_def)

lemma demo_due: "rotationDue demo_os demo_rotating = Some 3"
  by (simp add: rotationDue_def demo_rotating_simps demo_os_def DefaultConfig_def maxBytes_def int64_def)

lemma demo_crowded:
  "length (rotatedNames (baseName ''sync.log'') (map (\<lambda>k. (''sync.log.'' @ itoa k, False)) [0..<11])) = 11"
  by code_simp

theorem rotate_blocks_witness:
  "rotateFileIfNeeded demo_os demo_rotating = None"
proof -
  obtain s1 where o: "openLogFile demo_os ''sync.log'' (moveAside demo_os 3 (demo_rotating\<lparr>ls_mu := True\<rparr>)) = (Inr (), s1)"
    by (simp add: openLogFile_def demo_os_def)
  have dir: "os_readDir demo_os (dirName ''sync.log'') (ls_world s1) =
      Some (map (\<lambda>k. (''sync.log.'' @ itoa k, False)) [0..<11])" by (simp add: demo_os_def)
  with demo_crowded rotate_blocks [OF _ demo_rotating_simps(2) demo_due _ refl _ dir] o show ?thesis
    by (simp add: demo_rotating_simps DefaultConfig_def)
qed

subsection \<open>Closing\<close>

lemma runToExit_eq:
  assumes "er_tail r \<le> er_head r" and "sw_nextSeq sw \<le> er_head r"
  shows "runToExit E r sw w = fold (handleEvent E (sw_handler sw)) (sw_batch sw @ seqs_from (sw_nextSeq sw) r) w"
  using assms takeBatch_eq [of r "sw\<lparr>sw_batch := []\<rparr>"]
  by (cases "sw_nextSeq sw < er_head r") (simp_all add: runToExit_def writeBatch_def seqs_from_def)

text \<open>What \<^verbatim>\<open>closeOutputs\<close> does to the world.\<close>

definition hangUpAll :: "'w log_os \<Rightarrow> manager \<Rightarrow> 'w \<Rightarrow> 'w" where
  "hangUpAll E m w =
     (let w = (case m_logFile m of None \<Rightarrow> w | Some f \<Rightarrow> os_closeFile E f w) in
      case m_sysConn m of None \<Rightarrow> w | Some c \<Rightarrow> os_hangUp E c w)"

lemma closeOutputs_eq:
  "closeOutputs E s = s\<lparr>ls_mgr := (ls_mgr s)\<lparr>m_logFile := None, m_sysConn := None\<rparr>,
     ls_world := hangUpAll E (ls_mgr s) (ls_world s)\<rparr>"
  by (simp add: closeOutputs_def hangUpAll_def Let_def split: option.splits)

definition caught_up :: "manager \<Rightarrow> bool" where
  "caught_up m \<longleftrightarrow> ring_ok (m_ring m) \<and> (\<forall>sw \<in> set (m_workers m). sw_nextSeq sw \<le> er_head (m_ring m))"

lemma stopWorkersLocked_eq:
  assumes "caught_up (ls_mgr s)"
  shows "ls_world (stopWorkersLocked E s) = fold (\<lambda>sw. fold (handleEvent E (sw_handler sw))
      (sw_batch sw @ seqs_from (sw_nextSeq sw) (ring_of s))) (workers_of s) (ls_world s)"
    and "workers_of (stopWorkersLocked E s) = []"
    and "m_logFile (ls_mgr (stopWorkersLocked E s)) = m_logFile (ls_mgr s)"
    and "m_sysConn (ls_mgr (stopWorkersLocked E s)) = m_sysConn (ls_mgr s)"
    and "ring_of (stopWorkersLocked E s) = ring_of s"
proof -
  have "fold (runToExit E (ring_of s)) (workers_of s) w = fold (\<lambda>sw. fold (handleEvent E (sw_handler sw))
      (sw_batch sw @ seqs_from (sw_nextSeq sw) (ring_of s))) (workers_of s) w" for w
    by (rule fold_cong) (use assms in \<open>auto simp: runToExit_eq caught_up_def ring_ok_def fun_eq_iff\<close>)
  then show "ls_world (stopWorkersLocked E s) = fold (\<lambda>sw. fold (handleEvent E (sw_handler sw))
      (sw_batch sw @ seqs_from (sw_nextSeq sw) (ring_of s))) (workers_of s) (ls_world s)"
    by (simp add: stopWorkersLocked_def Let_def)
qed (simp_all add: stopWorkersLocked_def Let_def)

lemma close_contract:
  assumes "\<not> ls_mu s" and "caught_up (ls_mgr s)"
  shows "\<exists>s'. closeManager E s = Some s' \<and> \<not> ls_mu s' \<and> workers_of s' = [] \<and> m_logFile (ls_mgr s') = None \<and>
    m_sysConn (ls_mgr s') = None \<and> \<not> m_rotationStop (ls_mgr s') \<and>
    ls_world s' = hangUpAll E (ls_mgr s) (fold (\<lambda>sw. fold (handleEvent E (sw_handler sw))
      (sw_batch sw @ seqs_from (sw_nextSeq sw) (ring_of s))) (workers_of s) (ls_world s))"
proof -
  let ?s1 = "s\<lparr>ls_mu := True, ls_mgr := stopRotationWatcherLocked (ls_mgr s)\<rparr>"
  let ?s2 = "stopWorkersLocked E ?s1"
  have up: "caught_up (ls_mgr ?s1)" using assms(2) by (simp add: caught_up_def stopRotationWatcherLocked_def)
  note st = stopWorkersLocked_eq [OF up, of E]
  have same: "workers_of ?s1 = workers_of s" "ring_of ?s1 = ring_of s" "m_logFile (ls_mgr ?s1) = m_logFile (ls_mgr s)"
    "m_sysConn (ls_mgr ?s1) = m_sysConn (ls_mgr s)" by (simp_all add: stopRotationWatcherLocked_def)
  have rot: "\<not> m_rotationStop (ls_mgr ?s2)" by (simp add: stopWorkersLocked_def stopRotationWatcherLocked_def Let_def)
  have hang: "hangUpAll E (ls_mgr ?s2) w = hangUpAll E (ls_mgr s) w" for w
    using st(3,4) same by (simp add: hangUpAll_def)
  have "closeManager E s = Some (unlockMu ((closeOutputs E ?s2)\<lparr>ls_mgr := rebuildLoggerLocked (ls_mgr (closeOutputs E ?s2))\<rparr>))"
    using assms(1) by (simp add: closeManager_def lockMu_def Let_def)
  then show ?thesis
    using st(1,2) rot same hang by (simp add: closeOutputs_eq unlockMu_def rebuildLoggerLocked_def)
qed

text \<open>
  Closing the manager loses nothing that was logged before. Every worker first writes what it has in
  hand and then every event of its part that is still in the ring, in order, with its own handler;
  only after that are the file and the connection closed, and no worker or watcher is left.
\<close>
theorem close_drains:
  assumes "\<not> ls_mu s" and "caught_up (ls_mgr s)"
  shows "\<exists>s'. closeManager E s = Some s' \<and> \<not> ls_mu s' \<and> workers_of s' = [] \<and> m_logFile (ls_mgr s') = None \<and>
    m_sysConn (ls_mgr s') = None \<and> \<not> m_rotationStop (ls_mgr s') \<and>
    ls_world s' = hangUpAll E (ls_mgr s) (fold (\<lambda>sw. fold (handleEvent E (sw_handler sw))
      (sw_batch sw @ seqs_from (sw_nextSeq sw) (ring_of s))) (workers_of s) (ls_world s))"
  by (rule close_contract [OF assms])

lemma enqueueLocked_outputs:
  "m_logFile (ls_mgr (enqueueLocked E e s)) = m_logFile (ls_mgr s)"
  "m_sysConn (ls_mgr (enqueueLocked E e s)) = m_sysConn (ls_mgr s)"
  "m_config (ls_mgr (enqueueLocked E e s)) = m_config (ls_mgr s)"
  "m_logger (ls_mgr (enqueueLocked E e s)) = m_logger (ls_mgr s)"
  "m_rotationStop (ls_mgr (enqueueLocked E e s)) = m_rotationStop (ls_mgr s)"
  by (auto simp: enqueueLocked_def accountEvictionLocked_def Let_def split: prod.splits)

lemma demo_quiet: "ls_world (enqueueLocked demo_os e s) = ls_world s"
  by (auto simp: enqueueLocked_def accountEvictionLocked_def demo_os_def Let_def split: prod.splits)

theorem close_drains_witness:
  "\<exists>s'. closeManager demo_os demo_pushed = Some s' \<and> ls_world s' = [''b'']"
proof -
  have "caught_up (ls_mgr demo_pushed)" by (simp add: caught_up_def demo_worker ring_ok_def newSinkWorker_def) (simp add: numbered_def event_body.defs logEvent.defs)
  from close_drains [OF demo_worker(3) this, of demo_os]
  obtain s' where "closeManager demo_os demo_pushed = Some s'"
    and "ls_world s' = hangUpAll demo_os (ls_mgr demo_pushed) (fold (\<lambda>sw. fold (handleEvent demo_os (sw_handler sw))
      (sw_batch sw @ seqs_from (sw_nextSeq sw) (ring_of demo_pushed))) (workers_of demo_pushed) (ls_world demo_pushed))"
    by blast
  moreover have "ls_world demo_pushed = []" "hangUpAll demo_os (ls_mgr demo_pushed) w = w" for w
    by (simp_all add: demo_pushed_def demo_quiet enqueueLocked_outputs demo_log_def newManager_def hangUpAll_def)
  moreover have "ev_msg (toRecord (numbered (Suc 0) (demo_event ''b''))) = ''b''"
    by (simp add: toRecord_def demo_event_def)
  ultimately show ?thesis
    by (simp add: demo_worker newSinkWorker_def seqs_from_def numeral_2_eq_2 handleEvent_def newStructuredHandler_def
      demo_os_def)
qed

end
