(* ===== verification/Log_Text.thy ===== *)
theory Log_Text
  imports Log_Control
begin

text \<open>
  What the lines and events of \<^verbatim>\<open>internal/logging/logging.go\<close> contain: colours only decorate a console
  line, verbose-only fields stay out of it, and how pre-bound attributes and groups reach an event.
\<close>

subsection \<open>Colours\<close>

text \<open>Removing the escape sequences of a terminal: from the escape character to the next m.\<close>

function strip_ansi :: "string \<Rightarrow> string" where
  "strip_ansi [] = []"
| "strip_ansi (c # s) = (if c = CHR 0x1B then strip_ansi (tl (dropWhile (\<lambda>x. x \<noteq> CHR ''m'') s)) else c # strip_ansi s)"
  by pat_completeness auto
termination
  by (relation "measure length") (auto intro: le_imp_less_Suc le_trans [OF diff_le_self length_dropWhile_le])

lemma strip_plain: "CHR 0x1B \<notin> set s \<Longrightarrow> strip_ansi (s @ t) = s @ strip_ansi t"
  by (induction s) auto

lemma dropWhile_stop: "c \<notin> set s \<Longrightarrow> dropWhile (\<lambda>x. x \<noteq> c) (s @ c # t) = c # t"
  by (induction s) auto

lemma strip_esc: "CHR ''m'' \<notin> set sgr \<Longrightarrow> strip_ansi (esc sgr @ t) = strip_ansi t"
  using dropWhile_stop [of "CHR ''m''" sgr t] by (simp add: esc_def)

text \<open>A piece of a coloured line that shows as the given plain text.\<close>

definition shows_as :: "string \<Rightarrow> string \<Rightarrow> bool" where
  "shows_as p q \<longleftrightarrow> CHR 0x1B \<notin> set q \<longrightarrow> (\<forall>t. strip_ansi (p @ t) = q @ strip_ansi t)"

lemma shows_plain: "shows_as s s"
  by (simp add: shows_as_def strip_plain)

lemma shows_append: "shows_as p q \<Longrightarrow> shows_as p' q' \<Longrightarrow> shows_as (p @ p') (q @ q')"
  by (simp add: shows_as_def)

lemma shows_paint: "CHR ''m'' \<notin> set sgr \<Longrightarrow> shows_as (paint True sgr s) (paint False sgr' s)"
  by (simp add: shows_as_def paint_def strip_esc strip_plain)

lemma shows_field: "shows_as (field True k v) (field False k v)"
  by (simp add: shows_as_def field_def strip_esc strip_plain)

lemma shows_level: "shows_as (colorizeLevel l) l"
  by (auto simp: shows_as_def colorizeLevel_def Let_def strip_esc strip_plain)

lemma shows_if: "(b \<Longrightarrow> shows_as p q) \<Longrightarrow> shows_as (if b then p else []) (if b then q else [])"
  by (simp add: shows_plain)

definition same_fields :: "string \<times> string list \<Rightarrow> string \<times> string list \<Rightarrow> bool" where
  "same_fields st st' \<longleftrightarrow> fst st = fst st' \<and> list_all2 shows_as (snd st) (snd st')"

lemma same_fields_fold:
  "(\<And>a st st'. a \<in> set as \<Longrightarrow> same_fields st st' \<Longrightarrow> same_fields (f a st) (g a st')) \<Longrightarrow>
   same_fields st st' \<Longrightarrow> same_fields (fold f as st) (fold g as st')"
  by (induction as arbitrary: st st') auto

lemma collect_leaf:
  assumes "\<nexists>as. resolve v = VGroup as"
  shows "collectPrettyField R c verbose (Attr k v) groups (category, fs) =
     (let isVerboseOnly = hasPrefix k fieldKeyVerbosePrefix;
          key = (if isVerboseOnly then trimPrefix k fieldKeyVerbosePrefix else k) in
      if isVerboseOnly \<and> \<not> verbose then (category, fs)
      else let key = (if groups \<noteq> [] then join ''.'' (groups @ [key]) else key);
               valueText = formatPrettyValue R (resolve v) in
        if key = ''category'' \<and> category = [] then (valueText, fs)
        else (category, fs @ [field c key valueText]))"
  using assms by (subst collectPrettyField.simps) (cases "resolve v"; simp add: Let_def cong: if_cong)

lemma collect_group:
  "resolve v = VGroup as \<Longrightarrow> collectPrettyField R c verbose (Attr k v) groups st =
     fold (\<lambda>a. collectPrettyField R c verbose a (if k \<noteq> [] then groups @ [k] else groups)) as st"
  by (cases st) (simp add: collectPrettyField.simps)

lemma same_fields_collect:
  "same_fields st st' \<Longrightarrow>
   same_fields (collectPrettyField R True vb a groups st) (collectPrettyField R False vb a groups st')"
proof (induction "adepth a" arbitrary: a groups st st' rule: less_induct)
  case less
  obtain k v where a: "a = Attr k v" by (cases a)
  show ?case
  proof (cases "\<exists>as. resolve v = VGroup as")
    case True
    then obtain as where as: "resolve v = VGroup as" by blast
    show ?thesis unfolding a collect_group [OF as]
      by (rule same_fields_fold [OF _ less.prems], rule less.hyps) (use group_shallower [OF as] a in auto)
  next
    case False
    obtain category fs gs where st: "st = (category, fs)" "st' = (category, gs)" "list_all2 shows_as fs gs"
      using less.prems by (metis prod.collapse same_fields_def snd_conv)
    show ?thesis
      using st(3) by (auto simp: a st(1,2) collect_leaf [OF False] same_fields_def Let_def
          intro!: list_all2_appendI shows_field)
  qed
qed

lemma same_fields_collected:
  "same_fields (collected R (h\<lparr>ph_colorize := True\<rparr>) as) (collected R (h\<lparr>ph_colorize := False\<rparr>) as)"
proof -
  have "same_fields ([], []) ([], [])" by (simp add: same_fields_def)
  then have "same_fields
      (fold (\<lambda>(groups, a). collectPrettyField R True (ph_verbose h) a groups) (ph_attrs h) ([], []))
      (fold (\<lambda>(groups, a). collectPrettyField R False (ph_verbose h) a groups) (ph_attrs h) ([], []))"
    by (rule same_fields_fold [rotated]) (auto intro: same_fields_collect)
  then show ?thesis
    unfolding collected_def by (simp, rule same_fields_fold [rotated]) (auto intro: same_fields_collect)
qed

lemma shows_join: "list_all2 shows_as fs gs \<Longrightarrow> shows_as (join sep fs) (join sep gs)"
proof (induction rule: list_all2_induct)
  case (Cons f fs g gs)
  then show ?case
    by (cases fs; cases gs) (auto intro!: shows_append shows_plain)
qed (simp add: shows_plain)

lemma shows_lines: "list_all2 shows_as fs gs \<Longrightarrow>
    shows_as (concat (map (\<lambda>f. pre @ f) fs)) (concat (map (\<lambda>f. pre @ f) gs))"
  by (induction rule: list_all2_induct) (auto intro!: shows_append shows_plain)

lemma shows_fieldsText:
  "list_all2 shows_as fs gs \<Longrightarrow> shows_as (fieldsText True vb fs) (fieldsText False vb gs)"
  using shows_lines [of fs gs "CHR 0x0A # ''    ''"]
  by (auto simp: fieldsText_def shows_plain intro!: shows_append shows_paint shows_join dest: list_all2_lengthD)

text \<open>
  C40: Colours only decorate. Without its terminal escape sequences, the line that the console handler
  writes with colours is the line it writes without them, provided the latter has no escape
  character of its own.
\<close>
theorem color_only_decorates:
  assumes "CHR 0x1B \<notin> set (prettyHandle R now (h\<lparr>ph_colorize := False\<rparr>) r)"
  shows "strip_ansi (prettyHandle R now (h\<lparr>ph_colorize := True\<rparr>) r) = prettyHandle R now (h\<lparr>ph_colorize := False\<rparr>) r"
proof -
  obtain category fs where c1: "collected R (h\<lparr>ph_colorize := True\<rparr>) (ev_attrs r) = (category, fs)" by fastforce
  obtain category' gs where c2: "collected R (h\<lparr>ph_colorize := False\<rparr>) (ev_attrs r) = (category', gs)" by fastforce
  from same_fields_collected [of R h "ev_attrs r"] have eq: "category' = category" and fg: "list_all2 shows_as fs gs"
    unfolding c1 c2 by (simp_all add: same_fields_def)
  note c = c1 c2 [unfolded eq]
  have sel: "ph_colorize (h\<lparr>ph_colorize := b\<rparr>) = b" "ph_addSource (h\<lparr>ph_colorize := b\<rparr>) = ph_addSource h"
    "ph_verbose (h\<lparr>ph_colorize := b\<rparr>) = ph_verbose h" for b by simp_all
  have "shows_as (prettyHandle R now (h\<lparr>ph_colorize := True\<rparr>) r) (prettyHandle R now (h\<lparr>ph_colorize := False\<rparr>) r)"
    by (simp only: prettyHandle_def c Let_def prod.case sel if_True if_False)
      (intro shows_append shows_if shows_paint shows_level shows_fieldsText fg shows_plain; simp)
  with assms have "strip_ansi (prettyHandle R now (h\<lparr>ph_colorize := True\<rparr>) r @ []) =
      prettyHandle R now (h\<lparr>ph_colorize := False\<rparr>) r @ strip_ansi []" unfolding shows_as_def by blast
  then show ?thesis by simp
qed

subsection \<open>Verbose-only fields\<close>

lemma trimPrefix_append [simp]: "trimPrefix (p @ s) p = s"
  by (simp add: trimPrefix_def)

text \<open>
  Verbose-only fields stay out of the console line. Unless the handler is verbose, an attribute made
  by \<^verbatim>\<open>VerboseField\<close> leaves no trace in the line, wherever it stands among the attributes of the
  record; the exception are values that resolve to a group.
\<close>
theorem verbose_fields_hidden:
  assumes "\<not> ph_verbose h" and "\<nexists>as. resolve (anyValue v) = VGroup as"
  shows "prettyHandle R now h (r\<lparr>ev_attrs := xs @ VerboseField k v # ys\<rparr>) =
    prettyHandle R now h (r\<lparr>ev_attrs := xs @ ys\<rparr>)"
proof -
  have "collectPrettyField R c False (VerboseField k v) groups st = st" for c groups st
    unfolding VerboseField_def by (cases st) (simp add: collect_leaf [OF assms(2)] Let_def)
  then have "collected R h (xs @ VerboseField k v # ys) = collected R h (xs @ ys)"
    using assms(1) by (simp add: collected_def)
  then show ?thesis by (simp add: prettyHandle_def)
qed

text \<open>The exception: a verbose-only group is shown, with the marker in its name.\<close>

lemma verbose_group_shown:
  "collected R (newPrettyConsoleHandler False False) [VerboseField ''g'' (ArgVal (VGroup [Attr ''k'' (VBool True)]))] =
     ([], [''verbose.g.k: true''])"
  by (simp add: collected_def newPrettyConsoleHandler_def VerboseField_def fieldKeyVerbosePrefix_def
      collectPrettyField.simps formatPrettyValue.simps field_def hasPrefix_def)

subsection \<open>Pre-bound attributes and groups\<close>

text \<open>
  Groups are lost for the attributes of a record. However groups are opened on the logger before
  attributes are bound to it, a bound attribute is wrapped in all of them, from the innermost
  outwards, but an attribute of the logged record itself reaches the event without any group.
\<close>
theorem record_groups_lost:
  assumes "[] \<notin> set gs"
  shows "ev_attrs (ringHandle (ringWithAttrs as (fold ringWithGroup gs h)) r) =
    rh_attrs h @ map (foldr slogGroup (rh_groups h @ gs)) as @ ev_attrs r"
proof -
  have "rh_groups (fold ringWithGroup gs h) = rh_groups h @ gs \<and> rh_attrs (fold ringWithGroup gs h) = rh_attrs h"
    using assms by (induction gs arbitrary: h) (auto simp: ringWithGroup_def)
  then show ?thesis by (simp add: ringHandle_def ringWithAttrs_def)
qed

subsection \<open>Examples\<close>

definition demo_rt :: log_rt where
  "demo_rt = \<lparr>rt_frame = (\<lambda>pc. \<lparr>fr_pc = pc, fr_file = ''/src/main.go'', fr_line = 7\<rparr>), rt_group = (\<lambda>_. [])\<rparr>"

definition demo_record :: event_body where
  "demo_record = \<lparr>ev_time = (0, 0), ev_level = LevelWarn, ev_msg = ''slow'', ev_pc = 1,
     ev_attrs = [Attr ''category'' (VString ''dns''), Attr ''tries'' (VInt 2)]\<rparr>"

lemma demo_line:
  "prettyHandle demo_rt (0, 0) ((newPrettyConsoleHandler False True)\<lparr>ph_colorize := False\<rparr>) demo_record =
     ''[1970-01-01 00:00:00.000] [WRN] dns: slow (tries: 2)'' @ [CHR 0x0A]"
  by code_simp

theorem color_only_decorates_witness:
  "strip_ansi (prettyHandle demo_rt (0, 0) ((newPrettyConsoleHandler False True)\<lparr>ph_colorize := True\<rparr>) demo_record) =
     ''[1970-01-01 00:00:00.000] [WRN] dns: slow (tries: 2)'' @ [CHR 0x0A]"
  using color_only_decorates [of demo_rt "(0, 0)" "newPrettyConsoleHandler False True" demo_record]
  unfolding demo_line by simp

theorem verbose_fields_hidden_witness:
  "prettyHandle demo_rt (0, 0) (newPrettyConsoleHandler False False)
     (demo_record\<lparr>ev_attrs := [] @ VerboseField ''body'' (ArgStr ''secret'') # []\<rparr>) =
   prettyHandle demo_rt (0, 0) (newPrettyConsoleHandler False False) (demo_record\<lparr>ev_attrs := [] @ []\<rparr>)"
  by (rule verbose_fields_hidden) (simp_all add: newPrettyConsoleHandler_def)

theorem record_groups_lost_witness:
  "ev_attrs (ringHandle (ringWithAttrs [Attr ''b'' (VInt 1)] (fold ringWithGroup [''g'']
      \<lparr>rh_cfg = DefaultConfig, rh_groups = [], rh_attrs = []\<rparr>)) demo_record) =
     [Attr ''g'' (VGroup [Attr ''b'' (VInt 1)]), Attr ''category'' (VString ''dns''), Attr ''tries'' (VInt 2)]"
  using record_groups_lost [of "[''g'']" "[Attr ''b'' (VInt 1)]" "\<lparr>rh_cfg = DefaultConfig, rh_groups = [], rh_attrs = []\<rparr>"]
  by (simp add: demo_record_def slogGroup_def recordAdd_def)

end
