(* ===== verification/Log_Configure.thy ===== *)
theory Log_Configure
  imports Log_Control
begin

text \<open>
  What \<^verbatim>\<open>Configure\<close> of the log manager establishes (\<^verbatim>\<open>internal/logging/logging.go\<close>): the sinks that run
  match the configuration and the outputs that could be opened, and this stays so while events are
  logged and written.
\<close>

text \<open>The sinks, in order, with their handlers; the watcher; the logger.\<close>

definition sinks_of :: "Config \<Rightarrow> manager \<Rightarrow> sink list" where
  "sinks_of cfg m =
     (if logToStdout cfg \<or> m_logFile m = None \<and> m_sysConn m = None then [SinkConsole] else []) @
     (if m_logFile m = None then [] else [SinkFile]) @ (if m_sysConn m = None then [] else [SinkSyslog])"

definition sink_writes :: "'w log_os \<Rightarrow> Config \<Rightarrow> manager \<Rightarrow> sinkWorker \<Rightarrow> bool" where
  "sink_writes E cfg m sw \<longleftrightarrow> sw_handler sw = (case sw_index sw of
     SinkConsole \<Rightarrow> PrettyHandler (newPrettyConsoleHandler (verboseEnabled cfg) (shouldColorize E))
   | SinkFile \<Rightarrow> StructuredHandler (FileWriter (the (m_logFile m))) (verboseEnabled cfg)
   | SinkSyslog \<Rightarrow> StructuredHandler (SyslogWriter (the (m_sysConn m)) (sysTag cfg)) (verboseEnabled cfg))"

definition configured :: "'w log_os \<Rightarrow> Config \<Rightarrow> manager \<Rightarrow> bool" where
  "configured E cfg m \<longleftrightarrow> m_config m = cfg \<and> map sw_index (m_workers m) = sinks_of cfg m \<and>
     (\<forall>sw \<in> set (m_workers m). sink_writes E cfg m sw) \<and>
     (m_rotationStop m \<longleftrightarrow> m_logFile m \<noteq> None \<and> 0 < fileMaxSizeMB cfg) \<and>
     m_logger m = Some \<lparr>lf_next = \<lparr>rh_cfg = cfg, rh_groups = [], rh_attrs = []\<rparr>, lf_cfg = cfg\<rparr>"

lemma countEviction_same [simp]:
  "sw_index (countEviction n sw) = sw_index sw" "sw_handler (countEviction n sw) = sw_handler sw"
  "sw_nextSeq (countEviction n sw) = sw_nextSeq sw"
  by (simp_all add: countEviction_def)

lemma configured_enqueue:
  assumes "configured E cfg (ls_mgr s)"
  shows "configured E cfg (ls_mgr (enqueueLocked E' e s))"
proof -
  have "map sw_index (workers_of (enqueueLocked E' e s)) = map sw_index (workers_of s)"
    by (simp add: enqueueLocked_mgr comp_def if_distrib cong: if_cong)
  moreover have "\<forall>sw \<in> set (workers_of (enqueueLocked E' e s)). sink_writes E cfg (ls_mgr s) sw"
    using assms by (auto simp: configured_def enqueueLocked_mgr sink_writes_def)
  moreover have "sinks_of cfg (ls_mgr (enqueueLocked E' e s)) = sinks_of cfg (ls_mgr s)"
    "sink_writes E cfg (ls_mgr (enqueueLocked E' e s)) = sink_writes E cfg (ls_mgr s)"
    by (simp_all add: fun_eq_iff sinks_of_def sink_writes_def enqueueLocked_outputs cong: sink.case_cong)
  ultimately show ?thesis
    using assms by (simp add: configured_def enqueueLocked_outputs)
qed

lemma caught_up_enqueue:
  "caught_up (ls_mgr s) \<Longrightarrow> caught_up (ls_mgr (enqueueLocked E e s))"
  by (auto simp: caught_up_def enqueueLocked_mgr ring_ok_push push_fields)

lemma enqueue_free: "\<not> ls_mu s \<Longrightarrow> enqueue E e s = Some (unlockMu (enqueueLocked E e (s\<lparr>ls_mu := True\<rparr>)))"
  by (simp add: enqueue_def lockMu_def)

text \<open>What a state keeps when events are logged.\<close>

definition log_ready :: "'w log_os \<Rightarrow> Config \<Rightarrow> 'w log_state \<Rightarrow> bool" where
  "log_ready E cfg s \<longleftrightarrow> \<not> ls_mu s \<and> configured E cfg (ls_mgr s) \<and> caught_up (ls_mgr s)"

lemma log_ready_enqueue: "log_ready E cfg s \<Longrightarrow> \<exists>s'. enqueue E' e s = Some s' \<and> log_ready E cfg s'"
  using configured_enqueue [of E cfg "s\<lparr>ls_mu := True\<rparr>"] caught_up_enqueue [of "s\<lparr>ls_mu := True\<rparr>"]
  by (simp add: log_ready_def enqueue_free unlockMu_def)

lemma log_ready_slog: "log_ready E cfg s \<Longrightarrow> \<exists>s'. slogLog E lg l msg as s = Some s' \<and> log_ready E cfg s'"
  using log_ready_enqueue by (auto simp: slogLog_def)

lemma log_ready_warnings: "log_ready E cfg s \<Longrightarrow> \<exists>s'. emitWarnings E lg ws s = Some s' \<and> log_ready E cfg s'"
proof (induction ws arbitrary: s)
  case (Cons w ws)
  obtain s1 where "slogLog E lg LevelWarn ''Logging configuration warning''
       (argsToAttrs [ArgStr ''category'', ArgStr ''logging.config'', ArgStr ''detail'', ArgStr w]) s = Some s1"
    and "log_ready E cfg s1" using log_ready_slog [OF Cons.prems] by blast
  with Cons.IH [of s1] show ?case by simp
qed simp

lemma openFileOutput_frame:
  "openFileOutput E cfg s = (has, ws, s') \<Longrightarrow> m_logFile (ls_mgr s) = None \<Longrightarrow>
   \<exists>f. ls_mgr s' = (ls_mgr s)\<lparr>m_logFile := f\<rparr> \<and> (has \<longleftrightarrow> f \<noteq> None) \<and> ls_mu s' = ls_mu s"
  by (auto simp: openFileOutput_def openLogFile_def intro!: exI [where x = "m_logFile (ls_mgr s')"]
      split: if_splits prod.splits sum.splits)

lemma openSyslogOutput_frame:
  "openSyslogOutput E cfg s = (has, ws, s') \<Longrightarrow> m_sysConn (ls_mgr s) = None \<Longrightarrow>
   \<exists>c. ls_mgr s' = (ls_mgr s)\<lparr>m_sysConn := c\<rparr> \<and> (has \<longleftrightarrow> c \<noteq> None) \<and> ls_mu s' = ls_mu s"
  by (auto simp: openSyslogOutput_def openSyslog_def Let_def intro!: exI [where x = "m_sysConn (ls_mgr s')"]
      split: if_splits prod.splits sum.splits)

lemma sinkWorkers_index:
  "map sw_index (sinkWorkers E cfg (m_logFile m \<noteq> None) (m_sysConn m \<noteq> None) m) = sinks_of cfg m"
  by (simp add: sinkWorkers_def sinks_of_def newSinkWorker_def Let_def)

lemma sinkWorkers_fresh:
  "sw \<in> set (sinkWorkers E cfg hf hs m) \<Longrightarrow>
     sink_writes E cfg m sw \<and> sw_nextSeq sw = er_head (m_ring m) \<and> sw_missed sw = 0 \<and> sw_batch sw = []"
  by (auto simp: sinkWorkers_def sink_writes_def newSinkWorker_def newStructuredHandler_def Let_def split: if_splits)

lemma stopped_idle:
  "workers_of (stopWorkersLocked E s) = []" "ring_of (stopWorkersLocked E s) = ring_of s"
  "ls_mu (stopWorkersLocked E s) = ls_mu s" "m_rotationStop (ls_mgr (stopWorkersLocked E s)) = m_rotationStop (ls_mgr s)"
  by (simp_all add: stopWorkersLocked_def Let_def)

lemma reconfigured_ready:
  assumes "reconfigured E cfg s = (ws, s')" and "ring_ok (ring_of s)"
  shows "configured E cfg (ls_mgr s') \<and> caught_up (ls_mgr s') \<and> fresh_workers s'"
proof -
  let ?s0 = "s\<lparr>ls_mgr := stopRotationWatcherLocked (ls_mgr s)\<rparr>"
  let ?s1 = "closeOutputs E (stopWorkersLocked E ?s0)"
  let ?s2 = "?s1\<lparr>ls_mgr := (ls_mgr ?s1)\<lparr>m_config := cfg\<rparr>\<rparr>"
  have s2: "workers_of ?s2 = []" "ring_of ?s2 = ring_of s" "m_logFile (ls_mgr ?s2) = None" "m_sysConn (ls_mgr ?s2) = None"
    "\<not> m_rotationStop (ls_mgr ?s2)" "m_config (ls_mgr ?s2) = cfg"
    by (simp_all add: closeOutputs_eq stopped_idle stopRotationWatcherLocked_def)
  obtain hf w1 s3 where o1: "openFileOutput E cfg ?s2 = (hf, w1, s3)" by (metis prod_cases3)
  obtain hs w2 s4 where o2: "openSyslogOutput E cfg s3 = (hs, w2, s4)" by (metis prod_cases3)
  from openFileOutput_frame [OF o1 s2(3)] obtain f where
    f: "ls_mgr s3 = (ls_mgr ?s2)\<lparr>m_logFile := f\<rparr>" "hf \<longleftrightarrow> f \<noteq> None" "ls_mu s3 = ls_mu ?s2" by blast
  have "m_sysConn (ls_mgr s3) = None" using f(1) s2(4) by simp
  from openSyslogOutput_frame [OF o2 this] obtain c where
    c: "ls_mgr s4 = (ls_mgr s3)\<lparr>m_sysConn := c\<rparr>" "hs \<longleftrightarrow> c \<noteq> None" "ls_mu s4 = ls_mu s3" by blast
  let ?m = "(ls_mgr s4)\<lparr>m_workersDone := False\<rparr>"
  have m: "m_workers ?m = []" "m_ring ?m = ring_of s" "\<not> m_rotationStop ?m" "m_config ?m = cfg"
    "m_logFile ?m = f" "m_sysConn ?m = c"
    using s2 f(1) c(1) by simp_all
  let ?ws = "sinkWorkers E cfg hf hs ?m"
  have s': "ls_mgr s' = startRotationWatcherLocked (rebuildLoggerLocked (?m\<lparr>m_workers := ?ws\<rparr>))" "ls_mu s' = ls_mu s"
    using assms(1) o1 o2 m(1) f(3) c(3) by (auto simp: reconfigured_def Let_def closeOutputs_eq stopped_idle)
  let ?m' = "startRotationWatcherLocked (rebuildLoggerLocked (?m\<lparr>m_workers := ?ws\<rparr>))"
  have same: "sinks_of cfg ?m' = sinks_of cfg ?m" "sink_writes E cfg ?m' = sink_writes E cfg ?m"
    "m_workers ?m' = ?ws" "m_ring ?m' = ring_of s" "m_logFile ?m' = f" "m_config ?m' = cfg"
    "m_rotationStop ?m' \<longleftrightarrow> f \<noteq> None \<and> 0 < fileMaxSizeMB cfg"
    "m_logger ?m' = Some \<lparr>lf_next = \<lparr>rh_cfg = cfg, rh_groups = [], rh_attrs = []\<rparr>, lf_cfg = cfg\<rparr>"
    using m by (auto simp: fun_eq_iff sinks_of_def sink_writes_def startRotationWatcherLocked_def rebuildLoggerLocked_def
        cong: sink.case_cong)
  have "map sw_index ?ws = sinks_of cfg ?m" using sinkWorkers_index [of E cfg ?m] f(2) c(2) m(5,6) by simp
  moreover note fresh = sinkWorkers_fresh [of _ E cfg hf hs ?m]
  ultimately have "configured E cfg ?m'" using fresh by (simp only: configured_def same) blast
  moreover have "caught_up ?m'" "\<forall>sw \<in> set ?ws. sw_nextSeq sw = er_head (ring_of s) \<and> sw_missed sw = 0 \<and> sw_batch sw = []"
    using fresh m(2) assms(2) by (auto simp: caught_up_def same)
  ultimately show ?thesis using assms(2) by (simp add: fresh_workers_def s'(1) same)
qed

lemma configure_contract:
  assumes "\<not> ls_mu s" and "ring_ok (ring_of s)"
  shows "\<exists>s'. configure E cfg s = Some s' \<and> log_ready E cfg s'"
proof -
  obtain ws s1 where r: "reconfigured E cfg (s\<lparr>ls_mu := True\<rparr>) = (ws, s1)" by fastforce
  have "ring_ok (ring_of (s\<lparr>ls_mu := True\<rparr>))" using assms(2) by simp
  from reconfigured_ready [OF r this] have ready: "log_ready E cfg (unlockMu s1)"
    by (simp add: log_ready_def unlockMu_def)
  obtain lg where lg: "m_logger (ls_mgr (unlockMu s1)) = Some lg" using ready by (auto simp: log_ready_def configured_def)
  have "configure E cfg s = emitWarnings E lg ws (unlockMu s1)"
    using assms(1) lg by (simp add: configure_def lockMu_def r Let_def)
  with log_ready_warnings [OF ready] show ?thesis by simp
qed

text \<open>
  C18: Configuring works whatever the outputs do. It returns; the sinks that run are the console, if
  asked for or if nothing else could be opened, the file and the syslog connection, if they could
  be opened, each with its own worker that writes to it; the file is watched for rotation if it has
  a size limit; and the logger filters by the new configuration.
\<close>
theorem configure_outputs:
  assumes "\<not> ls_mu s" and "ring_ok (ring_of s)"
  shows "\<exists>s'. configure E cfg s = Some s' \<and> log_ready E cfg s'"
  by (rule configure_contract [OF assms])

theorem configure_outputs_witness:
  "\<exists>s'. configure demo_os (DefaultConfig\<lparr>logToFile := True\<rparr>) demo_log = Some s' \<and>
     log_ready demo_os (DefaultConfig\<lparr>logToFile := True\<rparr>) s'"
  by (rule configure_outputs) (simp_all add: demo_log_def newManager_def ring_ok_new)

end
