(* ===== verification/Log_Stopping.thy ===== *)
theory Log_Stopping
  imports Log_Configure
begin

text \<open>
  Stopping the sink workers while events are still being logged (\<^verbatim>\<open>internal/logging/logging.go\<close>,
  \<^verbatim>\<open>stopWorkersLocked\<close> and the end of \<^verbatim>\<open>sinkWorker.run\<close>). The manager forgets its workers, tells them
  to stop and releases its mutex until each has exited: meanwhile producers go on, and each worker
  drains the ring and exits when it finds nothing left. The step relation has each of these steps:
  logging, taking the rest of the ring, writing one event, exiting. Log\_Outputs has the run in which
  the workers exit one after the other and nobody logs (\<open>stop_alone\<close>).
\<close>

record 'w stopping =
  sp_log :: "'w log_state"
  sp_workers :: "sinkWorker list"
  sp_exited :: "nat set"

text \<open>What happens before the mutex is released, and after it is taken again.\<close>

definition detachWorkers :: "'w log_state \<Rightarrow> 'w stopping" where
  "detachWorkers s =
     (let m = ls_mgr s; ws = m_workers m in
      \<lparr>sp_log = unlockMu (s\<lparr>ls_mgr := m\<lparr>m_workers := [], m_workersDone := True,
         m_missed := fold (\<lambda>sw ms. ms(sw_index sw := ms (sw_index sw) + sw_missed sw)) ws (m_missed m)\<rparr>\<rparr>),
       sp_workers = ws, sp_exited = {}\<rparr>)"

definition stopped :: "'w stopping \<Rightarrow> bool" where
  "stopped st \<longleftrightarrow> {..<length (sp_workers st)} \<subseteq> sp_exited st"

definition resumeLocked :: "'w stopping \<Rightarrow> 'w log_state" where
  "resumeLocked st = (sp_log st)\<lparr>ls_mu := True, ls_mgr := (ls_mgr (sp_log st))\<lparr>m_workersDone := False\<rparr>\<rparr>"

datatype stop_ev = Logged event_body | Drained nat | Emitted nat logEvent | Gone nat

inductive stop_step :: "'w log_os \<Rightarrow> 'w stopping \<Rightarrow> stop_ev \<Rightarrow> 'w stopping \<Rightarrow> bool" for E where
  logged: "stop_step E st (Logged e) (st\<lparr>sp_log := enqueueLocked E e (sp_log st)\<rparr>)"
| drained: "i < length (sp_workers st) \<Longrightarrow> i \<notin> sp_exited st \<Longrightarrow> sw = sp_workers st ! i \<Longrightarrow> sw_batch sw = [] \<Longrightarrow>
    sw_nextSeq sw < er_head (ring_of (sp_log st)) \<Longrightarrow>
    stop_step E st (Drained i) (st\<lparr>sp_workers := (sp_workers st)[i := takeBatch (ring_of (sp_log st)) sw]\<rparr>)"
| emitted: "i < length (sp_workers st) \<Longrightarrow> i \<notin> sp_exited st \<Longrightarrow> sw = sp_workers st ! i \<Longrightarrow> sw_batch sw = e # es \<Longrightarrow>
    stop_step E st (Emitted i e) (st\<lparr>sp_workers := (sp_workers st)[i := sw\<lparr>sw_batch := es\<rparr>],
      sp_log := (sp_log st)\<lparr>ls_world := handleEvent E (sw_handler sw) e (ls_world (sp_log st))\<rparr>\<rparr>)"
| gone: "i < length (sp_workers st) \<Longrightarrow> i \<notin> sp_exited st \<Longrightarrow> sw = sp_workers st ! i \<Longrightarrow> sw_batch sw = [] \<Longrightarrow>
    er_head (ring_of (sp_log st)) \<le> sw_nextSeq sw \<Longrightarrow>
    stop_step E st (Gone i) (st\<lparr>sp_exited := insert i (sp_exited st)\<rparr>)"

inductive stop_run :: "'w log_os \<Rightarrow> 'w stopping \<Rightarrow> stop_ev list \<Rightarrow> 'w stopping \<Rightarrow> bool" for E st0 where
  told: "stop_run E st0 [] st0"
| more: "stop_run E st0 tr st \<Longrightarrow> stop_step E st ev st' \<Longrightarrow> stop_run E st0 (tr @ [ev]) st'"

fun logged_in :: "stop_ev list \<Rightarrow> event_body list" where
  "logged_in [] = []"
| "logged_in (Logged e # tr) = e # logged_in tr"
| "logged_in (_ # tr) = logged_in tr"

fun emitted_by :: "nat \<Rightarrow> stop_ev list \<Rightarrow> logEvent list" where
  "emitted_by i [] = []"
| "emitted_by i (Emitted j e # tr) = (if j = i then e # emitted_by i tr else emitted_by i tr)"
| "emitted_by i (_ # tr) = emitted_by i tr"

lemma logged_in_append [simp]: "logged_in (tr @ tr') = logged_in tr @ logged_in tr'"
  by (induction tr rule: logged_in.induct) simp_all

lemma emitted_by_append [simp]: "emitted_by i (tr @ tr') = emitted_by i tr @ emitted_by i tr'"
  by (induction i tr rule: emitted_by.induct) simp_all

subsection \<open>Nothing logged before is lost\<close>

text \<open>As long as the ring still has everything from number \<open>n\<close> on, a push appends to it.\<close>

lemma seqs_from_push:
  assumes "ring_ok r" and "n \<le> er_head r" and "er_tail (fst (push e r)) \<le> n"
  shows "seqs_from n (fst (push e r)) = seqs_from n r @ [e\<lparr>ev_seq := er_head r\<rparr>]"
proof -
  let ?r = "fst (push e r)"
  have t: "er_tail r \<le> n" using assms(3) by (simp add: push_fields split: if_splits)
  have "seqs_from n ?r = map (\<lambda>s. er_buf ?r ! (s mod er_cap r)) [n..<er_head r] @ [e\<lparr>ev_seq := er_head r\<rparr>]"
    using assms push_last [OF assms(1), of e] by (simp add: seqs_from_def push_fields(1,2) max_absorb1)
  also have "map (\<lambda>s. er_buf ?r ! (s mod er_cap r)) [n..<er_head r] = map (\<lambda>s. er_buf r ! (s mod er_cap r)) [n..<er_head r]"
    using push_slot [OF assms(1)] assms(3) by simp
  finally show ?thesis using t by (simp add: seqs_from_def max_absorb1)
qed

lemma seqs_from_split:
  assumes "er_tail r \<le> n" and "n \<le> k" and "k \<le> er_head r"
  shows "seqs_from n r = take (k - n) (seqs_from n r) @ seqs_from k r" and "length (seqs_from n r) = er_head r - n"
proof -
  have "[n..<er_head r] = [n..<k] @ [k..<er_head r]" using assms upt_add_eq_append [of n k "er_head r - k"] by simp
  then show "seqs_from n r = take (k - n) (seqs_from n r) @ seqs_from k r"
    using assms by (simp add: seqs_from_def max_absorb1)
  show "length (seqs_from n r) = er_head r - n" using assms by (simp add: seqs_from_def max_absorb1)
qed

text \<open>
  \<open>b\<close> is what the worker had in hand, \<open>n\<close> its cursor and \<open>r0\<close> the ring when it was told to stop;
  \<open>ps\<close> has been logged since and \<open>out\<close> written.
\<close>

definition drain_inv ::
    "logEvent list \<Rightarrow> nat \<Rightarrow> eventRing \<Rightarrow> event_body list \<Rightarrow> logEvent list \<Rightarrow> eventRing \<Rightarrow> bool \<Rightarrow> sinkWorker \<Rightarrow> bool" where
  "drain_inv b n r0 ps out r gone sw \<longleftrightarrow> n \<le> sw_nextSeq sw \<and> sw_nextSeq sw \<le> er_head r \<and>
     (gone \<longrightarrow> sw_batch sw = [] \<and> er_head r0 \<le> sw_nextSeq sw) \<and> er_head r0 \<le> er_head r \<and> n \<le> er_head r0 \<and>
     (er_tail r \<le> n \<longrightarrow> (\<exists>new. seqs_from n r = seqs_from n r0 @ new \<and> map event_body.truncate new = ps) \<and>
        out @ sw_batch sw = b @ take (sw_nextSeq sw - n) (seqs_from n r))"

lemma drain_inv_push:
  assumes "drain_inv b n r0 ps out r g sw" and "ring_ok r"
  shows "drain_inv b n r0 (ps @ [e]) out (fst (push (numbered 0 e) r)) g sw"
proof -
  let ?r = "fst (push (numbered 0 e) r)" and ?e = "(numbered 0 e)\<lparr>ev_seq := er_head r\<rparr>"
  have h: "n \<le> sw_nextSeq sw" "sw_nextSeq sw \<le> er_head r" "er_head r0 \<le> er_head r"
    using assms(1) by (simp_all add: drain_inv_def)
  have "(\<exists>new. seqs_from n ?r = seqs_from n r0 @ new \<and> map event_body.truncate new = ps @ [e]) \<and>
      out @ sw_batch sw = b @ take (sw_nextSeq sw - n) (seqs_from n ?r)" if t: "er_tail ?r \<le> n"
  proof -
    have t0: "er_tail r \<le> n" using t by (simp add: push_fields split: if_splits)
    have app: "seqs_from n ?r = seqs_from n r @ [?e]" using h by (intro seqs_from_push [OF assms(2) _ t]) simp
    have len: "length (seqs_from n r) = er_head r - n" using h by (intro seqs_from_split(2) [OF t0 _ order_refl]) simp
    obtain new where new: "seqs_from n r = seqs_from n r0 @ new" "map event_body.truncate new = ps"
      using assms(1) t0 by (auto simp: drain_inv_def)
    have "seqs_from n ?r = seqs_from n r0 @ (new @ [?e]) \<and> map event_body.truncate (new @ [?e]) = ps @ [e]"
      using app new by simp
    moreover have "out @ sw_batch sw = b @ take (sw_nextSeq sw - n) (seqs_from n ?r)"
      using assms(1) t0 h app len by (simp add: drain_inv_def diff_le_mono)
    ultimately show ?thesis by blast
  qed
  then show ?thesis using assms(1) by (simp add: drain_inv_def push_fields(2))
qed

lemma drain_inv_take:
  assumes "drain_inv b n r0 ps out r False sw" and "ring_ok r"
  shows "drain_inv b n r0 ps out r False (takeBatch r sw)"
proof -
  have h: "n \<le> sw_nextSeq sw" "sw_nextSeq sw \<le> er_head r" "er_tail r \<le> er_head r"
    using assms by (simp_all add: drain_inv_def ring_ok_def)
  note t = takeBatch_eq [OF h(3,2)]
  have "out @ sw_batch sw @ seqs_from (sw_nextSeq sw) r = b @ take (er_head r - n) (seqs_from n r)" if "er_tail r \<le> n"
  proof -
    have "out @ sw_batch sw = b @ take (sw_nextSeq sw - n) (seqs_from n r)" using assms(1) that by (simp add: drain_inv_def)
    then have "out @ sw_batch sw @ seqs_from (sw_nextSeq sw) r =
        b @ take (sw_nextSeq sw - n) (seqs_from n r) @ seqs_from (sw_nextSeq sw) r"
      by (metis append.assoc)
    also have "\<dots> = b @ seqs_from n r" by (simp only: seqs_from_split(1) [OF that h(1,2), symmetric])
    finally show ?thesis using seqs_from_split(2) [OF that h(1,2)] by simp
  qed
  then show ?thesis using assms(1) h by (simp add: drain_inv_def t)
qed

definition stop_inv :: "'w log_state \<Rightarrow> stop_ev list \<Rightarrow> 'w stopping \<Rightarrow> bool" where
  "stop_inv s tr st \<longleftrightarrow> ring_ok (ring_of (sp_log st)) \<and> er_cap (ring_of (sp_log st)) = er_cap (ring_of s) \<and>
     er_head (ring_of (sp_log st)) = er_head (ring_of s) + length (logged_in tr) \<and>
     er_tail (ring_of (sp_log st)) \<le> max (er_tail (ring_of s)) (er_head (ring_of (sp_log st)) - er_cap (ring_of s)) \<and>
     length (sp_workers st) = length (workers_of s) \<and>
     (\<forall>i < length (workers_of s). drain_inv (sw_batch (workers_of s ! i)) (sw_nextSeq (workers_of s ! i)) (ring_of s)
        (logged_in tr) (emitted_by i tr) (ring_of (sp_log st)) (i \<in> sp_exited st) (sp_workers st ! i))"

lemma push_tail:
  assumes "ring_ok r" and "er_tail r \<le> max t (er_head r - er_cap r)"
  shows "er_tail (fst (push e r)) \<le> max t (er_head (fst (push e r)) - er_cap r)"
proof (cases "er_cap r \<le> er_head r - er_tail r")
  case True
  then have "er_tail r + er_cap r = er_head r" using assms(1) by (auto simp: ring_ok_def)
  then show ?thesis using True by (simp add: push_fields)
next
  case False
  then show ?thesis using assms(2) by (simp add: push_fields)
qed

lemma stop_inv_step: "stop_step E st ev st' \<Longrightarrow> stop_inv s tr st \<Longrightarrow> stop_inv s (tr @ [ev]) st'"
proof (induction rule: stop_step.induct)
  case (logged st e)
  then have ok: "ring_ok (ring_of (sp_log st))" and cap: "er_cap (ring_of (sp_log st)) = er_cap (ring_of s)"
    and tail: "er_tail (ring_of (sp_log st)) \<le> max (er_tail (ring_of s)) (er_head (ring_of (sp_log st)) - er_cap (ring_of (sp_log st)))"
    by (metis stop_inv_def)+
  show ?case
    using logged push_tail [OF ok tail, of "numbered 0 e"] cap unfolding stop_inv_def
    by (simp add: enqueueLocked_mgr ring_ok_push drain_inv_push push_fields(1,2))
next
  case (drained i st sw)
  then show ?case by (auto simp: stop_inv_def nth_list_update drain_inv_take)
next
  case (emitted i st sw e es)
  then show ?case by (auto simp: stop_inv_def nth_list_update drain_inv_def)
next
  case (gone i st sw)
  then show ?case by (auto simp: stop_inv_def drain_inv_def)
qed

lemma detach_fields [simp]:
  "ring_of (sp_log (detachWorkers s)) = ring_of s" "sp_workers (detachWorkers s) = workers_of s"
  "sp_exited (detachWorkers s) = {}" "ls_world (sp_log (detachWorkers s)) = ls_world s"
  by (simp_all add: detachWorkers_def unlockMu_def Let_def)

lemma stop_inv_run:
  assumes "caught_up (ls_mgr s)"
  shows "stop_run E (detachWorkers s) tr st \<Longrightarrow> stop_inv s tr st"
proof (induction rule: stop_run.induct)
  case told
  then show ?case using assms by (auto simp: stop_inv_def caught_up_def drain_inv_def)
next
  case (more tr st ev st')
  then show ?case by (auto intro: stop_inv_step)
qed

text \<open>
  C17: Stopping loses nothing that was logged before, whoever logs meanwhile. A worker that has
  exited has written what it had in hand and then every event that the ring held of its part, in
  order; after these come the first of the events logged since, as far as it got. This holds as
  long as no more has been logged than the ring has room for.
\<close>
theorem stop_drains:
  assumes "caught_up (ls_mgr s)" and "stop_run E (detachWorkers s) tr st" and "i < length (workers_of s)"
    and "i \<in> sp_exited st" and "sw = workers_of s ! i" and "er_tail (ring_of s) \<le> sw_nextSeq sw"
    and "er_head (ring_of s) + length (logged_in tr) \<le> sw_nextSeq sw + er_cap (ring_of s)"
  shows "\<exists>more. emitted_by i tr = sw_batch sw @ seqs_from (sw_nextSeq sw) (ring_of s) @ more \<and>
    prefix (map event_body.truncate more) (logged_in tr)"
proof -
  let ?n = "sw_nextSeq sw" and ?ring = "ring_of (sp_log st)" and ?old = "ring_of s" and ?x = "sp_workers st ! i"
  have inv: "stop_inv s tr st" by (rule stop_inv_run [OF assms(1,2)])
  then have d: "drain_inv (sw_batch sw) ?n ?old (logged_in tr) (emitted_by i tr) ?ring True ?x"
    using assms(3-5) unfolding stop_inv_def by (metis (full_types))
  have t: "er_tail ?ring \<le> ?n" using inv assms(6,7) by (auto simp: stop_inv_def max_def split: if_splits)
  obtain new where new: "seqs_from ?n ?ring = seqs_from ?n ?old @ new" "map event_body.truncate new = logged_in tr"
    using d t by (auto simp: drain_inv_def)
  have out: "emitted_by i tr = sw_batch sw @ take (sw_nextSeq ?x - ?n) (seqs_from ?n ?ring)"
    using d t unfolding drain_inv_def by (metis append_Nil2)
  have "length (seqs_from ?n ?old) \<le> sw_nextSeq ?x - ?n"
    using d seqs_from_split(2) [OF assms(6) order_refl] by (simp add: drain_inv_def diff_le_mono)
  then have "emitted_by i tr = sw_batch sw @ seqs_from ?n ?old @ take (sw_nextSeq ?x - ?n - length (seqs_from ?n ?old)) new"
    using out new(1) by simp
  moreover have "prefix (map event_body.truncate (take k new)) (logged_in tr)" for k
    using new(2) by (metis take_is_prefix take_map)
  ultimately show ?thesis by blast
qed

subsection \<open>The run in which nobody logs\<close>

lemma stop_run_trans: "stop_run E s1 tr' s2 \<Longrightarrow> stop_run E s0 tr s1 \<Longrightarrow> stop_run E s0 (tr @ tr') s2"
proof (induction rule: stop_run.induct)
  case (more tr' st ev st')
  then show ?case using stop_run.more [of E s0 "tr @ tr'" st ev st'] by simp
qed simp

lemma write_run:
  assumes "i < length (sp_workers st)" and "i \<notin> sp_exited st" and "sp_workers st ! i = sw\<lparr>sw_batch := b\<rparr>"
  shows "stop_run E st (map (Emitted i) b) (st\<lparr>sp_workers := (sp_workers st)[i := sw\<lparr>sw_batch := []\<rparr>],
    sp_log := (sp_log st)\<lparr>ls_world := fold (handleEvent E (sw_handler sw)) b (ls_world (sp_log st))\<rparr>\<rparr>)"
  using assms
proof (induction b arbitrary: st)
  case Nil
  then have "st\<lparr>sp_workers := (sp_workers st)[i := sw\<lparr>sw_batch := []\<rparr>],
    sp_log := (sp_log st)\<lparr>ls_world := fold (handleEvent E (sw_handler sw)) [] (ls_world (sp_log st))\<rparr>\<rparr> = st"
    by (metis fold_simps(1) list_update_id log_state.surjective log_state.update_convs(2) stopping.surjective
      stopping.update_convs(1,2))
  then show ?case using stop_run.told [of E st] by simp
next
  case (Cons e b)
  let ?st = "st\<lparr>sp_workers := (sp_workers st)[i := (sw\<lparr>sw_batch := e # b\<rparr>)\<lparr>sw_batch := b\<rparr>],
      sp_log := (sp_log st)\<lparr>ls_world := handleEvent E (sw_handler (sw\<lparr>sw_batch := e # b\<rparr>)) e (ls_world (sp_log st))\<rparr>\<rparr>"
  have "stop_step E st (Emitted i e) ?st"
    by (rule stop_step.emitted) (use Cons.prems in simp_all)
  then have first: "stop_run E st [Emitted i e] ?st" using stop_run.more [OF stop_run.told] by force
  have "stop_run E ?st (map (Emitted i) b) (?st\<lparr>sp_workers := (sp_workers ?st)[i := sw\<lparr>sw_batch := []\<rparr>],
    sp_log := (sp_log ?st)\<lparr>ls_world := fold (handleEvent E (sw_handler sw)) b (ls_world (sp_log ?st))\<rparr>\<rparr>)"
    by (rule Cons.IH) (use Cons.prems in simp_all)
  from stop_run_trans [OF this first] show ?case by simp
qed

text \<open>One worker: write what is in hand, take the rest, write it, exit.\<close>

lemma stop_run_one: "stop_step E st ev st' \<Longrightarrow> stop_run E st [ev] st'"
  using stop_run.more [OF stop_run.told] by force

lemma logged_in_writes [simp]: "logged_in (map (Emitted i) b) = []"
  by (induction b) simp_all

lemma exit_run:
  assumes "i < length (sp_workers st)" and "i \<notin> sp_exited st" and "sw = sp_workers st ! i" and "r = ring_of (sp_log st)"
    and "er_tail r \<le> er_head r" and "sw_nextSeq sw \<le> er_head r"
  shows "\<exists>tr sw'. logged_in tr = [] \<and> stop_run E st tr (st\<lparr>sp_workers := (sp_workers st)[i := sw'],
    sp_log := (sp_log st)\<lparr>ls_world := runToExit E r sw (ls_world (sp_log st))\<rparr>, sp_exited := insert i (sp_exited st)\<rparr>)"
proof -
  let ?w = "fold (handleEvent E (sw_handler sw)) (sw_batch sw) (ls_world (sp_log st))"
  let ?idle = "sw\<lparr>sw_batch := []\<rparr>"
  let ?s1 = "st\<lparr>sp_workers := (sp_workers st)[i := ?idle], sp_log := (sp_log st)\<lparr>ls_world := ?w\<rparr>\<rparr>"
  have run1: "stop_run E st (map (Emitted i) (sw_batch sw)) ?s1"
    by (rule write_run) (use assms(1-3) in simp_all)
  show ?thesis
  proof (cases "sw_nextSeq sw < er_head r")
    case False
    have "stop_step E ?s1 (Gone i) (?s1\<lparr>sp_exited := insert i (sp_exited ?s1)\<rparr>)"
      using stop_step.gone [of i ?s1 ?idle E] assms False by simp
    from stop_run_trans [OF stop_run_one [OF this] run1] show ?thesis
      using False by (intro exI [of _ "map (Emitted i) (sw_batch sw) @ [Gone i]"] exI [of _ ?idle])
        (simp add: runToExit_def writeBatch_def)
  next
    case True
    let ?took = "takeBatch r ?idle"
    let ?s2 = "?s1\<lparr>sp_workers := (sp_workers ?s1)[i := ?took]\<rparr>"
    have run2: "stop_run E ?s1 [Drained i] ?s2"
      using stop_step.drained [of i ?s1 ?idle E] assms True by (intro stop_run_one) simp
    have t: "sw_nextSeq ?took = er_head r" "sw_handler ?took = sw_handler sw"
      using assms(5,6) by (simp_all add: takeBatch_eq)
    let ?s3 = "?s2\<lparr>sp_workers := (sp_workers ?s2)[i := ?took\<lparr>sw_batch := []\<rparr>],
      sp_log := (sp_log ?s2)\<lparr>ls_world := fold (handleEvent E (sw_handler ?took)) (sw_batch ?took) (ls_world (sp_log ?s2))\<rparr>\<rparr>"
    have run3: "stop_run E ?s2 (map (Emitted i) (sw_batch ?took)) ?s3"
      by (rule write_run) (use assms(1,2) in simp_all)
    have run4: "stop_run E ?s3 [Gone i] (?s3\<lparr>sp_exited := insert i (sp_exited ?s3)\<rparr>)"
      using stop_step.gone [of i ?s3 "?took\<lparr>sw_batch := []\<rparr>" E] assms t by (intro stop_run_one) simp
    have "stop_run E st (map (Emitted i) (sw_batch sw) @ [Drained i] @ map (Emitted i) (sw_batch ?took) @ [Gone i])
        (?s3\<lparr>sp_exited := insert i (sp_exited ?s3)\<rparr>)"
      by (intro stop_run_trans [OF _ run1] stop_run_trans [OF _ run2] stop_run_trans [OF _ run3] run4)
    moreover have "runToExit E r sw (ls_world (sp_log st)) = fold (handleEvent E (sw_handler ?took)) (sw_batch ?took) ?w"
      using True by (simp add: runToExit_def writeBatch_def t(2))
    ultimately show ?thesis
      by (intro exI [of _ "map (Emitted i) (sw_batch sw) @ [Drained i] @ map (Emitted i) (sw_batch ?took) @ [Gone i]"]
          exI [of _ "?took\<lparr>sw_batch := []\<rparr>"]) simp
  qed
qed

lemma exits_run:
  assumes "ring_of (sp_log st) = r" and "er_tail r \<le> er_head r" and "sp_exited st = {}"
    and "\<forall>sw \<in> set (sp_workers st). sw_nextSeq sw \<le> er_head r"
  shows "k \<le> length (sp_workers st) \<Longrightarrow> \<exists>tr ws. logged_in tr = [] \<and> drop k ws = drop k (sp_workers st) \<and>
    length ws = length (sp_workers st) \<and>
    stop_run E st tr (st\<lparr>sp_workers := ws,
      sp_log := (sp_log st)\<lparr>ls_world := fold (runToExit E r) (take k (sp_workers st)) (ls_world (sp_log st))\<rparr>, sp_exited := {..<k}\<rparr>)"
proof (induction k)
  case 0
  have "st\<lparr>sp_workers := sp_workers st, sp_log := (sp_log st)\<lparr>ls_world := ls_world (sp_log st)\<rparr>, sp_exited := {..<0}\<rparr> = st"
    using assms(3) by (cases st) simp
  then show ?case using stop_run.told [of E st]
    by (intro exI [of _ "[]"] exI [of _ "sp_workers st"]) simp
next
  case (Suc k)
  then obtain tr ws where IH: "logged_in tr = []" "drop k ws = drop k (sp_workers st)" "length ws = length (sp_workers st)"
    and run: "stop_run E st tr (st\<lparr>sp_workers := ws,
      sp_log := (sp_log st)\<lparr>ls_world := fold (runToExit E r) (take k (sp_workers st)) (ls_world (sp_log st))\<rparr>, sp_exited := {..<k}\<rparr>)"
      (is "stop_run E st tr ?st") by auto
  have wk: "ws ! k = sp_workers st ! k" using IH(2,3) Suc.prems by (metis Cons_nth_drop_Suc Suc_le_lessD list.inject)
  have "sw_nextSeq (ws ! k) \<le> er_head r" using assms(4) Suc.prems wk by simp
  then obtain tr' sw' where ex: "logged_in tr' = []" and run': "stop_run E ?st tr' (?st\<lparr>sp_workers := (sp_workers ?st)[k := sw'],
      sp_log := (sp_log ?st)\<lparr>ls_world := runToExit E r (ws ! k) (ls_world (sp_log ?st))\<rparr>, sp_exited := insert k (sp_exited ?st)\<rparr>)"
    using exit_run [of k ?st "ws ! k" r E] assms(1,2) Suc.prems IH(3) by auto
  from stop_run_trans [OF run' run] have "stop_run E st (tr @ tr') (st\<lparr>sp_workers := ws[k := sw'],
      sp_log := (sp_log st)\<lparr>ls_world := fold (runToExit E r) (take (Suc k) (sp_workers st)) (ls_world (sp_log st))\<rparr>,
      sp_exited := {..<Suc k}\<rparr>)"
    using Suc.prems wk by (simp add: take_Suc_conv_app_nth lessThan_Suc)
  moreover have "drop (Suc k) (ws[k := sw']) = drop (Suc k) (sp_workers st)"
    using IH(2) by (metis drop_Suc drop_update_cancel drop_tl lessI)
  ultimately show ?case
    using IH(1,3) ex by (intro exI [of _ "tr @ tr'"] exI [of _ "ws[k := sw']"]) simp
qed

text \<open>
  The definition of Log\_Outputs is one of these runs: nothing is logged, every worker exits, and
  when the mutex is taken again the state is the one it computes.
\<close>

theorem stop_alone:
  assumes "ls_mu s" and "caught_up (ls_mgr s)" and "workers_of s \<noteq> []"
  shows "\<exists>tr st. stop_run E (detachWorkers s) tr st \<and> logged_in tr = [] \<and> stopped st \<and>
    resumeLocked st = stopWorkersLocked E s"
proof -
  let ?st = "detachWorkers s" and ?ws = "workers_of s"
  have "er_tail (ring_of s) \<le> er_head (ring_of s)" using assms(2) by (simp add: caught_up_def ring_ok_def)
  then obtain tr ws where tr: "logged_in tr = []" "length ws = length ?ws"
    and run: "stop_run E ?st tr (?st\<lparr>sp_workers := ws,
      sp_log := (sp_log ?st)\<lparr>ls_world := fold (runToExit E (ring_of s)) ?ws (ls_world s)\<rparr>, sp_exited := {..<length ?ws}\<rparr>)" (is "stop_run E ?st tr ?fin")
    using exits_run [of ?st "ring_of s" "length ?ws" E] assms(2) by (auto simp: caught_up_def)
  have "resumeLocked ?fin = stopWorkersLocked E s"
    using assms(1,3) by (simp add: resumeLocked_def stopWorkersLocked_def detachWorkers_def unlockMu_def Let_def)
  moreover have "stopped ?fin" using tr(2) by (simp add: stopped_def)
  ultimately show ?thesis using run tr(1) by blast
qed

subsection \<open>An event that no sink writes\<close>

lemma idle_caught_up:
  assumes "ring_ok (ring_of s)" and "\<forall>sw \<in> set (workers_of s). sw_batch sw = [] \<and> sw_nextSeq sw = er_head (ring_of s)"
  shows "caught_up (ls_mgr s)"
  using assms by (simp add: caught_up_def)

lemma drain_idle:
  assumes "drain_inv [] n r [] out r g sw" and "er_head r = n" and "er_tail r \<le> n"
  shows "out = []"
proof -
  have "out @ sw_batch sw = take (sw_nextSeq sw - n) (seqs_from n r)" using assms(1,3) by (simp add: drain_inv_def)
  then show ?thesis using assms(2,3) by (simp add: seqs_from_def)
qed

lemma pushed_get:
  assumes "ring_ok r"
  shows "get (er_head r) (fst (push (numbered 0 e) r)) = Some (numbered (er_head r) e)"
  using assms push_last [OF assms, of "numbered 0 e"]
  by (auto simp: get_def push_fields(1-3) ring_ok_def numbered_def event_body.defs logEvent.defs split: if_splits)

text \<open>
  C19: An event that is logged while \<^verbatim>\<open>Configure\<close> waits for its workers may be written by no sink. When
  the workers have nothing to do, there is a run in which they exit before the event comes: the event
  is in the ring when the mutex is taken again, but none of them has written anything, and all the
  workers that \<^verbatim>\<open>Configure\<close> starts, for whatever outputs, begin behind it.
\<close>
theorem reconfigure_loses_event:
  assumes "ring_ok (ring_of s)" and "workers_of s \<noteq> []"
    and "\<forall>sw \<in> set (workers_of s). sw_batch sw = [] \<and> sw_nextSeq sw = er_head (ring_of s)"
  shows "\<exists>tr st. stop_run E (detachWorkers s) tr st \<and> stopped st \<and> logged_in tr = [e] \<and>
    get (er_head (ring_of s)) (ring_of (resumeLocked st)) = Some (numbered (er_head (ring_of s)) e) \<and>
    (\<forall>i < length (workers_of s). emitted_by i tr = []) \<and>
    (\<forall>cfg hasFile hasSyslog f c. \<forall>sw \<in> set (sinkWorkers E cfg hasFile hasSyslog
       ((ls_mgr (resumeLocked st))\<lparr>m_logFile := f, m_sysConn := c\<rparr>)). er_head (ring_of s) < sw_nextSeq sw)"
proof -
  let ?st = "detachWorkers s" and ?n = "er_head (ring_of s)"
  note up = idle_caught_up [OF assms(1,3)]
  have t: "er_tail (ring_of s) \<le> ?n" using assms(1) by (simp add: ring_ok_def)
  obtain tr ws where tr: "logged_in tr = []" "length ws = length (workers_of s)"
    and run: "stop_run E ?st tr (?st\<lparr>sp_workers := ws,
      sp_log := (sp_log ?st)\<lparr>ls_world := fold (runToExit E (ring_of s)) (workers_of s) (ls_world s)\<rparr>,
      sp_exited := {..<length (workers_of s)}\<rparr>)" (is "stop_run E ?st tr ?idle")
    using exits_run [of ?st "ring_of s" "length (workers_of s)" E] t assms(3) by auto
  have same: "ring_of (sp_log ?idle) = ring_of s" by simp
  have none: "emitted_by i tr = []" if i: "i < length (workers_of s)" for i
  proof -
    have sw: "sw_batch (workers_of s ! i) = []" "sw_nextSeq (workers_of s ! i) = ?n" using assms(3) i by simp_all
    have "stop_inv s tr ?idle" by (rule stop_inv_run [OF up run])
    then have "drain_inv [] ?n (ring_of s) [] (emitted_by i tr) (ring_of s) (i \<in> sp_exited ?idle) (sp_workers ?idle ! i)"
      using i unfolding stop_inv_def same tr(1) by (metis sw)
    from drain_idle [OF this refl t] show ?thesis .
  qed
  let ?fin = "?idle\<lparr>sp_log := enqueueLocked E e (sp_log ?idle)\<rparr>"
  have run': "stop_run E ?st (tr @ [Logged e]) ?fin" by (rule stop_run.more [OF run stop_step.logged])
  have ring: "ring_of (resumeLocked ?fin) = fst (push (numbered 0 e) (ring_of s))"
    by (simp add: resumeLocked_def enqueueLocked_mgr)
  have start: "?n < sw_nextSeq sw" if "sw \<in> set (sinkWorkers E cfg hasFile hasSyslog
       ((ls_mgr (resumeLocked ?fin))\<lparr>m_logFile := f, m_sysConn := c\<rparr>))" for sw cfg hasFile hasSyslog f c
    using sinkWorkers_fresh [OF that] ring by (simp add: push_fields)
  have "stopped ?fin" using tr(2) by (simp add: stopped_def)
  moreover have "logged_in (tr @ [Logged e]) = [e]" using tr(1) by simp
  moreover have "get ?n (ring_of (resumeLocked ?fin)) = Some (numbered ?n e)" using pushed_get [OF assms(1)] ring by simp
  moreover have "\<forall>i < length (workers_of s). emitted_by i (tr @ [Logged e]) = []" using none by simp
  ultimately show ?thesis using run' start by blast
qed

subsection \<open>Concrete runs\<close>

text \<open>A ring of two slots with an event that the only worker has not yet taken.\<close>

definition demo_room :: "string list log_state" where
  "demo_room = demo_log\<lparr>ls_mgr := (ls_mgr demo_log)\<lparr>m_ring := newEventRing 2\<rparr>, ls_mu := True\<rparr>"

definition demo_waiting :: "string list log_state" where
  "demo_waiting = enqueueLocked demo_os (demo_event ''a'') demo_room"

lemma demo_waiting_simps:
  "workers_of demo_waiting = [newSinkWorker SinkFile 0 (newStructuredHandler (FileWriter 3) False)]"
  "ring_of demo_waiting = \<lparr>er_buf = [numbered 0 (demo_event ''a''), zeroEvent], er_cap = 2, er_head = 1, er_tail = 0\<rparr>"
  by (simp_all add: demo_waiting_def demo_room_def enqueueLocked_mgr demo_log_def newManager_def newSinkWorker_def
      push_def newEventRing_def numeral_2_eq_2 numbered_def event_body.defs logEvent.defs)

lemma demo_waiting_up: "caught_up (ls_mgr demo_waiting)"
  by (simp add: caught_up_def demo_waiting_simps ring_ok_def newSinkWorker_def numeral_2_eq_2)
    (simp add: numbered_def event_body.defs logEvent.defs)

text \<open>Another event comes before the worker looks, so both are written or at least the first.\<close>

lemma demo_stop_run:
  "\<exists>tr st. stop_run demo_os (detachWorkers demo_waiting) tr st \<and> logged_in tr = [demo_event ''b''] \<and> 0 \<in> sp_exited st"
proof -
  let ?st = "detachWorkers demo_waiting"
  let ?s1 = "?st\<lparr>sp_log := enqueueLocked demo_os (demo_event ''b'') (sp_log ?st)\<rparr>"
  have first: "stop_run demo_os ?st [Logged (demo_event ''b'')] ?s1"
    by (rule stop_run_one [OF stop_step.logged])
  obtain tr ws where tr: "logged_in tr = []"
    and run: "stop_run demo_os ?s1 tr (?s1\<lparr>sp_workers := ws, sp_log := (sp_log ?s1)\<lparr>ls_world := fold (runToExit demo_os (ring_of (sp_log ?s1)))
      (take 1 (sp_workers ?s1)) (ls_world (sp_log ?s1))\<rparr>, sp_exited := {..<1}\<rparr>)"
    using exits_run [of ?s1 "ring_of (sp_log ?s1)" 1 demo_os]
    by (auto simp: enqueueLocked_mgr push_fields demo_waiting_simps newSinkWorker_def)
  then show ?thesis using stop_run_trans [OF run first]
    by (intro exI conjI) (assumption, simp_all)
qed

theorem stop_drains_witness:
  "\<exists>tr st more. stop_run demo_os (detachWorkers demo_waiting) tr st \<and> logged_in tr = [demo_event ''b''] \<and>
     emitted_by 0 tr = numbered 0 (demo_event ''a'') # more \<and> prefix (map event_body.truncate more) [demo_event ''b'']"
proof -
  obtain tr st where run: "stop_run demo_os (detachWorkers demo_waiting) tr st"
    and tr: "logged_in tr = [demo_event ''b'']" "0 \<in> sp_exited st"
    using demo_stop_run by blast
  from stop_drains [OF demo_waiting_up run _ tr(2) refl] tr(1) run show ?thesis
    by (auto simp: demo_waiting_simps newSinkWorker_def seqs_from_def)
qed

theorem reconfigure_loses_event_witness:
  "\<exists>tr st. stop_run demo_os (detachWorkers demo_room) tr st \<and> stopped st \<and> logged_in tr = [demo_event ''a''] \<and>
     emitted_by 0 tr = [] \<and> get 0 (ring_of (resumeLocked st)) = Some (numbered 0 (demo_event ''a''))"
proof -
  have room: "ring_of demo_room = newEventRing 2" "length (workers_of demo_room) = 1"
    "\<forall>sw \<in> set (workers_of demo_room). sw_batch sw = [] \<and> sw_nextSeq sw = er_head (ring_of demo_room)"
    by (simp_all add: demo_room_def demo_log_def newManager_def newSinkWorker_def newEventRing_def)
  then have "ring_ok (ring_of demo_room)" "workers_of demo_room \<noteq> []" by (auto simp: ring_ok_new)
  from reconfigure_loses_event [OF this room(3), of demo_os "demo_event ''a''"] room(1,2) show ?thesis
    by (auto simp: newEventRing_def)
qed

end
