(* ===== verification/Log_Rotation.thy ===== *)
theory Log_Rotation
  imports Log_Control
begin

text \<open>
  The rotation watcher beside the producers and the sink workers
  (\<^verbatim>\<open>internal/logging/logging.go\<close>, the goroutine of
  \<^verbatim>\<open>startRotationWatcherLocked\<close> and the body of
  \<^verbatim>\<open>RotateFileIfNeeded\<close>). A step of the watcher is one call to the operating
  system, made with the manager's mutex held; between two of them a worker may write an event of its
  batch, for which it needs no mutex. The ticker may fire whenever the watcher waits.
  \<open>m_rotationStop\<close> is false when the watcher's stop channel is closed.
\<close>

text \<open>
  Where the watcher is: waiting for a tick, after the file was moved, after it was reopened, after
  the file sink was redirected, with old files to remove, with a line to report, gone.
\<close>

datatype watch_at = Waiting | Aside | Reopened | Redirected | Removing "string list"
  | Reporting string "string list" | Left

datatype watch_ev = Idled | Moved nat | Opened | OpenFailed string | Swapped | Listed | Removed string | Reported
  | Released | Quit | Other log_ev

definition oldFiles :: "'w log_os \<Rightarrow> 'w log_state \<Rightarrow> string list" where
  "oldFiles E s =
     (let path = filePath (m_config (ls_mgr s)); keep = fileMaxFiles (m_config (ls_mgr s)) in
      if keep > 0
      then (case os_readDir E (dirName path) (ls_world s) of
          None \<Rightarrow> []
        | Some entries \<Rightarrow> surplus (baseName path) (nat keep) entries)
      else [])"

definition removalLine :: "string \<Rightarrow> string \<Rightarrow> unit res \<Rightarrow> string" where
  "removalLine dir name res = (case res of
      Inl err \<Rightarrow> ''Warning: failed to remove old log file '' @ joinPath dir name @ '': '' @ err
    | Inr _ \<Rightarrow> ''Removed old rotated log file: '' @ name)"

inductive watch_step :: "'w log_os \<Rightarrow> watch_at \<times> 'w log_state \<Rightarrow> watch_ev \<Rightarrow> watch_at \<times> 'w log_state \<Rightarrow> bool" for E where
  idled: "\<not> ls_mu s \<Longrightarrow> rotationDue E s = None \<Longrightarrow> watch_step E (Waiting, s) Idled (Waiting, s)"
| moved: "\<not> ls_mu s \<Longrightarrow> rotationDue E s = Some f \<Longrightarrow>
    watch_step E (Waiting, s) (Moved f) (Aside, moveAside E f (s\<lparr>ls_mu := True\<rparr>))"
| opened: "openLogFile E (filePath (m_config (ls_mgr s))) s = (Inr u, s') \<Longrightarrow> watch_step E (Aside, s) Opened (Reopened, s')"
| openFailed: "openLogFile E (filePath (m_config (ls_mgr s))) s = (Inl err, s') \<Longrightarrow>
    watch_step E (Aside, s) (OpenFailed err) (Reporting (''Failed to reopen log file after rotation: '' @ err) [], s')"
| swapped: "watch_step E (Reopened, s) Swapped (Redirected, s\<lparr>ls_mgr := redirectFile (ls_mgr s)\<rparr>)"
| listed: "watch_step E (Redirected, s) Listed (Removing (oldFiles E s), s)"
| removed: "dir = dirName (filePath (m_config (ls_mgr s))) \<Longrightarrow>
    os_removeFile E (joinPath dir name) (ls_world s) = (res, w) \<Longrightarrow>
    watch_step E (Removing (name # names), s) (Removed name) (Reporting (removalLine dir name res) names, s\<lparr>ls_world := w\<rparr>)"
| reported: "logPrintf E msg s = Some s' \<Longrightarrow> watch_step E (Reporting msg names, s) Reported (Removing names, s')"
| released: "watch_step E (Removing [], s) Released (Waiting, unlockMu s)"
| quit: "\<not> m_rotationStop (ls_mgr s) \<Longrightarrow> watch_step E (Waiting, s) Quit (Left, s)"
| other: "log_step E s ev s' \<Longrightarrow> watch_step E (pc, s) (Other ev) (pc, s')"

inductive watch_run :: "'w log_os \<Rightarrow> watch_at \<times> 'w log_state \<Rightarrow> watch_ev list \<Rightarrow> watch_at \<times> 'w log_state \<Rightarrow> bool" for E c0 where
  begun: "watch_run E c0 [] c0"
| further: "watch_run E c0 tr c \<Longrightarrow> watch_step E c ev c' \<Longrightarrow> watch_run E c0 (tr @ [ev]) c'"

lemma watch_run_one: "watch_step E c ev c' \<Longrightarrow> watch_run E c [ev] c'"
  using watch_run.further [OF watch_run.begun, of E c ev c'] by simp

lemma watch_run_trans: "watch_run E c1 tr' c2 \<Longrightarrow> watch_run E c0 tr c1 \<Longrightarrow> watch_run E c0 (tr @ tr') c2"
proof (induction rule: watch_run.induct)
  case (further tr' c ev c')
  then show ?case using watch_run.further [of E c0 "tr @ tr'" c ev c'] by simp
qed simp

lemma watch_run_first: "watch_step E c0 ev c1 \<Longrightarrow> watch_run E c1 tr c2 \<Longrightarrow> watch_run E c0 (ev # tr) c2"
  using watch_run_trans [OF _ watch_run_one, of E c1 tr c2 c0 ev] by simp

subsection \<open>Rotating undisturbed\<close>

text \<open>
  \<open>rotateFileIfNeeded\<close> is the run of the watcher from a tick to the next wait that nobody disturbs;
  when it has no result, the run ends where the watcher wants to report with the mutex held.
\<close>

definition stuck :: "watch_at \<times> 'w log_state \<Rightarrow> bool" where
  "stuck c \<longleftrightarrow> (\<exists>msg names. fst c = Reporting msg names) \<and> ls_mu (snd c) \<and> m_logger (ls_mgr (snd c)) \<noteq> None"

text \<open>What the watcher does in one go: the end it comes to.\<close>

definition comes_to :: "'w log_os \<Rightarrow> watch_at \<times> 'w log_state \<Rightarrow> 'w log_state option \<Rightarrow> bool" where
  "comes_to E c r \<longleftrightarrow> (\<exists>tr c'. watch_run E c tr c' \<and> (\<forall>ev. Other ev \<notin> set tr) \<and>
     (case r of None \<Rightarrow> stuck c' | Some s \<Rightarrow> c' = (Waiting, s)))"

lemma comes_to_step:
  assumes "watch_step E c ev c'" and "\<forall>e. ev \<noteq> Other e" and "comes_to E c' r"
  shows "comes_to E c r"
proof -
  obtain tr c2 where "watch_run E c' tr c2" "\<forall>ev. Other ev \<notin> set tr"
    "case r of None \<Rightarrow> stuck c2 | Some s \<Rightarrow> c2 = (Waiting, s)" using assms(3) unfolding comes_to_def by blast
  then show ?thesis using watch_run_first [OF assms(1)] assms(2)
    unfolding comes_to_def by (intro exI [of _ "ev # tr"] exI [of _ c2]) auto
qed

lemma comes_to_removing:
  assumes "ls_mu s" and "m_logger (ls_mgr s) \<noteq> None"
  shows "comes_to E (Removing names, s)
    (if names = [] then Some (unlockMu s) else None)"
proof (cases names)
  case Nil
  have "watch_run E (Removing [], s) [Released] (Waiting, unlockMu s)" by (rule watch_run_one [OF watch_step.released])
  then show ?thesis using Nil unfolding comes_to_def by fastforce
next
  case (Cons name rest)
  let ?dir = "dirName (filePath (m_config (ls_mgr s)))"
  obtain res w where rm: "os_removeFile E (joinPath ?dir name) (ls_world s) = (res, w)" by fastforce
  have "watch_run E (Removing names, s) [Removed name] (Reporting (removalLine ?dir name res) rest, s\<lparr>ls_world := w\<rparr>)"
    unfolding Cons by (rule watch_run_one [OF watch_step.removed [OF refl rm]])
  moreover have "stuck (Reporting (removalLine ?dir name res) rest, s\<lparr>ls_world := w\<rparr>)" using assms by (simp add: stuck_def)
  ultimately show ?thesis using Cons unfolding comes_to_def by fastforce
qed

lemma cleanup_oldFiles:
  assumes "ls_mu s" and "m_logger (ls_mgr s) \<noteq> None"
  shows "(if fileMaxFiles (m_config (ls_mgr s)) > 0
      then cleanupRotatedFiles E (filePath (m_config (ls_mgr s))) (nat (fileMaxFiles (m_config (ls_mgr s)))) s
      else Some s) = (if oldFiles E s = [] then Some s else None)"
proof -
  obtain lg where lg: "m_logger (ls_mgr s) = Some lg" using assms(2) by blast
  show ?thesis using cleanup_held [OF assms(1) lg] by (auto simp: oldFiles_def Let_def cleanupRotatedFiles_def split: option.splits)
qed

lemma comes_to_open:
  assumes "ls_mu s" and "m_logger (ls_mgr s) \<noteq> None" and "openLogFile E (filePath (m_config (ls_mgr s))) s = (r, s1)"
  shows "comes_to E (Aside, s) (case r of Inl err \<Rightarrow> None | Inr _ \<Rightarrow>
    let s2 = s1\<lparr>ls_mgr := redirectFile (ls_mgr s1)\<rparr> in if oldFiles E s2 = [] then Some (unlockMu s2) else None)"
proof (cases r)
  case (Inl err)
  have step: "watch_step E (Aside, s) (OpenFailed err) (Reporting (''Failed to reopen log file after rotation: '' @ err) [], s1)"
    by (rule watch_step.openFailed) (simp add: assms(3) Inl)
  have "stuck (Reporting (''Failed to reopen log file after rotation: '' @ err) [], s1)"
    using openLogFile_frame [OF assms(3)] assms(1,2) by (simp add: stuck_def)
  then show ?thesis using watch_run_one [OF step] Inl unfolding comes_to_def by fastforce
next
  case (Inr u)
  let ?s2 = "s1\<lparr>ls_mgr := redirectFile (ls_mgr s1)\<rparr>"
  have step: "watch_step E (Aside, s) Opened (Reopened, s1)" by (rule watch_step.opened) (simp add: assms(3) Inr)
  have "comes_to E (Removing (oldFiles E ?s2), ?s2) (if oldFiles E ?s2 = [] then Some (unlockMu ?s2) else None)"
    using openLogFile_frame [OF assms(3)] assms(1,2) by (intro comes_to_removing) (simp_all add: redirectFile_def)
  then have "comes_to E (Reopened, s1) (if oldFiles E ?s2 = [] then Some (unlockMu ?s2) else None)"
    by (intro comes_to_step [OF watch_step.swapped] comes_to_step [OF watch_step.listed]) simp_all
  from comes_to_step [OF step _ this] show ?thesis using Inr by (simp add: Let_def)
qed

theorem rotation_undisturbed:
  assumes "\<not> ls_mu s" and "m_logger (ls_mgr s) \<noteq> None"
  shows "comes_to E (Waiting, s) (rotateFileIfNeeded E s)"
proof (cases "rotationDue E s")
  case None
  have due: "rotationDue E (s\<lparr>ls_mu := True\<rparr>) = None" using None by (simp add: rotationDue_def cong: option.case_cong if_cong)
  have "s\<lparr>ls_mu := False\<rparr> = s" using assms(1) by (cases s) simp
  then have "rotateFileIfNeeded E s = Some s"
    using assms(1) due by (simp add: rotateFileIfNeeded_def rotateLocked_def lockMu_def unlockMu_def)
  moreover have "watch_run E (Waiting, s) [Idled] (Waiting, s)"
    by (rule watch_run_one [OF watch_step.idled [OF assms(1) None]])
  ultimately show ?thesis unfolding comes_to_def by fastforce
next
  case (Some f)
  obtain lg where lg: "m_logger (ls_mgr s) = Some lg" using assms(2) by blast
  let ?s0 = "moveAside E f (s\<lparr>ls_mu := True\<rparr>)"
  obtain r s1 where o: "openLogFile E (filePath (m_config (ls_mgr s))) ?s0 = (r, s1)" by fastforce
  have s0: "ls_mu ?s0" "m_logger (ls_mgr ?s0) \<noteq> None" "m_config (ls_mgr ?s0) = m_config (ls_mgr s)"
    using assms(2) by (simp_all add: moveAside_def Let_def)
  let ?s2 = "s1\<lparr>ls_mgr := redirectFile (ls_mgr s1)\<rparr>"
  have s2: "ls_mu ?s2" "m_logger (ls_mgr ?s2) \<noteq> None" "m_config (ls_mgr ?s2) = m_config (ls_mgr s)"
    using openLogFile_frame [OF o] s0 by (simp_all add: redirectFile_def)
  note clean = cleanup_oldFiles [OF s2(1,2), of E, unfolded s2(3)]
  have "rotateLocked E (s\<lparr>ls_mu := True\<rparr>) = (case r of Inl err \<Rightarrow> None | Inr _ \<Rightarrow> if oldFiles E ?s2 = [] then Some ?s2 else None)"
    by (simp only: rotate_open [OF lg Some o] clean)
  then have "rotateFileIfNeeded E s = (case r of Inl err \<Rightarrow> None | Inr _ \<Rightarrow>
      if oldFiles E ?s2 = [] then Some (unlockMu ?s2) else None)"
    using assms(1) by (simp add: rotateFileIfNeeded_def lockMu_def split: sum.splits)
  moreover have "openLogFile E (filePath (m_config (ls_mgr ?s0))) ?s0 = (r, s1)" using o s0(3) by simp
  note comes_to_step [OF watch_step.moved [OF assms(1) Some] _ comes_to_open [OF s0(1,2) this]]
  ultimately show ?thesis by (simp add: Let_def cong: sum.case_cong if_cong)
qed

subsection \<open>Nothing is logged any more\<close>

lemma stuck_step:
  assumes "watch_step E c ev c'" and "stuck c"
  shows "stuck c' \<and> fst c' = fst c \<and> (\<exists>i e. ev = Other (Wrote i e)) \<and>
    length (concat (map sw_batch (workers_of (snd c)))) = Suc (length (concat (map sw_batch (workers_of (snd c')))))"
  using assms(1)
proof (cases rule: watch_step.cases)
  case (other s ev' s' pc)
  have mu: "ls_mu s" using assms(2) other(1) by (simp add: stuck_def)
  from other(4) show ?thesis
  proof (cases rule: log_step.cases)
    case (wrote i sw e es)
    let ?bs = "map sw_batch (workers_of s)"
    have i: "?bs = take i ?bs @ (e # es) # drop (Suc i) ?bs" using wrote(3-5) id_take_nth_drop [of i ?bs] by simp
    have "map sw_batch (workers_of s') = ?bs[i := es]" using wrote(2,4) by (simp add: setWorker_def map_update)
    also have "\<dots> = take i ?bs @ es # drop (Suc i) ?bs" using wrote(3) by (simp add: upd_conv_take_nth_drop)
    finally have "length (concat ?bs) = Suc (length (concat (map sw_batch (workers_of s'))))" by (subst i) simp
    then show ?thesis using assms(2) other(1-3) wrote(1,2) by (auto simp: stuck_def setWorker_def)
  qed (use mu in simp_all)
qed (use assms(2) in \<open>auto simp: stuck_def logPrintf_held\<close>)

lemma stuck_run:
  "watch_run E c tr c' \<Longrightarrow> stuck c \<Longrightarrow> stuck c' \<and> fst c' = fst c \<and> (\<forall>ev \<in> set tr. \<exists>i e. ev = Other (Wrote i e)) \<and>
     length (concat (map sw_batch (workers_of (snd c)))) = length tr + length (concat (map sw_batch (workers_of (snd c'))))"
proof (induction rule: watch_run.induct)
  case (further tr c1 ev c2)
  then show ?case using stuck_step [OF further(2)] by auto
qed simp

lemma stuck_blocks: "stuck (pc, s) \<Longrightarrow> enqueue E e s = None"
  by (simp add: stuck_def enqueue_def lockMu_def)

text \<open>
  C20: The rotation can freeze all logging. When the size limit is reached and the file cannot be
  reopened, or the directory holds more rotated files than are to be kept, the watcher can come to a
  point, holding the mutex, from which nothing goes on: it stays there for ever, every producer
  that logs blocks, and the workers only finish the batches they have in hand.
\<close>
theorem rotation_freezes:
  assumes "\<not> ls_mu s" and "m_logger (ls_mgr s) = Some lg" and "rotationDue E s = Some f"
    and "path = filePath (m_config (ls_mgr s))" and "keep = fileMaxFiles (m_config (ls_mgr s))"
    and "openLogFile E path (moveAside E f (s\<lparr>ls_mu := True\<rparr>)) = (r, s1)"
    and "r = Inr () \<longrightarrow> 0 < keep \<and> (\<exists>entries. os_readDir E (dirName path) (ls_world s1) = Some entries \<and>
      nat keep < length (rotatedNames (baseName path) entries))"
  shows "\<exists>tr pc s2. watch_run E (Waiting, s) tr (pc, s2) \<and> (\<forall>tr' pc' s3. watch_run E (pc, s2) tr' (pc', s3) \<longrightarrow>
    pc' = pc \<and> (\<forall>e. enqueue E e s3 = None) \<and> (\<forall>ev \<in> set tr'. \<exists>i e. ev = Other (Wrote i e)) \<and>
    length tr' \<le> length (concat (map sw_batch (workers_of s2))))"
proof -
  have "rotateFileIfNeeded E s = None"
  proof (cases r)
    case (Inl err)
    then show ?thesis using rotate_open [OF assms(2,3) assms(6) [unfolded assms(4)]] assms(1)
      by (simp add: rotateFileIfNeeded_def lockMu_def)
  next
    case (Inr u)
    then obtain entries where e: "os_readDir E (dirName path) (ls_world s1) = Some entries" "0 < keep"
      "nat keep < length (rotatedNames (baseName path) entries)" using assms(7) by auto
    show ?thesis using rotate_blocks [OF assms(1-5) _ e(1)] assms(6) Inr e(2,3) by simp
  qed
  with rotation_undisturbed [OF assms(1), of E] assms(2) obtain tr pc s2 where
    run: "watch_run E (Waiting, s) tr (pc, s2)" and st: "stuck (pc, s2)" by (fastforce simp: comes_to_def)
  have "pc' = pc \<and> (\<forall>e. enqueue E e s3 = None) \<and> (\<forall>ev \<in> set tr'. \<exists>i e. ev = Other (Wrote i e)) \<and>
      length tr' \<le> length (concat (map sw_batch (workers_of s2)))" if "watch_run E (pc, s2) tr' (pc', s3)" for tr' pc' s3
  proof -
    note r = stuck_run [OF that st]
    then have "stuck (pc', s3)" by blast
    from stuck_blocks [OF this, of E] r show ?thesis by simp
  qed
  with run show ?thesis by blast
qed

text \<open>
  C21: A rotation can lose an event that a worker has already taken. While the file is swapped, a worker
  that is in the middle of a batch goes on writing to the old descriptor, which is closed: its next
  event is gone from the batch, and the write comes after the close and the renaming, before any
  file is open.
\<close>
theorem rotation_writes_closed:
  assumes "\<not> ls_mu s" and "rotationDue E s = Some f" and "i < length (workers_of s)"
    and "sw_handler (workers_of s ! i) = StructuredHandler (FileWriter f) v" and "sw_batch (workers_of s ! i) = e # es"
    and "path = filePath (m_config (ls_mgr s))"
  shows "\<exists>s'. watch_run E (Waiting, s) [Moved f, Other (Wrote i e)] (Aside, s') \<and> m_logFile (ls_mgr s') = None \<and>
    sw_batch (workers_of s' ! i) = es \<and>
    ls_world s' = (let w = os_closeFile E f (ls_world s) in
      os_fileWrite E f (os_textLine E replaceSlogAttr v (toRecord e))
        (os_rename E path (path @ ''.'' @ fileStamp (os_now E w)) w))"
proof -
  let ?s0 = "moveAside E f (s\<lparr>ls_mu := True\<rparr>)"
  let ?sw = "workers_of s ! i"
  let ?s1 = "setWorker i (?sw\<lparr>sw_batch := es\<rparr>) (?s0\<lparr>ls_world := handleEvent E (sw_handler ?sw) e (ls_world ?s0)\<rparr>)"
  have ws: "workers_of ?s0 = workers_of s" by (simp add: moveAside_def Let_def)
  have "log_step E ?s0 (Wrote i e) ?s1"
    by (rule log_step.wrote) (use assms(3,5) ws in simp_all)
  then have "watch_run E (Waiting, s) [Moved f, Other (Wrote i e)] (Aside, ?s1)"
    by (intro watch_run_first [OF watch_step.moved [OF assms(1,2)]] watch_run_one watch_step.other)
  moreover have "m_logFile (ls_mgr ?s1) = None" "sw_batch (workers_of ?s1 ! i) = es"
    using assms(3) ws by (simp_all add: setWorker_def moveAside_def Let_def)
  moreover have "ls_world ?s1 = (let w = os_closeFile E f (ls_world s) in
      os_fileWrite E f (os_textLine E replaceSlogAttr v (toRecord e))
        (os_rename E path (path @ ''.'' @ fileStamp (os_now E w)) w))"
    using assms(4,6) by (simp add: setWorker_def moveAside_def handleEvent_def Let_def)
  ultimately show ?thesis by blast
qed

theorem rotation_freezes_witness:
  "\<exists>tr pc s2. watch_run demo_os (Waiting, demo_rotating) tr (pc, s2) \<and> enqueue demo_os (demo_event ''a'') s2 = None"
proof -
  obtain s1 where o: "openLogFile demo_os ''sync.log'' (moveAside demo_os 3 (demo_rotating\<lparr>ls_mu := True\<rparr>)) = (Inr (), s1)"
    by (simp add: openLogFile_def demo_os_def)
  have dir: "os_readDir demo_os (dirName ''sync.log'') (ls_world s1) =
      Some (map (\<lambda>k. (''sync.log.'' @ itoa k, False)) [0..<11])" by (simp add: demo_os_def)
  have full: "\<exists>entries. os_readDir demo_os (dirName ''sync.log'') (ls_world s1) = Some entries \<and>
      nat 10 < length (rotatedNames (baseName ''sync.log'') entries)"
    by (rule exI, rule conjI [OF dir]) (unfold demo_crowded, simp)
  have conf: "filePath (m_config (ls_mgr demo_rotating)) = ''sync.log''" "fileMaxFiles (m_config (ls_mgr demo_rotating)) = 10"
    "\<not> ls_mu demo_rotating" by (simp_all add: demo_rotating_simps DefaultConfig_def)
  obtain tr pc s2 where
    "watch_run demo_os (Waiting, demo_rotating) tr (pc, s2)"
    and "\<forall>tr' pc' s3. watch_run demo_os (pc, s2) tr' (pc', s3) \<longrightarrow> pc' = pc \<and> (\<forall>e. enqueue demo_os e s3 = None)"
    using rotation_freezes [OF conf(3) demo_rotating_simps(2) demo_due conf(1) [symmetric] conf(2) [symmetric] o] full by auto
  then show ?thesis using watch_run.begun by blast
qed

text \<open>The file's worker has taken an event and not yet written it.\<close>

definition demo_busy :: "string list log_state" where
  "demo_busy = setWorker 0 ((newSinkWorker SinkFile 0 (newStructuredHandler (FileWriter 3) False))\<lparr>sw_batch := [numbered 0 (demo_event ''a'')]\<rparr>)
     demo_rotating"

theorem rotation_writes_closed_witness:
  "\<exists>s'. watch_run demo_os (Waiting, demo_busy) [Moved 3, Other (Wrote 0 (numbered 0 (demo_event ''a'')))] (Aside, s') \<and>
     m_logFile (ls_mgr s') = None \<and> sw_batch (workers_of s' ! 0) = []"
proof -
  have "rotationDue demo_os demo_busy = Some 3" 
    by (simp add: rotationDue_def demo_busy_def setWorker_def demo_rotating_simps demo_os_def DefaultConfig_def maxBytes_def int64_def)
  moreover have "workers_of demo_rotating \<noteq> []" by (simp add: demo_rotating_def demo_log_def)
  moreover have "\<not> ls_mu demo_busy" by (simp add: demo_busy_def setWorker_def demo_rotating_simps)
  ultimately show ?thesis
    using rotation_writes_closed [of demo_busy demo_os 3 0 False "numbered 0 (demo_event ''a'')" "[]"]
    by (auto simp: demo_busy_def setWorker_def newSinkWorker_def newStructuredHandler_def)
qed

end
