(* ===== verification/App_System.thy ===== *)
theory App_System
  imports Web_Props
begin

text \<open>
  The running program: requests, triggers of the cron runner, the queue's worker and the goroutines
  that requests start, all acting on one database, one scheduler and one world. A step is a whole
  request or a whole run of a job; what the steps leave of the database between them is what a
  sequence of store operations leaves, so the invariants of the store hold throughout.
\<close>

subsection \<open>Events\<close>

text \<open>\<open>Goroutine n\<close> is the \<open>n\<close>-th of the goroutines that were started and have not yet run.\<close>

datatype app_ev = Request http_in | Fired nat | Worked | Goroutine nat

definition onSched :: "'c web_env \<Rightarrow> sched_op \<Rightarrow> 'c app \<Rightarrow> 'c app" where
  "onSched W op a = (case sched_do (we_cron W) (we_sync W) op (ap_sched a, ap_world a) of
     (s, w) \<Rightarrow> a\<lparr>ap_sched := s, ap_world := w\<rparr>)"

definition runSpawned :: "'c web_env \<Rightarrow> nat \<Rightarrow> 'c app \<Rightarrow> 'c app" where
  "runSpawned W n a =
     (if n < length (ap_spawned a)
      then a\<lparr>ap_spawned := take n (ap_spawned a) @ drop (Suc n) (ap_spawned a),
             ap_world := snd (run (we_sync W) (ap_spawned a ! n) (ap_world a))\<rparr>
      else a)"

fun appDo :: "'c web_env \<Rightarrow> app_ev \<Rightarrow> 'c app \<Rightarrow> 'c app" where
  "appDo W (Request r) a = snd (serve W r a)"
| "appDo W (Fired i) a = onSched W (Fire i) a"
| "appDo W Worked a = onSched W Work a"
| "appDo W (Goroutine n) a = runSpawned W n a"

subsection \<open>The database changes by store operations only\<close>

definition via :: "dbenv \<Rightarrow> db \<Rightarrow> db \<Rightarrow> bool" where
  "via E s s' \<longleftrightarrow> (\<exists>ops. s' = fold (db_do E) ops s)"

lemma via_refl [simp]: "via E s s"
  unfolding via_def by (rule exI [of _ "[]"]) simp

lemma via_trans: "via E s s1 \<Longrightarrow> via E s1 s2 \<Longrightarrow> via E s s2"
  unfolding via_def by (metis fold_append comp_apply)

lemma via_op: "x = (r, s') \<Longrightarrow> db_do E op s = snd x \<Longrightarrow> via E s s'"
  unfolding via_def by (rule exI [of _ "[op]"]) simp

lemma via_queries:
  "listControllers E s = (r1, s') \<Longrightarrow> via E s s'" "getController E i s = (r2, s') \<Longrightarrow> via E s s'"
  "listJobs E s = (r3, s') \<Longrightarrow> via E s s'" "getJob E i s = (r4, s') \<Longrightarrow> via E s s'"
  "getRunLogs E i n s = (r5, s') \<Longrightarrow> via E s s'" "listDNSServers E s = (r6, s') \<Longrightarrow> via E s s'"
  "getDNSServer E i s = (r7, s') \<Longrightarrow> via E s s'" "listEnabledDNSServerAddresses E s = (r8, s') \<Longrightarrow> via E s s'"
  "listObservedIPs E i t s = (r9, s') \<Longrightarrow> via E s s'"
  by (erule via_op, rule db_do.simps)+

lemma via_updates:
  "createController E c s = (r1, s') \<Longrightarrow> via E s s'" "updateController E c s = (r2, s') \<Longrightarrow> via E s s'"
  "deleteController E i s = (r3, s') \<Longrightarrow> via E s s'" "createJob E j s = (r4, s') \<Longrightarrow> via E s s'"
  "updateJob E j s = (r5, s') \<Longrightarrow> via E s s'" "deleteJob E i s = (r6, s') \<Longrightarrow> via E s s'"
  "updateJobLastRun E i t m s = (r7, s') \<Longrightarrow> via E s s'" "createRunLog E l s = (r8, s') \<Longrightarrow> via E s s'"
  "updateRunLog E l s = (r9, s') \<Longrightarrow> via E s s'" "createDNSServer E d s = (r10, s') \<Longrightarrow> via E s s'"
  "updateDNSServer E d s = (r11, s') \<Longrightarrow> via E s s'" "deleteDNSServer E i s = (r12, s') \<Longrightarrow> via E s s'"
  "upsertObservedIPs E i hostIPs t s = (r13, s') \<Longrightarrow> via E s s'" "deleteExpiredObservedIPs E i t s = (r14, s') \<Longrightarrow> via E s s'"
  "deleteObservedIPs E i s = (r15, s') \<Longrightarrow> via E s s'"
  by (erule via_op, rule db_do.simps)+

lemmas via_store = via_queries via_updates

lemma resolveJob_via: "resolveJob E job w = (r, w') \<Longrightarrow> via (e_db E) (w_db w) (w_db w')"
  by (auto simp: resolveJob_def withDb_def dest!: via_store split: prod.splits sum.splits if_splits)

lemma retainIPs_via: "retainIPs E job m w = (r, w') \<Longrightarrow> via (e_db E) (w_db w) (w_db w')"
  by (auto simp: retainIPs_def withDb_def Let_def dest!: via_store split: prod.splits sum.splits if_splits)
    (meson via_trans)+

lemma pushIPs_via: "pushIPs E job m w = (r, w') \<Longrightarrow> via (e_db E) (w_db w) (w_db w')"
  by (auto simp: pushIPs_def withDb_def Let_def dest!: via_store split: prod.splits sum.splits if_splits)

lemma execute_via: "execute E job w = (r, w') \<Longrightarrow> via (e_db E) (w_db w) (w_db w')"
  by (auto simp: execute_def dest!: resolveJob_via retainIPs_via pushIPs_via split: prod.splits sum.splits intro: via_trans)

lemma runJob_via: "runJob E j w = (r, w') \<Longrightarrow> via (e_db E) (w_db w) (w_db w')"
  by (auto simp: runJob_def withDb_def Let_def dest!: via_store execute_via split: prod.splits sum.splits)
    (meson via_trans)+

lemma run_via: "via (e_db E) (w_db w) (w_db (snd (run E j w)))"
  by (auto simp: run_def dest!: runJob_via split: prod.splits)

lemma reload_via: "reload L E j (s, d) = (s', d') \<Longrightarrow> via E d d'"
  by (auto simp: reload_def Let_def dest!: via_store split: prod.splits sum.splits if_splits)

lemma keptKey_via: "keptKey W i c a = (r, a') \<Longrightarrow> via (dbOf W) (w_db (ap_world a)) (w_db (ap_world a'))"
  by (auto simp: keptKey_def onStore_def dest!: via_store split: prod.splits sum.splits if_splits)

lemma completeTest_via: "completeTest W q a = (r, a') \<Longrightarrow> via (dbOf W) (w_db (ap_world a)) (w_db (ap_world a'))"
  by (auto simp: completeTest_def onStore_def dest!: via_store split: prod.splits sum.splits if_splits)

lemma withHttp_db: "withHttp f a = (r, a') \<Longrightarrow> w_db (ap_world a') = w_db (ap_world a)"
  by (drule withHttpD) simp

lemma reloadH_via: "via (dbOf W) (w_db (ap_world a)) (w_db (ap_world (reloadH W i a)))"
  by (auto simp: reloadH_def dest!: reload_via split: prod.splits)

abbreviation app_via :: "'c web_env \<Rightarrow> 'c app \<Rightarrow> 'c app \<Rightarrow> bool" where
  "app_via W a a' \<equiv> via (dbOf W) (w_db (ap_world a)) (w_db (ap_world a'))"

lemma controller_handlers_via:
  "listControllersH W r a = (rep, a') \<Longrightarrow> app_via W a a'" "createControllerH W r a = (rep, a') \<Longrightarrow> app_via W a a'"
  "getControllerH v W r a = (rep, a') \<Longrightarrow> app_via W a a'" "deleteControllerH v W r a = (rep, a') \<Longrightarrow> app_via W a a'"
  by (auto simp: listControllersH_def createControllerH_def getControllerH_def deleteControllerH_def onStore_def
      dest!: via_store split: option.splits prod.splits sum.splits if_splits)

lemma updateControllerH_via: "updateControllerH v W r a = (rep, a') \<Longrightarrow> app_via W a a'"
  by (auto simp: updateControllerH_def onStore_def Let_def dest!: via_store keptKey_via
      split: option.splits prod.splits sum.splits if_splits) (meson via_trans)+

lemma http_handlers_via:
  "testController W r a = (rep, a') \<Longrightarrow> app_via W a a'" "listNetworkListsH v W r a = (rep, a') \<Longrightarrow> app_via W a a'"
  "resolveHostnamesH W r a = (rep, a') \<Longrightarrow> app_via W a a'" "health W r a = (rep, a') \<Longrightarrow> app_via W a a'"
  by (auto simp: testController_def listNetworkListsH_def resolveHostnamesH_def health_def onStore_def Let_def
      dest!: via_store completeTest_via withHttp_db split: option.splits prod.splits sum.splits if_splits)

lemma dns_handlers_via:
  "listDNSServersH W r a = (rep, a') \<Longrightarrow> app_via W a a'" "createDNSServerH W r a = (rep, a') \<Longrightarrow> app_via W a a'"
  "getDNSServerH v W r a = (rep, a') \<Longrightarrow> app_via W a a'" "updateDNSServerH v W r a = (rep, a') \<Longrightarrow> app_via W a a'"
  "deleteDNSServerH v W r a = (rep, a') \<Longrightarrow> app_via W a a'"
  by (auto simp: listDNSServersH_def createDNSServerH_def getDNSServerH_def updateDNSServerH_def deleteDNSServerH_def
      onStore_def dest!: via_store split: option.splits prod.splits sum.splits if_splits)

lemma job_reads_via:
  "listJobsH W r a = (rep, a') \<Longrightarrow> app_via W a a'" "getJobH v W r a = (rep, a') \<Longrightarrow> app_via W a a'"
  "runJobH v W r a = (rep, a') \<Longrightarrow> app_via W a a'" "getJobLogs v W r a = (rep, a') \<Longrightarrow> app_via W a a'"
  "deleteJobH v W r a = (rep, a') \<Longrightarrow> app_via W a a'"
  by (auto simp: listJobsH_def getJobH_def runJobH_def getJobLogs_def deleteJobH_def onStore_def Let_def
      dest!: via_store split: option.splits prod.splits sum.splits if_splits)

lemma onStore_via:
  "onStore f a = (x, a') \<Longrightarrow> (\<And>d y d'. f d = (y, d') \<Longrightarrow> via (dbOf W) d d') \<Longrightarrow> app_via W a a'"
  by (auto simp: onStore_def split: prod.splits)

lemma onStore_job_via:
  "onStore (createJob (dbOf W) j) a = (x, a') \<Longrightarrow> app_via W a a'"
  "onStore (updateJob (dbOf W) j) a = (y, a') \<Longrightarrow> app_via W a a'"
  by (erule onStore_via, erule via_updates)+

lemma job_writes_via:
  "createJobH W r a = (rep, a') \<Longrightarrow> app_via W a a'" "updateJobH v W r a = (rep, a') \<Longrightarrow> app_via W a a'"
  by (auto simp: createJobH_def updateJobH_def dest!: onStore_job_via
      intro: via_trans [OF _ reloadH_via] split: option.splits prod.splits sum.splits if_splits)

lemmas handlers_via = controller_handlers_via updateControllerH_via http_handlers_via dns_handlers_via job_reads_via
  job_writes_via

lemma serve_via:
  assumes "serve W r a = (rep, a')"
  shows "app_via W a a'"
  using assms
proof (rule serve_induct)
  fix m ps h
  assume "(m, ps, h) \<in> set routes" "h (pathValue ps (hr_path r)) W r a = (rep, a')"
  then show ?thesis
    unfolding routes_def by (simp, elim disjE conjE) (simp_all add: handlers_via)
qed simp_all

lemma appDo_via: "app_via W a (appDo W ev a)"
proof (cases ev)
  case (Request r)
  then show ?thesis using serve_via [of W r a] by (cases "serve W r a") simp
qed (auto simp: onSched_def sched_do_def runSpawned_def dbOf_def run_via split: list.splits)

subsection \<open>A run of a job leaves what is scheduled alone\<close>

lemma row_of_map_all:
  "(\<And>r. rid (f r) = rid r) \<Longrightarrow> row_of rid (map f rows) i = map_option f (row_of rid rows i)"
  by (induction rows) (simp_all add: row_of_def)

definition same_plans :: "db \<Rightarrow> db \<Rightarrow> bool" where
  "same_plans s s' \<longleftrightarrow> viewJob s' = viewJob s \<and> schema s' = schema s"

lemma same_plans_trans: "same_plans s s1 \<Longrightarrow> same_plans s1 s2 \<Longrightarrow> same_plans s s2"
  by (simp add: same_plans_def)

lemma same_plans_exec:
  assumes "\<And>ctx s1 y s'. f ctx s1 = (Inr y, s') \<Longrightarrow> same_plans s1 s'"
  shows "same_plans s (snd (dbExec E objs f s))"
  by (rule dbExec_inv [where P = "same_plans s"]) (auto simp: same_plans_def dest: assms [unfolded same_plans_def])

lemma job_content_run: "jobRowContent (r\<lparr>r_lastRunAt := a, r_lastResult := b, r_updatedAt := c\<rparr>) = jobRowContent r"
  by (simp add: jobRowContent_def)

lemma run_ops_plans:
  "updateJobLastRun E j t m s = (r1, s') \<Longrightarrow> same_plans s s'" "createRunLog E l s = (r2, s') \<Longrightarrow> same_plans s s'"
  "updateRunLog E l s = (r3, s') \<Longrightarrow> same_plans s s'" "getJob E j s = (r4, s') \<Longrightarrow> same_plans s s'"
proof -
  have "same_plans s (snd (updateJobLastRun E j t m s))"
    unfolding updateJobLastRun_def
    by (rule same_plans_exec)
      (auto simp: same_plans_def viewJob_def fun_eq_iff row_of_map_all option.map_comp comp_def job_content_run if_distrib
        cong: if_cong)
  moreover have "same_plans s (snd (createRunLog E l s))" "same_plans s (snd (updateRunLog E l s))"
    unfolding createRunLog_def updateRunLog_def
    by (rule same_plans_exec; auto simp: same_plans_def viewJob_def split: sum.splits if_splits)+
  ultimately show "updateJobLastRun E j t m s = (r1, s') \<Longrightarrow> same_plans s s'"
    "createRunLog E l s = (r2, s') \<Longrightarrow> same_plans s s'" "updateRunLog E l s = (r3, s') \<Longrightarrow> same_plans s s'"
    by simp_all
  show "getJob E j s = (r4, s') \<Longrightarrow> same_plans s s'"
    by (auto simp: getJob_def same_plans_def dest!: dbQuery_frame)
qed

lemma execute_plans: "execute E job w = (r, w') \<Longrightarrow> same_plans (w_db w) (w_db w')"
  by (drule execute_frame) (simp add: only_cache_def same_plans_def viewJob_def fun_eq_iff)

lemma runJob_plans: "runJob E j w = (r, w') \<Longrightarrow> same_plans (w_db w) (w_db w')"
  by (auto simp: runJob_def withDb_def Let_def dest!: run_ops_plans execute_plans split: prod.splits sum.splits)
    (meson same_plans_trans)+

lemma run_plans: "same_plans (w_db w) (w_db (snd (run E j w)))"
  by (auto simp: run_def dest!: runJob_plans split: prod.splits) (simp add: same_plans_def)

subsection \<open>What requests do to the scheduler\<close>

lemma onStore_sched: "onStore f a = (r, a') \<Longrightarrow> ap_sched a' = ap_sched a"
  by (auto simp: onStore_def split: prod.splits)

lemma withHttp_sched: "withHttp f a = (r, a') \<Longrightarrow> ap_sched a' = ap_sched a"
  by (auto simp: withHttp_def split: prod.splits)

lemma keptKey_sched: "keptKey W i c a = (r, a') \<Longrightarrow> ap_sched a' = ap_sched a"
  by (auto simp: keptKey_def dest: onStore_sched split: if_splits prod.splits sum.splits)

lemma completeTest_sched: "completeTest W q a = (r, a') \<Longrightarrow> ap_sched a' = ap_sched a"
  by (auto simp: completeTest_def dest: onStore_sched split: if_splits prod.splits sum.splits)

abbreviation closing :: "'c app \<Rightarrow> bool" where
  "closing a \<equiv> sd_stopQ (ap_sched a)"

lemma reloadH_closing: "cron_ok (we_cron W) \<Longrightarrow> closing (reloadH W i a) = closing a"
  using reload_frame [of "we_cron W" "dbOf W" i "ap_sched a" "w_db (ap_world a)"]
  by (auto simp: reloadH_def split: prod.splits)

lemma removed_closing: "cron_ok (we_cron W) \<Longrightarrow> sd_stopQ (remove (we_cron W) i s) = sd_stopQ s"
  by (simp add: remove_def unschedule_frame)

text \<open>Whether the cron runner still fires.\<close>

abbreviation ticks :: "'c web_env \<Rightarrow> 'c app \<Rightarrow> bool" where
  "ticks W a \<equiv> ticking (we_cron W) (sd_cron (ap_sched a))"

lemma reloadH_ticking: "cron_ok (we_cron W) \<Longrightarrow> ticks W (reloadH W i a) = ticks W a"
  using reload_frame [of "we_cron W" "dbOf W" i "ap_sched a" "w_db (ap_world a)"]
  by (auto simp: reloadH_def split: prod.splits)

lemma removed_ticking: "cron_ok L \<Longrightarrow> ticking L (sd_cron (remove L i s)) = ticking L (sd_cron s)"
  by (simp add: remove_def unschedule_frame)

lemma reads_sched:
  "listControllersH W r a = (rep, a') \<Longrightarrow> ap_sched a' = ap_sched a" "createControllerH W r a = (rep, a') \<Longrightarrow> ap_sched a' = ap_sched a"
  "getControllerH v W r a = (rep, a') \<Longrightarrow> ap_sched a' = ap_sched a" "deleteControllerH v W r a = (rep, a') \<Longrightarrow> ap_sched a' = ap_sched a"
  "listJobsH W r a = (rep, a') \<Longrightarrow> ap_sched a' = ap_sched a" "getJobH v W r a = (rep, a') \<Longrightarrow> ap_sched a' = ap_sched a"
  "runJobH v W r a = (rep, a') \<Longrightarrow> ap_sched a' = ap_sched a" "getJobLogs v W r a = (rep, a') \<Longrightarrow> ap_sched a' = ap_sched a"
  by (auto simp: listControllersH_def createControllerH_def getControllerH_def deleteControllerH_def listJobsH_def getJobH_def
      runJobH_def getJobLogs_def dest!: onStore_sched split: option.splits prod.splits sum.splits if_splits)

lemma http_sched:
  "updateControllerH v W r a = (rep, a') \<Longrightarrow> ap_sched a' = ap_sched a"
  "testController W r a = (rep, a') \<Longrightarrow> ap_sched a' = ap_sched a"
  "listNetworkListsH v W r a = (rep, a') \<Longrightarrow> ap_sched a' = ap_sched a"
  "resolveHostnamesH W r a = (rep, a') \<Longrightarrow> ap_sched a' = ap_sched a"
  "health W r a = (rep, a') \<Longrightarrow> ap_sched a' = ap_sched a"
  by (auto simp: updateControllerH_def testController_def listNetworkListsH_def resolveHostnamesH_def health_def Let_def
      dest!: onStore_sched withHttp_sched keptKey_sched completeTest_sched
      split: option.splits prod.splits sum.splits if_splits)

lemma dns_sched:
  "listDNSServersH W r a = (rep, a') \<Longrightarrow> ap_sched a' = ap_sched a" "createDNSServerH W r a = (rep, a') \<Longrightarrow> ap_sched a' = ap_sched a"
  "getDNSServerH v W r a = (rep, a') \<Longrightarrow> ap_sched a' = ap_sched a" "updateDNSServerH v W r a = (rep, a') \<Longrightarrow> ap_sched a' = ap_sched a"
  "deleteDNSServerH v W r a = (rep, a') \<Longrightarrow> ap_sched a' = ap_sched a"
  by (auto simp: listDNSServersH_def createDNSServerH_def getDNSServerH_def updateDNSServerH_def deleteDNSServerH_def
      dest!: onStore_sched split: option.splits prod.splits sum.splits if_splits)

lemma job_closing:
  assumes "cron_ok (we_cron W)"
  shows "createJobH W r a = (rep, a') \<Longrightarrow> closing a' = closing a" "updateJobH v W r a = (rep, a') \<Longrightarrow> closing a' = closing a"
    "deleteJobH v W r a = (rep, a') \<Longrightarrow> closing a' = closing a"
  using assms by (auto simp: createJobH_def updateJobH_def deleteJobH_def Let_def reloadH_closing removed_closing
      dest!: onStore_sched split: option.splits prod.splits sum.splits if_splits)

lemmas handlers_sched = reads_sched http_sched dns_sched

lemma serve_closing:
  assumes "cron_ok (we_cron W)" and "serve W r a = (rep, a')"
  shows "closing a' = closing a"
  using assms(2)
proof (rule serve_induct)
  fix m ps h
  assume "(m, ps, h) \<in> set routes" "h (pathValue ps (hr_path r)) W r a = (rep, a')"
  then show ?thesis
    unfolding routes_def
    by (simp, elim disjE conjE) (simp_all add: handlers_sched job_closing [OF assms(1)])
qed simp_all

lemma job_ticking:
  assumes "cron_ok (we_cron W)"
  shows "createJobH W r a = (rep, a') \<Longrightarrow> ticks W a' = ticks W a" "updateJobH v W r a = (rep, a') \<Longrightarrow> ticks W a' = ticks W a"
    "deleteJobH v W r a = (rep, a') \<Longrightarrow> ticks W a' = ticks W a"
  using assms by (auto simp: createJobH_def updateJobH_def deleteJobH_def Let_def reloadH_ticking removed_ticking
      dest!: onStore_sched split: option.splits prod.splits sum.splits if_splits)

lemma serve_ticking:
  assumes "cron_ok (we_cron W)" and "serve W r a = (rep, a')"
  shows "ticks W a' = ticks W a"
  using assms(2)
proof (rule serve_induct)
  fix m ps h
  assume "(m, ps, h) \<in> set routes" "h (pathValue ps (hr_path r)) W r a = (rep, a')"
  then show ?thesis
    unfolding routes_def
    by (simp, elim disjE conjE) (simp_all add: handlers_sched job_ticking [OF assms(1)])
qed simp_all

lemma job_sched_inv:
  assumes "cron_ok (we_cron W)" and "sched_inv (we_cron W) (ap_sched a)"
  shows "createJobH W r a = (rep, a') \<Longrightarrow> sched_inv (we_cron W) (ap_sched a')"
    "updateJobH v W r a = (rep, a') \<Longrightarrow> sched_inv (we_cron W) (ap_sched a')"
    "deleteJobH v W r a = (rep, a') \<Longrightarrow> sched_inv (we_cron W) (ap_sched a')"
proof -
  have re: "sched_inv (we_cron W) (ap_sched (reloadH W i b))" if "ap_sched b = ap_sched a" for i b
  proof -
    obtain s d where r: "reload (we_cron W) (dbOf W) i (ap_sched b, w_db (ap_world b)) = (s, d)" by fastforce
    have "sched_ok (we_cron W) s" using reload_spec [OF assms(1) _ r] assms(2) that by (simp add: sched_inv_def)
    moreover have "sd_workQ s = sd_workQ (ap_sched a)" using reload_frame [OF assms(1) r] that by simp
    ultimately show ?thesis using assms(2) by (simp add: reloadH_def r sched_inv_def)
  qed
  have rm: "sched_inv (we_cron W) (remove (we_cron W) i (ap_sched a))" for i
    using assms(2) unschedule_spec [OF assms(1), of "ap_sched a" i] unschedule_frame [OF assms(1), of i "ap_sched a"]
    by (simp add: remove_def sched_inv_def)
  have same: "sched_inv (we_cron W) (ap_sched b)" if "ap_sched b = ap_sched a" for b using assms(2) that by simp
  show "createJobH W r a = (rep, a') \<Longrightarrow> sched_inv (we_cron W) (ap_sched a')"
    by (auto simp: createJobH_def assms(2) intro: re same dest!: onStore_sched split: option.splits prod.splits sum.splits if_splits)
  show "updateJobH v W r a = (rep, a') \<Longrightarrow> sched_inv (we_cron W) (ap_sched a')"
    by (auto simp: updateJobH_def assms(2) intro: re same dest!: onStore_sched split: option.splits prod.splits sum.splits)
  show "deleteJobH v W r a = (rep, a') \<Longrightarrow> sched_inv (we_cron W) (ap_sched a')"
    by (auto simp: deleteJobH_def Let_def assms(2) rm intro: same dest!: onStore_sched split: option.splits prod.splits sum.splits)
qed

lemma serve_sched_inv:
  assumes "cron_ok (we_cron W)" and "sched_inv (we_cron W) (ap_sched a)" and "serve W r a = (rep, a')"
  shows "sched_inv (we_cron W) (ap_sched a')"
  using assms(3)
proof (rule serve_induct)
  fix m ps h
  assume "(m, ps, h) \<in> set routes" "h (pathValue ps (hr_path r)) W r a = (rep, a')"
  then show ?thesis
    using assms(2) unfolding routes_def
    by (simp, elim disjE conjE) (simp_all add: handlers_sched job_sched_inv [OF assms(1,2)])
qed (use assms(2) in simp_all)

subsection \<open>The invariant of the running program\<close>

definition sys_inv :: "'c web_env \<Rightarrow> 'c app \<Rightarrow> bool" where
  "sys_inv W a \<longleftrightarrow> sched_inv (we_cron W) (ap_sched a) \<and> \<not> closing a"

lemma onSched_inv:
  assumes "cron_ok (we_cron W)" and "op = Fire i \<or> op = Work"
  shows "sys_inv W a \<Longrightarrow> sys_inv W (onSched W op a)" and "app_inv W a \<Longrightarrow> app_inv W (onSched W op a)"
proof -
  obtain s w where d: "sched_do (we_cron W) (we_sync W) op (ap_sched a, ap_world a) = (s, w)" by fastforce
  have q: "sd_cron s = sd_cron (ap_sched a)" "sd_entries s = sd_entries (ap_sched a)" "sd_stopQ s = sd_stopQ (ap_sched a)"
    using assms(2) d by (auto simp: sched_do_def trigger_def split: option.splits list.splits if_splits)
  have w: "same_plans (w_db (ap_world a)) (w_db w)"
    using assms(2) d run_plans by (auto simp: sched_do_def same_plans_def split: list.splits)
  show "sys_inv W a \<Longrightarrow> sys_inv W (onSched W op a)"
    using sched_do_inv [OF assms(1) _ d] q(3) by (simp add: sys_inv_def onSched_def d)
  have "db_ok (w_db (ap_world a)) \<Longrightarrow> db_ok (w_db w)"
    using appDo_via [of W a "case op of Fire i \<Rightarrow> Fired i | _ \<Rightarrow> Worked"] assms(2) d db_ok_fold
    by (auto simp: via_def onSched_def)
  then show "app_inv W a \<Longrightarrow> app_inv W (onSched W op a)"
    using q w by (auto simp: app_inv_def follows_def onSched_def d sched_ok_def planned_def same_plans_def wanted_def
        intro: db_calm_schema cong: option.case_cong)
qed

lemma runSpawned_inv:
  "sys_inv W a \<Longrightarrow> sys_inv W (runSpawned W n a)" "app_inv W a \<Longrightarrow> app_inv W (runSpawned W n a)"
proof -
  show "sys_inv W a \<Longrightarrow> sys_inv W (runSpawned W n a)" by (simp add: sys_inv_def runSpawned_def)
  have "db_ok (w_db (ap_world a)) \<Longrightarrow> db_ok (w_db (ap_world (runSpawned W n a)))"
    using appDo_via [of W a "Goroutine n"] db_ok_fold by (auto simp: via_def)
  moreover have "same_plans (w_db (ap_world a)) (w_db (ap_world (runSpawned W n a)))"
    using run_plans by (auto simp: runSpawned_def same_plans_def)
  ultimately show "app_inv W a \<Longrightarrow> app_inv W (runSpawned W n a)"
    by (auto simp: app_inv_def follows_def same_plans_def wanted_def intro: db_calm_schema)
      (simp_all add: runSpawned_def)
qed

lemma appDo_inv:
  assumes "cron_ok (we_cron W)"
  shows "sys_inv W a \<Longrightarrow> sys_inv W (appDo W ev a)" and "app_inv W a \<Longrightarrow> app_inv W (appDo W ev a)"
proof -
  show "sys_inv W a \<Longrightarrow> sys_inv W (appDo W ev a)"
  proof (cases ev)
    case (Request r)
    obtain rep b where b: "serve W r a = (rep, b)" by fastforce
    show "sys_inv W a \<Longrightarrow> sys_inv W (appDo W ev a)"
      using serve_sched_inv [OF assms _ b] serve_closing [OF assms b] Request b by (simp add: sys_inv_def)
  qed (simp_all add: onSched_inv [OF assms] runSpawned_inv)
  show "app_inv W a \<Longrightarrow> app_inv W (appDo W ev a)"
  proof (cases ev)
    case (Request r)
    obtain rep b where b: "serve W r a = (rep, b)" by fastforce
    show "app_inv W a \<Longrightarrow> app_inv W (appDo W ev a)" using serve_inv [OF assms _ b] Request b by simp
  qed (simp_all add: onSched_inv [OF assms] runSpawned_inv)
qed

lemma appDo_keeps:
  assumes "cron_ok (we_cron W)"
  shows "closing (appDo W ev a) = closing a" and "ticks W (appDo W ev a) = ticks W a"
proof -
  have "closing (appDo W ev a) = closing a \<and> ticks W (appDo W ev a) = ticks W a"
  proof (cases ev)
    case (Request r)
    obtain rep b where b: "serve W r a = (rep, b)" by fastforce
    show ?thesis using serve_closing [OF assms b] serve_ticking [OF assms b] Request b by simp
  qed (auto simp: onSched_def sched_do_def trigger_def runSpawned_def split: option.splits list.splits prod.splits)
  then show "closing (appDo W ev a) = closing a" and "ticks W (appDo W ev a) = ticks W a" by simp_all
qed

lemma events_inv:
  assumes "cron_ok (we_cron W)"
  shows "sys_inv W a \<Longrightarrow> sys_inv W (fold (appDo W) evs a)" and "app_inv W a \<Longrightarrow> app_inv W (fold (appDo W) evs a)"
    and "app_via W a (fold (appDo W) evs a)"
proof -
  show "sys_inv W a \<Longrightarrow> sys_inv W (fold (appDo W) evs a)" by (induction evs arbitrary: a) (simp_all add: appDo_inv [OF assms])
  show "app_inv W a \<Longrightarrow> app_inv W (fold (appDo W) evs a)" by (induction evs arbitrary: a) (simp_all add: appDo_inv [OF assms])
  show "app_via W a (fold (appDo W) evs a)"
    by (induction evs arbitrary: a) (auto intro: via_trans [OF appDo_via])
qed

lemma started_app:
  assumes "cron_ok (we_cron W)" and "db_ok d"
    and "start (we_cron W) (dbOf W) (newScheduler (we_cron W), d) = (Inr (), s, d')"
    and "a = \<lparr>ap_world = w\<lparr>w_db := d'\<rparr>, ap_sched = s, ap_spawned = []\<rparr>"
  shows "sys_inv W a" and "db_calm (dbOf W) d \<Longrightarrow> app_inv W a"
proof -
  show "sys_inv W a"
    using start_contract [OF assms(1-3)] start_queue [OF assms(1,3)] assms(4)
    by (simp add: sys_inv_def sched_inv_def newScheduler_def)
  show "db_calm (dbOf W) d \<Longrightarrow> app_inv W a"
    using start_contract [OF assms(1-3)] start_db [OF assms(3)] assms(2,4)
    by (auto simp: app_inv_def follows_def db_calm_def wanted_def viewJob_def)
qed

lemma sched_inv_entries:
  assumes "sched_inv L s"
  shows "length (sd_workQ s) \<le> 256 \<and>
    (\<forall>i spec j. live L (sd_cron s) i = Some (spec, j) \<longrightarrow> sd_entries s j = Some i)"
  using assms by (auto simp: sched_inv_def workQCap_def sched_ok_def)

text \<open>
  C7: The running program keeps its invariants. Once the scheduler has started on a well formed
  database, after any sequence of requests, triggers, work and runs in goroutines, in any order and
  whatever statements fail: the tables are well formed; no reference dangles, if the connections
  enforce foreign keys; at most 256 triggers wait; every cron entry is the one the scheduler
  remembers for its job, so each job has at most one. And if the statements do not fail, each
  job is scheduled exactly as its row in the store asks.
\<close>
theorem system_invariant:
  assumes "cron_ok (we_cron W)" and "db_ok d"
    and "start (we_cron W) (dbOf W) (newScheduler (we_cron W), d) = (Inr (), s, d')"
    and "a' = fold (appDo W) evs \<lparr>ap_world = w\<lparr>w_db := d'\<rparr>, ap_sched = s, ap_spawned = []\<rparr>"
  shows "db_ok (w_db (ap_world a')) \<and>
    (fks_enforced (dbOf W) \<and> refs_ok d \<longrightarrow> refs_ok (w_db (ap_world a'))) \<and>
    length (sd_workQ (ap_sched a')) \<le> 256 \<and>
    (\<forall>i spec j. live (we_cron W) (sd_cron (ap_sched a')) i = Some (spec, j) \<longrightarrow> sd_entries (ap_sched a') j = Some i) \<and>
    (db_calm (dbOf W) d \<longrightarrow> (\<forall>j. planned (we_cron W) (ap_sched a') j = wanted (we_cron W) (w_db (ap_world a')) j))"
proof -
  note a = started_app [OF assms(1-3) refl, of w]
  obtain ops where ops: "w_db (ap_world a') = fold (db_do (dbOf W)) ops d'"
    using events_inv(3) [OF assms(1), of "\<lparr>ap_world = w\<lparr>w_db := d'\<rparr>, ap_sched = s, ap_spawned = []\<rparr>" evs] assms(4)
    by (auto simp: via_def)
  have d': "d' = d\<lparr>stmtNo := Suc (stmtNo d)\<rparr>" by (rule start_db [OF assms(3)])
  have "sys_inv W a'" using events_inv(1) [OF assms(1) a(1)] assms(4) by simp
  then have "length (sd_workQ (ap_sched a')) \<le> 256 \<and>
      (\<forall>i spec j. live (we_cron W) (sd_cron (ap_sched a')) i = Some (spec, j) \<longrightarrow> sd_entries (ap_sched a') j = Some i)"
    unfolding sys_inv_def by (intro sched_inv_entries) (rule conjunct1)
  moreover have "db_ok (w_db (ap_world a'))" "fks_enforced (dbOf W) \<and> refs_ok d \<Longrightarrow> refs_ok (w_db (ap_world a'))"
    using assms(2) d' by (simp_all add: ops db_ok_fold refs_ok_fold)
  moreover have "planned (we_cron W) (ap_sched a') j = wanted (we_cron W) (w_db (ap_world a')) j" if "db_calm (dbOf W) d" for j
    using events_inv(2) [OF assms(1) a(2) [OF that]] assms(4) by (simp add: app_inv_def follows_def)
  ultimately show ?thesis by blast
qed

definition demo_events :: "app_ev list" where
  "demo_events = [Request \<lparr>hr_method = ''POST'', hr_path = [''api'', ''jobs''], hr_limit = [], hr_body = ''job''\<rparr>, Fired 0,
     Request \<lparr>hr_method = ''POST'', hr_path = [''api'', ''jobs'', ''1'', ''run''], hr_limit = [], hr_body = []\<rparr>,
     Goroutine 0, Worked]"

lemma demo_start:
  obtains s d where "start demo_cron (demo_db True) (newScheduler demo_cron, w_db demo_world) = (Inr (), s, d)"
proof -
  have "fst (start demo_cron (demo_db True) (newScheduler demo_cron, w_db demo_world)) = Inr ()"
    by (simp add: start_def listJobs_def dbQuery_def db_calm_exec [OF demo_world_calm] Let_def)
  then show ?thesis using that by (metis prod.exhaust fst_conv)
qed

theorem system_invariant_witness:
  "\<exists>s d. start demo_cron (demo_db True) (newScheduler demo_cron, w_db demo_world) = (Inr (), s, d) \<and>
     (let a = fold (appDo demo_web) demo_events \<lparr>ap_world = demo_world\<lparr>w_db := d\<rparr>, ap_sched = s, ap_spawned = []\<rparr> in
      refs_ok (w_db (ap_world a)) \<and> planned demo_cron (ap_sched a) 2 = wanted demo_cron (w_db (ap_world a)) 2)"
proof -
  obtain s d where st: "start (we_cron demo_web) (dbOf demo_web) (newScheduler (we_cron demo_web), w_db demo_world) = (Inr (), s, d)"
    using demo_start by auto
  have "cron_ok (we_cron demo_web)" by (simp add: demo_cron_ok)
  note inv = system_invariant [OF this demo_world_ok st refl, of demo_events demo_world]
  moreover have "refs_ok (w_db demo_world)" by (simp add: refs_ok_def demo_world_def empty_db_def demo_controller_def)
  ultimately show ?thesis using st demo_fks demo_world_calm by (simp add: Let_def)
qed

end
