(* ===== verification/App_Main.thy ===== *)
theory App_Main
  imports App_System Log_Configure
begin

text \<open>
  The start of the program, \<^verbatim>\<open>main.go\<close> up to its wait: the logging configuration
  from the flags, the order in which the parts are started, and how it ends when one of them fails. It
  composes the definitions of the other theories: the log manager, the store, the scheduler and the web
  handler. App\_Run has what follows.

  What the outside decides is an argument: whether the database and the embedded files open, and whether
  the shutdown of the server will fail. \<^verbatim>\<open>Configure\<close> never returns an error, so
  the branch for one is not there. An \<^verbatim>\<open>os.Exit\<close> ends the program without its
  deferred calls.

  This is the start in one go: nobody else takes the manager's mutex before the wait. The first tick of
  the rotation watcher comes 15 seconds after it was started; workers and producers may run from there
  on as App\_Run has them.
\<close>

record flags =
  fl_addr :: string
  fl_db :: string
  fl_debug :: bool
  fl_verbose :: bool
  fl_logFile :: string
  fl_version :: bool

definition defaultFlags :: flags where
  "defaultFlags = \<lparr>fl_addr = '':8080'', fl_db = ''sync.db'', fl_debug = False, fl_verbose = False,
     fl_logFile = ''sync.log'', fl_version = False\<rparr>"

definition logConfig :: "flags \<Rightarrow> Config" where
  "logConfig f =
     (let cfg = DefaultConfig\<lparr>debugEnabled := fl_debug f, verboseEnabled := fl_verbose f\<rparr> in
      if fl_logFile f = [] then cfg\<lparr>logToFile := False\<rparr>
      else cfg\<lparr>logToFile := True, filePath := fl_logFile f\<rparr>)"

text \<open>How \<^verbatim>\<open>main\<close> came to its end; \<open>StillServing\<close> is none: it has reached the wait for a signal.\<close>

datatype exit = MainReturned | OSExit nat | StillServing

record ('w, 'c) main_env =
  mn_log :: "'w log_os"
  mn_web :: "'c web_env"
  mn_version :: string
  mn_commit :: string
  mn_buildDate :: string
  mn_openErr :: "string option"
  mn_uiErr :: "string option"
  mn_shutdownErr :: "string option"

text \<open>Logging through the default logger, which is the manager's.\<close>

definition slogDefault :: "'w log_os \<Rightarrow> int \<Rightarrow> string \<Rightarrow> arg list \<Rightarrow> 'w log_state \<Rightarrow> 'w log_state option" where
  "slogDefault E level msg args s =
     (case m_logger (ls_mgr s) of
        None \<Rightarrow> Some (s\<lparr>ls_world := os_stderr E (msg @ [CHR 0x0A]) (ls_world s)\<rparr>)
      | Some lg \<Rightarrow> slogLog E lg level msg (argsToAttrs args) s)"

text \<open>
  What the program leaves: how it ended, the log manager, whether the database is open, and the
  rest of the program if it got that far.
\<close>

type_synonym ('w, 'c) outcome = "exit \<times> 'w log_state \<times> bool \<times> 'c app option"

definition versionLine :: "('w, 'c) main_env \<Rightarrow> string" where
  "versionLine M = ''go-unifi-network-list-sync version='' @ mn_version M @ '' commit='' @ mn_commit M @
     '' built='' @ mn_buildDate M @ [CHR 0x0A]"

text \<open>An error that ends the program on the spot.\<close>

definition die :: "'w log_os \<Rightarrow> string \<Rightarrow> arg list \<Rightarrow> bool \<times> 'c app option \<Rightarrow> 'w log_state \<Rightarrow> ('w, 'c) outcome option" where
  "die E msg args a s = Option.bind (slogDefault E LevelError msg args s) (\<lambda>s. Some (OSExit 1, s, a))"

text \<open>Opening the store, starting the scheduler and the web interface.\<close>

definition startUp :: "('w, 'c) main_env \<Rightarrow> flags \<Rightarrow> world \<Rightarrow> 'w log_state \<Rightarrow> ('w, 'c) outcome option" where
  "startUp M f w s =
     (let E = mn_log M; W = mn_web M in
      case newStore (dbOf W) (mn_openErr M) (w_db w) of
        (Inl err, d) \<Rightarrow> die E ''Failed to open database'' [ArgStr ''path'', ArgStr (fl_db f), ArgStr ''error'', ArgStr err] (False, None) s
      | (Inr _, d) \<Rightarrow>
     (case start (we_cron W) (dbOf W) (newScheduler (we_cron W), d) of
        (Inl err, sc, d) \<Rightarrow> die E ''Failed to start scheduler'' [ArgStr ''error'', ArgStr err] (True, None) s
      | (Inr _, sc, d) \<Rightarrow>
     (case mn_uiErr M of
        Some err \<Rightarrow> die E ''Failed to load embedded UI'' [ArgStr ''error'', ArgStr err] (True, None) s
      | None \<Rightarrow> Some (StillServing, s, True, Some \<lparr>ap_world = w\<lparr>w_db := d\<rparr>, ap_sched = sc, ap_spawned = []\<rparr>))))"

definition runMain :: "('w, 'c) main_env \<Rightarrow> flags \<Rightarrow> world \<Rightarrow> 'w log_state \<Rightarrow> ('w, 'c) outcome option" where
  "runMain M f w s =
     (let E = mn_log M; cfg = logConfig f in
      if fl_version f
      then Some (MainReturned, s\<lparr>ls_world := os_stdout E (versionLine M) (ls_world s)\<rparr>, False, None)
      else Option.bind (configure E cfg s) (\<lambda>s.
        Option.bind (slogDefault E LevelInfo ''Logging configured''
            [ArgStr ''log_to_stdout'', ArgVal (VBool (logToStdout cfg)), ArgStr ''log_to_file'', ArgVal (VBool (logToFile cfg)),
             ArgStr ''log_file'', ArgStr (filePath cfg), ArgStr ''debug'', ArgVal (VBool (debugEnabled cfg)),
             ArgStr ''verbose'', ArgVal (VBool (verboseEnabled cfg))] s)
          (startUp M f w)))"

text \<open>
  The package of the log manager configures it with the defaults before \<^verbatim>\<open>main\<close> starts; \<open>x\<close> is the
  state of the operating system.
\<close>

definition initLogging :: "'w log_os \<Rightarrow> 'w \<Rightarrow> 'w log_state option" where
  "initLogging E x = configure E DefaultConfig \<lparr>ls_mgr = newManager, ls_world = x, ls_mu = False\<rparr>"

definition runProgram :: "('w, 'c) main_env \<Rightarrow> flags \<Rightarrow> world \<Rightarrow> 'w \<Rightarrow> ('w, 'c) outcome option" where
  "runProgram M f w x = Option.bind (initLogging (mn_log M) x) (runMain M f w)"

subsection \<open>Facts\<close>

lemma log_ready_default: "log_ready E cfg s \<Longrightarrow> \<exists>s'. slogDefault E l msg args s = Some s' \<and> log_ready E cfg s'"
  using log_ready_slog [of E cfg s] by (auto simp: slogDefault_def log_ready_def configured_def)

lemma log_ready_workers: "log_ready E cfg s \<Longrightarrow> workers_of s \<noteq> []"
  by (auto simp: log_ready_def configured_def sinks_of_def split: if_splits)

lemma start_calm: "db_calm E d \<Longrightarrow> fst (start L E (sc, d)) = Inr ()"
  by (simp add: start_def listJobs_def dbQuery_def db_calm_exec Let_def)

lemma configured_run:
  assumes "\<not> fl_version f"
  shows "\<exists>s'. runProgram M f w x = startUp M f w s' \<and> log_ready (mn_log M) (logConfig f) s'"
proof -
  obtain s0 where s0: "initLogging (mn_log M) x = Some s0" "log_ready (mn_log M) DefaultConfig s0"
    using configure_contract [of "\<lparr>ls_mgr = newManager, ls_world = x, ls_mu = False\<rparr>" "mn_log M" DefaultConfig]
    by (auto simp: initLogging_def newManager_def ring_ok_new ringCapacity_def)
  have free: "\<not> ls_mu s0" "ring_ok (ring_of s0)" using s0(2) by (simp_all add: log_ready_def caught_up_def)
  obtain s1 where s1: "configure (mn_log M) (logConfig f) s0 = Some s1" "log_ready (mn_log M) (logConfig f) s1"
    using configure_contract [OF free] by blast
  from log_ready_default [OF s1(2)] obtain s2 where
    "slogDefault (mn_log M) LevelInfo ''Logging configured''
            [ArgStr ''log_to_stdout'', ArgVal (VBool (logToStdout (logConfig f))), ArgStr ''log_to_file'',
             ArgVal (VBool (logToFile (logConfig f))), ArgStr ''log_file'', ArgStr (filePath (logConfig f)),
             ArgStr ''debug'', ArgVal (VBool (debugEnabled (logConfig f))),
             ArgStr ''verbose'', ArgVal (VBool (verboseEnabled (logConfig f)))] s1 = Some s2"
    "log_ready (mn_log M) (logConfig f) s2" by blast
  then show ?thesis using s0(1) s1(1) assms by (intro exI [of _ s2]) (simp add: runProgram_def runMain_def Let_def)
qed

text \<open>With a database that opens and does not fail the program comes to its wait.\<close>

lemma main_serves:
  assumes "cron_ok (we_cron (mn_web M))" and "db_ok (w_db w)" and "\<not> fl_version f"
    and "newStore (dbOf (mn_web M)) (mn_openErr M) (w_db w) = (Inr (), d)"
    and "db_calm (dbOf (mn_web M)) d" and "mn_uiErr M = None"
  shows "\<exists>s a. runProgram M f w x = Some (StillServing, s, True, Some a) \<and>
    log_ready (mn_log M) (logConfig f) s \<and> sys_inv (mn_web M) a \<and> app_inv (mn_web M) a"
proof -
  let ?W = "mn_web M"
  obtain s where s: "runProgram M f w x = startUp M f w s" "log_ready (mn_log M) (logConfig f) s"
    using configured_run [OF assms(3), of M w x] by blast
  have d: "db_ok d" using newStore_ok [OF assms(2), of "dbOf ?W" "mn_openErr M"] assms(4) by simp
  obtain sc d' where st: "start (we_cron ?W) (dbOf ?W) (newScheduler (we_cron ?W), d) = (Inr (), sc, d')"
    using start_calm [OF assms(5), of "we_cron ?W" "newScheduler (we_cron ?W)"] by (metis prod.collapse)
  let ?a = "\<lparr>ap_world = w\<lparr>w_db := d'\<rparr>, ap_sched = sc, ap_spawned = []\<rparr>"
  have "sys_inv ?W ?a" "app_inv ?W ?a" using started_app [OF assms(1) d st refl, of w] assms(5) by blast+
  then show ?thesis using s by (intro exI [of _ s] exI [of _ ?a]) (simp add: startUp_def assms(4,6) st Let_def)
qed

lemma slogError_last:
  assumes "log_ready E cfg s" and "slogDefault E LevelError msg args s = Some s'"
  shows "ev_msg (last (Log_Ring.live (ring_of s'))) = msg \<and> workers_of s' \<noteq> [] \<and>
    (\<forall>sw \<in> set (workers_of s'). sw_nextSeq sw < er_head (ring_of s'))"
proof -
  obtain lg where lg: "m_logger (ls_mgr s) = Some lg" using assms(1) by (auto simp: log_ready_def configured_def)
  have on: "levelEnabled lg LevelError" by (simp add: levelEnabled_def ringEnabled_def level_defs)
  obtain e where e: "enqueue E e s = Some s'" "ev_msg e = msg"
    using assms(2) lg on by (auto simp: slogDefault_def slogLog_def filterHandle_def ringHandle_def)
  have s': "s' = unlockMu (enqueueLocked E e (s\<lparr>ls_mu := True\<rparr>))"
    using e(1) assms(1) by (simp add: enqueue_free log_ready_def)
  have ok: "ring_ok (ring_of s)" and up: "\<forall>sw \<in> set (workers_of s). sw_nextSeq sw \<le> er_head (ring_of s)"
    using assms(1) by (simp_all add: log_ready_def caught_up_def)
  have "last (Log_Ring.live (ring_of s')) = (numbered 0 e)\<lparr>ev_seq := er_head (ring_of s)\<rparr>"
    by (simp add: s' unlockMu_def enqueueLocked_mgr live_push [OF ok])
  then have "ev_msg (last (Log_Ring.live (ring_of s'))) = msg"
    using e(2) by (simp add: numbered_def event_body.defs logEvent.defs)
  moreover have "workers_of s' \<noteq> []"
    using log_ready_workers [OF assms(1)] by (simp add: s' unlockMu_def enqueueLocked_mgr)
  moreover have "\<forall>sw \<in> set (workers_of s'). sw_nextSeq sw < er_head (ring_of s')"
    using up by (auto simp: s' unlockMu_def enqueueLocked_mgr push_fields less_Suc_eq_le)
  ultimately show ?thesis by blast
qed

text \<open>
  C23: A fatal error can go unlogged. If the database does not open, the program exits with status 1
  right after it has put the reason into the ring: nothing is waited for, so at that moment the
  message is only the newest event of the ring, and every sink still has it before it.
\<close>
theorem fatal_error_unwritten:
  assumes "\<not> fl_version f" and "newStore (dbOf (mn_web M)) (mn_openErr M) (w_db w) = (Inl err, d)"
  shows "\<exists>s'. runProgram M f w x = Some (OSExit 1, s', False, None) \<and>
    ev_msg (last (Log_Ring.live (ring_of s'))) = ''Failed to open database'' \<and> workers_of s' \<noteq> [] \<and>
    (\<forall>sw \<in> set (workers_of s'). sw_nextSeq sw < er_head (ring_of s'))"
proof -
  obtain s1 where s1: "runProgram M f w x = startUp M f w s1" "log_ready (mn_log M) (logConfig f) s1"
    using configured_run [OF assms(1), of M w x] by blast
  obtain s2 where s2: "slogDefault (mn_log M) LevelError ''Failed to open database''
      [ArgStr ''path'', ArgStr (fl_db f), ArgStr ''error'', ArgStr err] s1 = Some s2"
    using log_ready_default [OF s1(2)] by blast
  have "runProgram M f w x = Some (OSExit 1, s2, False, None)" using s1(1) s2 assms(2) by (simp add: startUp_def die_def Let_def)
  with slogError_last [OF s1(2) s2] show ?thesis by blast
qed

definition demo_main :: "string option \<Rightarrow> (string list, (nat \<times> string \<times> int) list \<times> nat \<times> bool) main_env" where
  "demo_main openErr = \<lparr>mn_log = demo_os, mn_web = demo_web, mn_version = ''dev'', mn_commit = ''none'', mn_buildDate = ''unknown'', mn_openErr = openErr, mn_uiErr = None,
     mn_shutdownErr = None\<rparr>"

lemma demo_opens:
  "(case newStore (demo_db True) None empty_db of (r, d) \<Rightarrow> r = Inr () \<and>
     {''controllers'', ''sync_jobs'', ''sync_jobs.observed_ip_ttl_hours'', ''run_logs''} \<subseteq> set (schema d))"
proof -
  have "quiet (demo_db True)" by (simp add: quiet_def demo_db_def)
  note made = newStore_contract [OF this, THEN conjunct1]
  obtain r d where n: "newStore (demo_db True) None empty_db = (r, d)" by fastforce
  have "r = Inr () \<and> set (schema d) = set allObjs" using made by (simp add: n)
  then show ?thesis by (simp add: n allObjs_def)
qed

theorem fatal_error_unwritten_witness:
  "\<exists>s'. runProgram (demo_main (Some ''no such directory'')) defaultFlags demo_world [] = Some (OSExit 1, s', False, None) \<and>
     ev_msg (last (Log_Ring.live (ring_of s'))) = ''Failed to open database''"
proof -
  have "newStore (dbOf (mn_web (demo_main (Some ''no such directory'')))) (mn_openErr (demo_main (Some ''no such directory'')))
      (w_db demo_world) = (Inl ''open database: no such directory'', w_db demo_world)"
    by (simp add: newStore_def demo_main_def)
  from fatal_error_unwritten [OF _ this, of defaultFlags "[]"] show ?thesis
    by (auto simp: defaultFlags_def)
qed

end
