(* ===== verification/App_Run.thy ===== *)
theory App_Run
  imports App_Main Log_Rotation Log_Stopping
begin

text \<open>
  The program from the wait of \<^verbatim>\<open>main\<close> to its end,
  \<^verbatim>\<open>main.go\<close>: requests, triggers and runs of jobs, the producers and sink
  workers of the log, the rotation watcher, the goroutine that announces the server, and
  \<^verbatim>\<open>main\<close> itself, one step at a time and in any order. After the wait
  \<^verbatim>\<open>main\<close> has a list of acts left: its log lines, the shutdown of the server,
  and the deferred calls, last first.

  A log line needs the manager's mutex, and so do the first and the last act of closing the manager,
  between which its workers drain the ring and exit; a step that needs a mutex that is held is not there
  until it is released. Stopping the scheduler waits for the triggers in hand, which are whole steps
  here, and not for its worker. The events of the application end with the closing of the database: a
  run that is still going then fails at its next statement. What requests and jobs log is any event that
  a producer pushes.
\<close>

subsection \<open>The program\<close>

datatype stop_cause = Signalled string | ServerFailed string

datatype main_act = LogLine int string "arg list" | ShutdownServer | StopScheduler | CloseStore | DetachLogs
  | ReleaseLogs | Exit nat

datatype main_at = Serving | Finishing "main_act list" | Ended exit

datatype handle = HandleOpen | HandleClosed

record ('w, 'c) program =
  pg_main :: main_at
  pg_app :: "'c app"
  pg_db :: handle
  pg_announced :: bool
  pg_requests :: bool
  pg_log :: "'w log_state"
  pg_watch :: watch_at
  pg_draining :: "(sinkWorker list \<times> nat set) option"

definition closeStore :: "handle \<Rightarrow> handle" where
  "closeStore h = HandleClosed"

text \<open>
  What \<^verbatim>\<open>main\<close> does once its wait is over. The server's shutdown reports a
  failure as an error and returns, with the same deferred calls to follow.
\<close>

definition shutdownLine :: "('w, 'c) main_env \<Rightarrow> main_act" where
  "shutdownLine M = (case mn_shutdownErr M of
     Some err \<Rightarrow> LogLine LevelError ''Shutdown error'' [ArgStr ''error'', ArgStr err]
   | None \<Rightarrow> LogLine LevelInfo ''Shutdown complete'' [])"

fun afterWait :: "('w, 'c) main_env \<Rightarrow> stop_cause \<Rightarrow> main_act list" where
  "afterWait M (ServerFailed err) = [LogLine LevelError ''Server error'' [ArgStr ''error'', ArgStr err], Exit 1]"
| "afterWait M (Signalled sig) =
     [LogLine LevelInfo ''Shutdown signal received'' [ArgStr ''signal'', ArgStr sig],
      LogLine LevelInfo ''Shutting down'' [], ShutdownServer, shutdownLine M,
      StopScheduler, CloseStore, DetachLogs, ReleaseLogs]"

text \<open>
  Closing the manager, in the two parts in which it holds the mutex: before it waits for the workers
  it has forgotten, and after they have all exited. A manager with outputs always has a worker.
\<close>

definition stoppingOf :: "('w, 'c) program \<Rightarrow> sinkWorker list \<times> nat set \<Rightarrow> 'w stopping" where
  "stoppingOf p d = \<lparr>sp_log = pg_log p, sp_workers = fst d, sp_exited = snd d\<rparr>"

definition withStopping :: "'w stopping \<Rightarrow> ('w, 'c) program \<Rightarrow> ('w, 'c) program" where
  "withStopping st p = p\<lparr>pg_log := sp_log st, pg_draining := Some (sp_workers st, sp_exited st)\<rparr>"

definition detachLogs :: "('w, 'c) program \<Rightarrow> ('w, 'c) program option" where
  "detachLogs p = Option.bind (lockMu (pg_log p)) (\<lambda>s.
     Some (withStopping (detachWorkers (s\<lparr>ls_mgr := stopRotationWatcherLocked (ls_mgr s)\<rparr>)) p))"

definition releaseLogs :: "'w log_os \<Rightarrow> ('w, 'c) program \<Rightarrow> ('w, 'c) program option" where
  "releaseLogs E p = (case pg_draining p of None \<Rightarrow> None
     | Some d \<Rightarrow>
         if stopped (stoppingOf p d) \<and> \<not> ls_mu (pg_log p)
         then (let s = closeOutputs E (resumeLocked (stoppingOf p d)) in
               Some (p\<lparr>pg_log := unlockMu (s\<lparr>ls_mgr := rebuildLoggerLocked (ls_mgr s)\<rparr>)\<rparr>))
         else None)"

fun mainDo :: "('w, 'c) main_env \<Rightarrow> main_act \<Rightarrow> ('w, 'c) program \<Rightarrow> ('w, 'c) program option" where
  "mainDo M (LogLine level msg args) p =
     map_option (\<lambda>s. p\<lparr>pg_log := s\<rparr>) (slogDefault (mn_log M) level msg args (pg_log p))"
| "mainDo M ShutdownServer p = Some (p\<lparr>pg_requests := pg_requests p \<and> mn_shutdownErr M \<noteq> None\<rparr>)"
| "mainDo M StopScheduler p =
     map_option (\<lambda>sc. p\<lparr>pg_app := (pg_app p)\<lparr>ap_sched := sc\<rparr>\<rparr>) (stop (we_cron (mn_web M)) (ap_sched (pg_app p)))"
| "mainDo M CloseStore p = Some (p\<lparr>pg_db := closeStore (pg_db p)\<rparr>)"
| "mainDo M DetachLogs p = detachLogs p"
| "mainDo M ReleaseLogs p = releaseLogs (mn_log M) p"
| "mainDo M (Exit n) p = Some p"

fun mainNext :: "main_act \<Rightarrow> main_act list \<Rightarrow> main_at" where
  "mainNext (Exit n) acts = Ended (OSExit n)"
| "mainNext _ [] = Ended MainReturned"
| "mainNext _ acts = Finishing acts"

definition over :: "('w, 'c) program \<Rightarrow> bool" where
  "over p \<longleftrightarrow> (case pg_main p of Ended x \<Rightarrow> True | _ \<Rightarrow> False)"

datatype prog_ev = App app_ev | Logs watch_ev | Drain stop_ev | Announced | Woken stop_cause | Did main_act

text \<open>Requests come once the server listens, until its shutdown has succeeded.\<close>

definition possible :: "('w, 'c) program \<Rightarrow> app_ev \<Rightarrow> bool" where
  "possible p ev \<longleftrightarrow> pg_db p = HandleOpen \<and> (case ev of Request r \<Rightarrow> pg_announced p \<and> pg_requests p | _ \<Rightarrow> True)"

inductive prog_step :: "('w, 'c) main_env \<Rightarrow> flags \<Rightarrow> ('w, 'c) program \<Rightarrow> prog_ev \<Rightarrow> ('w, 'c) program \<Rightarrow> bool" for M f where
  app: "\<not> over p \<Longrightarrow> possible p ev \<Longrightarrow> prog_step M f p (App ev) (p\<lparr>pg_app := appDo (mn_web M) ev (pg_app p)\<rparr>)"
| logs: "\<not> over p \<Longrightarrow> watch_step (mn_log M) (pg_watch p, pg_log p) ev (pc, s) \<Longrightarrow>
    prog_step M f p (Logs ev) (p\<lparr>pg_watch := pc, pg_log := s\<rparr>)"
| drain: "\<not> over p \<Longrightarrow> pg_draining p = Some d \<Longrightarrow> stop_step (mn_log M) (stoppingOf p d) ev st \<Longrightarrow>
    \<not> ls_mu (pg_log p) \<or> (\<exists>i e. ev = Emitted i e) \<Longrightarrow> prog_step M f p (Drain ev) (withStopping st p)"
| announced: "\<not> over p \<Longrightarrow> \<not> pg_announced p \<Longrightarrow>
    slogDefault (mn_log M) LevelInfo ''Server starting'' [ArgStr ''addr'', ArgStr (fl_addr f)] (pg_log p) = Some s \<Longrightarrow>
    prog_step M f p Announced (p\<lparr>pg_announced := True, pg_log := s\<rparr>)"
| woken: "pg_main p = Serving \<Longrightarrow> (\<forall>err. cause = ServerFailed err \<longrightarrow> pg_announced p) \<Longrightarrow>
    prog_step M f p (Woken cause) (p\<lparr>pg_main := Finishing (afterWait M cause)\<rparr>)"
| did: "pg_main p = Finishing (act # acts) \<Longrightarrow> mainDo M act p = Some p' \<Longrightarrow>
    prog_step M f p (Did act) (p'\<lparr>pg_main := mainNext act acts\<rparr>)"

inductive prog_run :: "('w, 'c) main_env \<Rightarrow> flags \<Rightarrow> ('w, 'c) program \<Rightarrow> prog_ev list \<Rightarrow> ('w, 'c) program \<Rightarrow> bool" for M f p0 where
  entered: "prog_run M f p0 [] p0"
| onward: "prog_run M f p0 tr p \<Longrightarrow> prog_step M f p ev p' \<Longrightarrow> prog_run M f p0 (tr @ [ev]) p'"

text \<open>The program as \<^verbatim>\<open>main\<close> enters its wait; the watcher runs if the log file is watched.\<close>

definition launched :: "'w log_state \<Rightarrow> 'c app \<Rightarrow> ('w, 'c) program" where
  "launched s a = \<lparr>pg_main = Serving, pg_app = a, pg_db = HandleOpen, pg_announced = False, pg_requests = True,
     pg_log = s, pg_watch = (if m_rotationStop (ls_mgr s) then Waiting else Left), pg_draining = None\<rparr>"

lemma prog_run_one: "prog_step M f p ev p' \<Longrightarrow> prog_run M f p [ev] p'"
  using prog_run.onward [OF prog_run.entered, of M f p ev p'] by simp

lemma prog_run_trans: "prog_run M f p1 tr' p2 \<Longrightarrow> prog_run M f p0 tr p1 \<Longrightarrow> prog_run M f p0 (tr @ tr') p2"
proof (induction rule: prog_run.induct)
  case (onward tr' p ev p')
  then show ?case using prog_run.onward [of M f p0 "tr @ tr'" p ev p'] by simp
qed simp

subsection \<open>The log under the watcher\<close>

text \<open>The mutex is held exactly while the watcher rotates, and no cursor is ahead of the ring.\<close>

definition alive :: "watch_at \<times> 'w log_state \<Rightarrow> bool" where
  "alive c \<longleftrightarrow> caught_up (ls_mgr (snd c)) \<and> m_logger (ls_mgr (snd c)) \<noteq> None \<and>
     (ls_mu (snd c) \<longleftrightarrow> fst c \<noteq> Waiting \<and> fst c \<noteq> Left)"

lemma log_step_frame:
  assumes "log_step E s ev s'" and "caught_up (ls_mgr s)"
  shows "caught_up (ls_mgr s') \<and> m_logger (ls_mgr s') = m_logger (ls_mgr s) \<and> ls_mu s' = ls_mu s \<and>
    er_head (ring_of s) \<le> er_head (ring_of s') \<and> (workers_of s' = [] \<longleftrightarrow> workers_of s = [])"
  using assms(1)
proof (cases rule: log_step.cases)
  case (pushed e)
  then show ?thesis using assms(2) caught_up_enqueue [OF assms(2), of E e]
    by (simp add: enqueueLocked_mgr enqueueLocked_outputs push_fields)
next
  case (took i sw)
  have "er_tail (ring_of s) \<le> er_head (ring_of s)" "sw_nextSeq sw \<le> er_head (ring_of s)"
    using assms(2) took by (auto simp: caught_up_def ring_ok_def)
  note t = takeBatch_eq [OF this]
  then show ?thesis using assms(2) took
    by (auto simp: setWorker_def caught_up_def dest!: in_set_conv_nth [THEN iffD1] simp: nth_list_update split: if_splits)
next
  case (wrote i sw e es)
  then show ?thesis using assms(2)
    by (auto simp: setWorker_def caught_up_def dest!: in_set_conv_nth [THEN iffD1] simp: nth_list_update split: if_splits)
qed

lemma redirect_frame:
  "caught_up (redirectFile m) = caught_up m" "m_logger (redirectFile m) = m_logger m" "m_ring (redirectFile m) = m_ring m"
  "m_workers (redirectFile m) = [] \<longleftrightarrow> m_workers m = []"
  by (simp_all add: redirectFile_def caught_up_def del: if_image_distrib split: if_split)

lemma openLogFile_mgr:
  "openLogFile E p s = (r, s') \<Longrightarrow> ring_of s' = ring_of s \<and> workers_of s' = workers_of s"
  by (auto simp: openLogFile_def split: prod.splits sum.splits)

lemma moveAside_frame:
  "caught_up (ls_mgr (moveAside E f s)) = caught_up (ls_mgr s)" "m_logger (ls_mgr (moveAside E f s)) = m_logger (ls_mgr s)"
  "ls_mu (moveAside E f s) = ls_mu s" "ring_of (moveAside E f s) = ring_of s" "workers_of (moveAside E f s) = workers_of s"
  by (simp_all add: moveAside_def caught_up_def Let_def)

lemma watch_step_frame:
  assumes "watch_step E c ev c'" and "alive c"
  shows "alive c' \<and> er_head (ring_of (snd c)) \<le> er_head (ring_of (snd c')) \<and>
    (workers_of (snd c') = [] \<longleftrightarrow> workers_of (snd c) = [])"
  using assms(1)
proof (cases rule: watch_step.cases)
  case (opened s u s')
  then show ?thesis using assms(2) openLogFile_frame [OF opened(4)] openLogFile_mgr [OF opened(4)]
    by (simp add: alive_def caught_up_def)
next
  case (openFailed s err s')
  then show ?thesis using assms(2) openLogFile_frame [OF openFailed(4)] openLogFile_mgr [OF openFailed(4)]
    by (simp add: alive_def caught_up_def)
next
  case (reported msg s s' names)
  then show ?thesis using assms(2) by (auto simp: alive_def logPrintf_held)
next
  case (other s ev' s' pc)
  then show ?thesis using assms(2) log_step_frame [OF other(4)] by (simp add: alive_def)
qed (use assms(2) in \<open>auto simp: alive_def redirect_frame moveAside_frame unlockMu_def\<close>)

lemma alive_log:
  assumes "alive (pc, s)" and "slogDefault E level msg args s = Some s'"
  shows "alive (pc, s') \<and> er_head (ring_of s) \<le> er_head (ring_of s') \<and> (workers_of s' = [] \<longleftrightarrow> workers_of s = [])"
proof -
  obtain lg where lg: "m_logger (ls_mgr s) = Some lg" using assms(1) by (auto simp: alive_def)
  have "s' = s \<or> (\<exists>e. enqueue E e s = Some s')"
    using assms(2) lg by (auto simp: slogDefault_def slogLog_def split: if_splits)
  then show ?thesis
  proof (elim disjE exE)
    fix e assume e: "enqueue E e s = Some s'"
    then have free: "\<not> ls_mu s" by (auto simp: enqueue_def lockMu_def split: if_splits)
    then have s': "s' = unlockMu (enqueueLocked E e (s\<lparr>ls_mu := True\<rparr>))" using e by (simp add: enqueue_free)
    have "caught_up (ls_mgr (enqueueLocked E e (s\<lparr>ls_mu := True\<rparr>)))"
      using assms(1) by (intro caught_up_enqueue) (simp add: alive_def)
    then show ?thesis using assms(1) free
      by (simp add: alive_def s' unlockMu_def enqueueLocked_mgr enqueueLocked_outputs push_fields)
  qed (use assms(1) in simp)
qed

lemma alive_logs:
  assumes "alive (pc, s)" and "pc = Waiting \<or> pc = Left"
  shows "\<exists>s'. slogDefault E level msg args s = Some s'"
proof -
  obtain lg where "m_logger (ls_mgr s) = Some lg" using assms(1) by (auto simp: alive_def)
  moreover have "\<not> ls_mu s" using assms by (auto simp: alive_def)
  ultimately show ?thesis by (auto simp: slogDefault_def slogLog_def enqueue_free)
qed

text \<open>A rotation under way comes to its end, or to a point where it is stuck.\<close>

lemma rotation_settles:
  assumes "alive c" and "fst c \<noteq> Waiting" and "fst c \<noteq> Left"
  shows "\<exists>r. comes_to E c r"
proof -
  obtain pc s where c: "c = (pc, s)" by fastforce
  have s: "ls_mu s" "m_logger (ls_mgr s) \<noteq> None" using assms c by (auto simp: alive_def)
  have removing: "\<exists>r. comes_to E (Removing names, s1) r" if "ls_mu s1" "m_logger (ls_mgr s1) \<noteq> None" for names s1
    using comes_to_removing [OF that, of E names] by blast
  have listing: "\<exists>r. comes_to E (Redirected, s1) r" if held: "ls_mu s1" "m_logger (ls_mgr s1) \<noteq> None" for s1
  proof -
    obtain r where r: "comes_to E (Removing (oldFiles E s1), s1) r" using removing held by blast
    show ?thesis by (rule exI, rule comes_to_step [OF watch_step.listed _ r]) simp
  qed
  show ?thesis
  proof (cases pc)
    case Aside
    obtain r s1 where "openLogFile E (filePath (m_config (ls_mgr s))) s = (r, s1)" by fastforce
    from comes_to_open [OF s this] show ?thesis unfolding c Aside by blast
  next
    case Reopened
    obtain r where r: "comes_to E (Redirected, s\<lparr>ls_mgr := redirectFile (ls_mgr s)\<rparr>) r"
      using listing s by (force simp: redirect_frame)
    show ?thesis unfolding c Reopened by (rule exI, rule comes_to_step [OF watch_step.swapped _ r]) simp
  next
    case (Reporting msg names)
    have "stuck (Reporting msg names, s)" using s by (simp add: stuck_def)
    then have "comes_to E (Reporting msg names, s) None"
      unfolding comes_to_def using watch_run.begun by fastforce
    then show ?thesis unfolding c Reporting by blast
  qed (use assms(2,3) c s removing listing in auto)
qed

subsection \<open>The invariant\<close>

text \<open>How far \<^verbatim>\<open>main\<close> has come, by the acts that are done.\<close>

definition phase :: "('w, 'c) main_env \<Rightarrow> ('w, 'c) program \<Rightarrow> main_act set \<Rightarrow> bool" where
  "phase M p acts \<longleftrightarrow>
     (if StopScheduler \<in> acts then closing (pg_app p) \<and> \<not> ticks (mn_web M) (pg_app p) else sys_inv (mn_web M) (pg_app p)) \<and>
     (pg_db p = HandleClosed \<longleftrightarrow> CloseStore \<in> acts) \<and>
     (if DetachLogs \<in> acts then pg_draining p \<noteq> None \<and> workers_of (pg_log p) = [] else pg_draining p = None)"

text \<open>
  What ended properly: the workers of the log manager have exited and its outputs are closed, the
  triggers of the scheduler no longer fire, the database is closed, and each job is planned as its row in
  the store says.
\<close>

definition ended :: "('w, 'c) main_env \<Rightarrow> ('w, 'c) program \<Rightarrow> bool" where
  "ended M p \<longleftrightarrow> (\<exists>ws gone. pg_draining p = Some (ws, gone) \<and> {..<length ws} \<subseteq> gone) \<and> workers_of (pg_log p) = [] \<and>
     m_logFile (ls_mgr (pg_log p)) = None \<and> m_sysConn (ls_mgr (pg_log p)) = None \<and> pg_db p = HandleClosed \<and>
     closing (pg_app p) \<and> \<not> ticks (mn_web M) (pg_app p) \<and>
     (\<forall>j. planned (we_cron (mn_web M)) (ap_sched (pg_app p)) j = wanted (we_cron (mn_web M)) (w_db (ap_world (pg_app p))) j)"

definition logs_ok :: "('w, 'c) program \<Rightarrow> bool" where
  "logs_ok p \<longleftrightarrow> alive (pg_watch p, pg_log p) \<and>
     (\<forall>ws gone. pg_draining p = Some (ws, gone) \<longrightarrow> (\<forall>sw \<in> set ws. sw_nextSeq sw \<le> er_head (ring_of (pg_log p))))"

definition main_inv :: "('w, 'c) main_env \<Rightarrow> prog_ev list \<Rightarrow> ('w, 'c) program \<Rightarrow> bool" where
  "main_inv M tr p \<longleftrightarrow> (case pg_main p of
     Serving \<Rightarrow> phase M p {}
   | Finishing acts \<Rightarrow> acts \<noteq> [] \<and> (\<exists>cause done. Woken cause \<in> set tr \<and> afterWait M cause = done @ acts \<and> phase M p (set done))
   | Ended x \<Rightarrow> x = MainReturned \<and> (\<exists>sig. Woken (Signalled sig) \<in> set tr) \<and> ended M p \<or>
       x = OSExit 1 \<and> (\<exists>err. Woken (ServerFailed err) \<in> set tr))"

definition prog_inv :: "('w, 'c) main_env \<Rightarrow> prog_ev list \<Rightarrow> ('w, 'c) program \<Rightarrow> bool" where
  "prog_inv M tr p \<longleftrightarrow> app_inv (mn_web M) (pg_app p) \<and> (\<not> over p \<longrightarrow> logs_ok p) \<and> main_inv M tr p"

lemma logs_ok_watch:
  assumes "logs_ok p" and "alive (pc, s)" and "er_head (ring_of (pg_log p)) \<le> er_head (ring_of s)"
  shows "logs_ok (p\<lparr>pg_watch := pc, pg_log := s\<rparr>)"
  using assms unfolding logs_ok_def by (simp add: le_trans) (meson le_trans)

lemma logs_ok_log:
  assumes "logs_ok p" and "slogDefault E level msg args (pg_log p) = Some s"
  shows "logs_ok (p\<lparr>pg_log := s\<rparr>)" and "workers_of s = [] \<longleftrightarrow> workers_of (pg_log p) = []"
proof -
  have al: "alive (pg_watch p, pg_log p)" using assms(1) by (simp add: logs_ok_def)
  note f = alive_log [OF al assms(2)]
  then show "logs_ok (p\<lparr>pg_log := s\<rparr>)" using assms(1) unfolding logs_ok_def by simp (meson le_trans)
  show "workers_of s = [] \<longleftrightarrow> workers_of (pg_log p) = []" using f by simp
qed

lemma logs_ok_drain:
  assumes "logs_ok p" and "pg_draining p = Some d" and "stop_step E (stoppingOf p d) ev st"
  shows "logs_ok (withStopping st p)" and "workers_of (sp_log st) = [] \<longleftrightarrow> workers_of (pg_log p) = []"
proof -
  obtain ws gone where d: "d = (ws, gone)" by fastforce
  have ok: "caught_up (ls_mgr (pg_log p))" "\<forall>sw \<in> set ws. sw_nextSeq sw \<le> er_head (ring_of (pg_log p))"
    using assms(1,2) d by (simp_all add: logs_ok_def alive_def)
  have tail: "er_tail (ring_of (pg_log p)) \<le> er_head (ring_of (pg_log p))"
    using ok(1) by (simp add: caught_up_def ring_ok_def)
  have set_upd: "\<forall>x \<in> set (ws[i := sw]). sw_nextSeq x \<le> h" if "\<forall>x \<in> set ws. sw_nextSeq x \<le> h" "sw_nextSeq sw \<le> h" for i sw h
    using that set_update_subset_insert [of ws i sw] by blast
  from assms(3) have "logs_ok (withStopping st p) \<and> (workers_of (sp_log st) = [] \<longleftrightarrow> workers_of (pg_log p) = [])"
  proof (cases rule: stop_step.cases)
    case (logged e)
    then show ?thesis using assms(1) d ok caught_up_enqueue [OF ok(1), of E e]
      by (auto simp: logs_ok_def alive_def withStopping_def stoppingOf_def enqueueLocked_mgr enqueueLocked_outputs push_fields
          intro: le_SucI)
  next
    case (drained i sw)
    have "sw_nextSeq (takeBatch (ring_of (pg_log p)) sw) \<le> er_head (ring_of (pg_log p))"
      using takeBatch_eq [OF tail, of sw] drained ok(2) d by (simp add: stoppingOf_def)
    then show ?thesis using assms(1) d drained set_upd [OF ok(2)]
      by (simp add: logs_ok_def withStopping_def stoppingOf_def)
  next
    case (emitted i sw e es)
    have "sw_nextSeq (sw\<lparr>sw_batch := es\<rparr>) \<le> er_head (ring_of (pg_log p))"
      using emitted ok(2) d by (simp add: stoppingOf_def)
    note all = set_upd [OF ok(2) this, of i]
    show ?thesis using assms(1) d emitted all
      by (simp add: logs_ok_def alive_def withStopping_def stoppingOf_def)
  next
    case (gone i sw)
    then show ?thesis using assms(1) d ok(2) by (simp add: logs_ok_def withStopping_def stoppingOf_def)
  qed
  then show "logs_ok (withStopping st p)" and "workers_of (sp_log st) = [] \<longleftrightarrow> workers_of (pg_log p) = []" by simp_all
qed

text \<open>What a step that is not one of \<^verbatim>\<open>main\<close> keeps of the phase.\<close>

lemma phase_cong:
  assumes "phase M p acts" and "pg_db p' = pg_db p" and "pg_draining p' = None \<longleftrightarrow> pg_draining p = None"
    and "workers_of (pg_log p') = [] \<longleftrightarrow> workers_of (pg_log p) = []"
    and "pg_app p' = pg_app p \<or> cron_ok (we_cron (mn_web M)) \<and> (\<exists>ev. pg_app p' = appDo (mn_web M) ev (pg_app p))"
  shows "phase M p' acts"
  using assms by (auto simp: phase_def appDo_keeps appDo_inv split: if_splits)

lemma main_inv_cong:
  assumes "main_inv M tr p" and "\<not> over p" and "pg_main p' = pg_main p" and "\<And>acts. phase M p acts \<Longrightarrow> phase M p' acts"
  shows "main_inv M (tr @ [ev]) p'"
proof (cases "pg_main p")
  case Serving
  then show ?thesis using assms by (simp add: main_inv_def)
next
  case (Finishing acts)
  then obtain cause before where "acts \<noteq> []" "Woken cause \<in> set tr" "afterWait M cause = before @ acts" "phase M p (set before)"
    using assms(1) by (auto simp: main_inv_def)
  with Finishing assms(3,4) show ?thesis by (auto simp: main_inv_def)
next
  case (Ended x)
  then show ?thesis using assms(2) by (simp add: over_def)
qed

text \<open>The acts of \<^verbatim>\<open>main\<close>.\<close>

lemma stop_app_inv:
  assumes "cron_ok (we_cron W)" and "sys_inv W a" and "app_inv W a"
  obtains sc where "stop (we_cron W) (ap_sched a) = Some sc" "app_inv W (a\<lparr>ap_sched := sc\<rparr>)"
    "closing (a\<lparr>ap_sched := sc\<rparr>)" "\<not> ticks W (a\<lparr>ap_sched := sc\<rparr>)"
proof -
  let ?L = "we_cron W"
  let ?sc = "(ap_sched a)\<lparr>sd_cron := stopCron ?L (sd_cron (ap_sched a)), sd_stopQ := True\<rparr>"
  have "stop ?L (ap_sched a) = Some ?sc" using assms(2) by (simp add: stop_def sys_inv_def)
  moreover have "planned ?L ?sc j = planned ?L (ap_sched a) j" for j
    by (simp add: planned_def cron_ops(3) [OF assms(1)] cong: option.case_cong)
  then have "app_inv W (a\<lparr>ap_sched := ?sc\<rparr>)"
    using assms(3) by (simp add: app_inv_def follows_def sched_ok_def cron_ops(3) [OF assms(1)])
  ultimately show ?thesis using that [of ?sc] by (simp add: cron_ops(6) [OF assms(1)])
qed

lemma released:
  assumes "releaseLogs E p = Some p'" and "workers_of (pg_log p) = []"
  shows "pg_app p' = pg_app p \<and> pg_db p' = pg_db p \<and> (\<exists>ws gone. pg_draining p' = Some (ws, gone) \<and> {..<length ws} \<subseteq> gone) \<and>
    workers_of (pg_log p') = [] \<and> m_logFile (ls_mgr (pg_log p')) = None \<and> m_sysConn (ls_mgr (pg_log p')) = None"
  using assms by (auto simp: releaseLogs_def stopped_def stoppingOf_def Let_def closeOutputs_eq unlockMu_def rebuildLoggerLocked_def
      resumeLocked_def split: option.splits if_splits)

lemma detached:
  assumes "detachLogs p = Some p'" and "logs_ok p"
  shows "logs_ok p' \<and> pg_app p' = pg_app p \<and> pg_db p' = pg_db p \<and> pg_draining p' \<noteq> None \<and> workers_of (pg_log p') = []"
proof -
  let ?s = "(pg_log p)\<lparr>ls_mu := True, ls_mgr := stopRotationWatcherLocked (ls_mgr (pg_log p))\<rparr>"
  have free: "\<not> ls_mu (pg_log p)" "p' = withStopping (detachWorkers ?s) p"
    using assms(1) by (auto simp: detachLogs_def lockMu_def split: if_splits)
  then show ?thesis using assms(2)
    by (auto simp: withStopping_def detachWorkers_def logs_ok_def alive_def caught_up_def unlockMu_def stopRotationWatcherLocked_def Let_def)
qed

definition only_act :: "main_act \<Rightarrow> bool" where
  \<comment> \<open>an act without a part in the phase\<close>
  "only_act act \<longleftrightarrow> act \<noteq> StopScheduler \<and> act \<noteq> CloseStore \<and> act \<noteq> DetachLogs \<and> act \<noteq> ReleaseLogs \<and> (\<forall>n. act \<noteq> Exit n)"

lemma mainDo_phase:
  assumes "mainDo M act p = Some p'" and "phase M p acts" and "logs_ok p" and "app_inv (mn_web M) (pg_app p)"
    and "cron_ok (we_cron (mn_web M))" and "act \<noteq> ReleaseLogs" and "act \<notin> acts" and "\<forall>n. act \<noteq> Exit n"
  shows "phase M p' (insert act acts) \<and> logs_ok p' \<and> app_inv (mn_web M) (pg_app p')"
proof (cases act)
  case (LogLine level msg args)
  then obtain s where s: "slogDefault (mn_log M) level msg args (pg_log p) = Some s" "p' = p\<lparr>pg_log := s\<rparr>"
    using assms(1) by auto
  show ?thesis using logs_ok_log [OF assms(3) s(1)] assms(2,4) LogLine s(2) by (auto simp: phase_def split: if_splits)
next
  case ShutdownServer
  then show ?thesis using assms by (auto simp: phase_def logs_ok_def split: if_splits)
next
  case StopScheduler
  then have "sys_inv (mn_web M) (pg_app p)" using assms(2,7) by (auto simp: phase_def)
  from stop_app_inv [OF assms(5) this assms(4)] obtain sc where
    "stop (we_cron (mn_web M)) (ap_sched (pg_app p)) = Some sc" "app_inv (mn_web M) ((pg_app p)\<lparr>ap_sched := sc\<rparr>)"
    "closing ((pg_app p)\<lparr>ap_sched := sc\<rparr>)" "\<not> ticks (mn_web M) ((pg_app p)\<lparr>ap_sched := sc\<rparr>)" by blast
  then show ?thesis using StopScheduler assms(1-3) by (auto simp: phase_def logs_ok_def split: if_splits)
next
  case CloseStore
  then show ?thesis using assms by (auto simp: phase_def logs_ok_def closeStore_def split: if_splits)
next
  case DetachLogs
  then have "detachLogs p = Some p'" using assms(1) by simp
  from detached [OF this assms(3)] show ?thesis using assms(2,4) DetachLogs by (auto simp: phase_def split: if_splits)
qed (use assms(6,8) in simp_all)

lemma acts_distinct: "distinct (afterWait M cause)"
  by (cases cause) (auto simp: shutdownLine_def split: option.splits)

text \<open>Which act is the last one.\<close>

lemma acts_last:
  assumes "afterWait M cause = before @ act # acts"
  shows "act = ReleaseLogs \<longleftrightarrow> acts = [] \<and> (\<exists>sig. cause = Signalled sig)"
    and "act = ReleaseLogs \<Longrightarrow> {StopScheduler, CloseStore, DetachLogs} \<subseteq> set before"
    and "act = Exit n \<longleftrightarrow> acts = [] \<and> (\<exists>err. cause = ServerFailed err) \<and> n = 1"
  using assms by (cases cause; auto simp: Cons_eq_append_conv shutdownLine_def split: option.splits; fail)+

lemma mainNext_more: "acts \<noteq> [] \<Longrightarrow> \<forall>n. act \<noteq> Exit n \<Longrightarrow> mainNext act acts = Finishing acts"
  by (cases act; cases acts) auto

lemma did_inv:
  assumes "prog_inv M tr p" and "cron_ok (we_cron (mn_web M))"
    and "pg_main p = Finishing (act # acts)" and "mainDo M act p = Some p'"
  shows "prog_inv M (tr @ [Did act]) (p'\<lparr>pg_main := mainNext act acts\<rparr>)"
proof -
  have nov: "\<not> over p" using assms(3) by (simp add: over_def)
  have ok: "logs_ok p" "app_inv (mn_web M) (pg_app p)" using assms(1) nov by (simp_all add: prog_inv_def)
  obtain cause before where c: "Woken cause \<in> set tr" "afterWait M cause = before @ act # acts" "phase M p (set before)"
    using assms(1,3) by (auto simp: prog_inv_def main_inv_def)
  note last = acts_last [OF c(2)]
  have new: "act \<notin> set before" using acts_distinct [of M cause] c(2) by auto
  consider (exit) n where "act = Exit n" | (release) "act = ReleaseLogs" | (more) "\<forall>n. act \<noteq> Exit n" "act \<noteq> ReleaseLogs" by blast
  then show ?thesis
  proof cases
    case exit
    then show ?thesis using last(3) [of n] c(1) assms(4) ok by (auto simp: prog_inv_def main_inv_def over_def)
  next
    case release
    then have r: "releaseLogs (mn_log M) p = Some p'" "acts = []" "\<exists>sig. cause = Signalled sig"
      "{StopScheduler, CloseStore, DetachLogs} \<subseteq> set before"
      using assms(4) last(1,2) by simp_all
    then have ph: "closing (pg_app p)" "\<not> ticks (mn_web M) (pg_app p)" "pg_db p = HandleClosed" "workers_of (pg_log p) = []"
      using c(3) by (auto simp: phase_def)
    from released [OF r(1) ph(4)] have "ended M (p'\<lparr>pg_main := Ended MainReturned\<rparr>)" "app_inv (mn_web M) (pg_app p')"
      using ph ok(2) by (auto simp: ended_def app_inv_def follows_def)
    then show ?thesis using r(2,3) c(1) release by (auto simp: prog_inv_def main_inv_def over_def)
  next
    case more
    note m = mainDo_phase [OF assms(4) c(3) ok assms(2) more(2) new more(1)]
    have "acts \<noteq> []" using last(1,3) more by (cases cause) auto
    moreover have "phase M (p'\<lparr>pg_main := Finishing acts\<rparr>) (set (before @ [act]))" "logs_ok (p'\<lparr>pg_main := Finishing acts\<rparr>)"
      using m by (simp_all add: phase_def logs_ok_def)
    moreover have "afterWait M cause = (before @ [act]) @ acts" using c(2) by simp
    ultimately show ?thesis using m c(1) mainNext_more [OF _ more(1), of acts]
      by (simp add: prog_inv_def main_inv_def over_def)
        (intro exI [of _ cause] conjI exI [of _ "before @ [act]"]; simp)
  qed
qed

lemma step_inv:
  assumes "prog_step M f p ev p'" and "prog_inv M tr p" and "cron_ok (we_cron (mn_web M))"
  shows "prog_inv M (tr @ [ev]) p'"
  using assms(1)
proof (cases rule: prog_step.cases)
  case (app ev')
  have "main_inv M (tr @ [ev]) p'"
    by (rule main_inv_cong [of M tr p], use assms(2) app in \<open>simp_all add: prog_inv_def\<close>)
      (rule phase_cong, use assms(3) in auto)
  then show ?thesis using app assms appDo_inv [OF assms(3)] by (simp add: prog_inv_def logs_ok_def over_def)
next
  case (logs ev' pc s)
  have ok: "logs_ok p" using assms(2) logs(3) by (simp add: prog_inv_def)
  then have w: "alive (pc, s)" "er_head (ring_of (pg_log p)) \<le> er_head (ring_of s)" "workers_of s = [] \<longleftrightarrow> workers_of (pg_log p) = []"
    using watch_step_frame [OF logs(4)] by (simp_all add: logs_ok_def)
  have "main_inv M (tr @ [ev]) p'"
    by (rule main_inv_cong [of M tr p], use assms(2) logs in \<open>simp_all add: prog_inv_def\<close>)
      (rule phase_cong, use w in auto)
  then show ?thesis using logs assms(2) logs_ok_watch [OF ok w(1,2)] by (simp add: prog_inv_def)
next
  case (drain d ev' st)
  have ok: "logs_ok p" using assms(2) drain(3) by (simp add: prog_inv_def)
  note w = logs_ok_drain [OF ok drain(4,5)]
  have "main_inv M (tr @ [ev]) p'"
    by (rule main_inv_cong [of M tr p], use assms(2) drain in \<open>simp_all add: prog_inv_def withStopping_def\<close>)
      (rule phase_cong, use w(2) in auto)
  then show ?thesis using drain assms(2) w(1) by (simp add: prog_inv_def withStopping_def)
next
  case (announced s)
  have ok: "logs_ok p" using assms(2) announced(3) by (simp add: prog_inv_def)
  note w = logs_ok_log [OF ok announced(5)]
  have "main_inv M (tr @ [ev]) p'"
    by (rule main_inv_cong [of M tr p], use assms(2) announced in \<open>simp_all add: prog_inv_def\<close>)
      (rule phase_cong, use w(2) in auto)
  then show ?thesis using announced assms(2) w(1) by (simp add: prog_inv_def logs_ok_def)
next
  case (woken cause)
  have "phase M p' {}" using assms(2) woken by (auto simp: prog_inv_def main_inv_def phase_def)
  moreover have "afterWait M cause \<noteq> []" by (cases cause) simp_all
  ultimately have "main_inv M (tr @ [ev]) p'" using woken unfolding main_inv_def by (auto intro!: exI [of _ cause] exI [of _ "[]"])
  moreover have "logs_ok p" "app_inv (mn_web M) (pg_app p)" using assms(2) woken(3) by (simp_all add: prog_inv_def over_def)
  ultimately show ?thesis using woken by (simp add: prog_inv_def logs_ok_def)
next
  case (did act acts p1)
  then show ?thesis using did_inv [OF assms(2,3)] by simp
qed

lemma run_inv:
  assumes "prog_run M f (launched s a) tr p" and "log_ready E cfg s" and "sys_inv (mn_web M) a" and "app_inv (mn_web M) a"
    and "cron_ok (we_cron (mn_web M))"
  shows "prog_inv M tr p"
  using assms(1)
proof (induction rule: prog_run.induct)
  case entered
  have "alive (pc, s)" if "pc = Waiting \<or> pc = Left" for pc
    using that assms(2) by (auto simp: alive_def log_ready_def configured_def)
  then show ?case using assms(3,4) by (simp add: prog_inv_def logs_ok_def main_inv_def phase_def launched_def)
qed (rule step_inv [OF _ _ assms(5)])

subsection \<open>Coming to the end\<close>

text \<open>Steps of \<^verbatim>\<open>main\<close> and of the workers it waits for, and the signal.\<close>

fun own :: "prog_ev \<Rightarrow> bool" where
  "own (Woken (Signalled sig)) = True"
| "own (Did act) = True"
| "own (Drain ev) = True"
| "own _ = False"

lemma stop_step_keeps:
  "stop_step E st ev st' \<Longrightarrow> ls_mu (sp_log st') = ls_mu (sp_log st) \<and> length (sp_workers st') = length (sp_workers st) \<and>
     sp_exited st \<subseteq> sp_exited st'"
  by (cases rule: stop_step.cases) (auto simp: enqueueLocked_mgr)

text \<open>The workers can always exit.\<close>

lemma workers_exit:
  assumes "er_tail (ring_of (sp_log st)) \<le> er_head (ring_of (sp_log st))"
    and "\<forall>i < length (sp_workers st). i \<notin> sp_exited st \<longrightarrow> sw_nextSeq (sp_workers st ! i) \<le> er_head (ring_of (sp_log st))"
  shows "\<exists>tr st'. stop_run E st tr st' \<and> stopped st' \<and> ls_mu (sp_log st') = ls_mu (sp_log st)"
  using assms
proof (induction "card ({..<length (sp_workers st)} - sp_exited st)" arbitrary: st rule: less_induct)
  case less
  show ?case
  proof (cases "stopped st")
    case True
    then show ?thesis using stop_run.told by blast
  next
    case False
    then obtain i where i: "i < length (sp_workers st)" "i \<notin> sp_exited st" by (auto simp: stopped_def)
    from exit_run [OF i refl refl less.prems(1)] less.prems(2) i obtain tr sw' where
      run: "stop_run E st tr (st\<lparr>sp_workers := (sp_workers st)[i := sw'],
        sp_log := (sp_log st)\<lparr>ls_world := runToExit E (ring_of (sp_log st)) (sp_workers st ! i) (ls_world (sp_log st))\<rparr>,
        sp_exited := insert i (sp_exited st)\<rparr>)" (is "stop_run E st tr ?st") by blast
    have "{..<length (sp_workers ?st)} - sp_exited ?st \<subset> {..<length (sp_workers st)} - sp_exited st" using i by auto
    then have "card ({..<length (sp_workers ?st)} - sp_exited ?st) < card ({..<length (sp_workers st)} - sp_exited st)"
      by (intro psubset_card_mono) auto
    from less.hyps [OF this] less.prems obtain tr' st' where
      "stop_run E ?st tr' st'" "stopped st'" "ls_mu (sp_log st') = ls_mu (sp_log ?st)" by (auto simp: nth_list_update)
    then show ?thesis using stop_run_trans [OF _ run] by auto
  qed
qed

lemma stopping_view: "stoppingOf (withStopping st p) (sp_workers st, sp_exited st) = st"
  by (cases st) (simp add: stoppingOf_def withStopping_def)

lemma drain_prog:
  "stop_run (mn_log M) st tr st' \<Longrightarrow> \<not> ls_mu (sp_log st) \<Longrightarrow> \<not> over p \<Longrightarrow>
     prog_run M f (withStopping st p) (map Drain tr) (withStopping st' p) \<and> \<not> ls_mu (sp_log st')"
proof (induction rule: stop_run.induct)
  case told
  then show ?case using prog_run.entered by simp
next
  case (more tr st1 ev st2)
  have ih: "prog_run M f (withStopping st p) (map Drain tr) (withStopping st1 p)" "\<not> ls_mu (sp_log st1)"
    using more by simp_all
  have "prog_step M f (withStopping st1 p) (Drain ev) (withStopping st2 (withStopping st1 p))"
    by (rule prog_step.drain [where d = "(sp_workers st1, sp_exited st1)"])
      (use more ih(2) in \<open>simp_all add: stopping_view\<close>, simp_all add: withStopping_def over_def)
  moreover have "withStopping st2 (withStopping st1 p) = withStopping st2 p" by (simp add: withStopping_def)
  ultimately show ?case using prog_run.onward [OF ih(1)] stop_step_keeps [OF more(2)] ih(2) by simp
qed

text \<open>While no rotation is under way, \<^verbatim>\<open>main\<close> can do its next act, if need be after the workers have exited.\<close>

lemma act_possible:
  assumes "prog_inv M tr p" and "cron_ok (we_cron (mn_web M))" and "pg_main p = Finishing (act # acts)"
    and "pg_watch p = Waiting \<or> pg_watch p = Left"
  shows "\<exists>evs p'. prog_run M f p evs p' \<and> list_all own evs \<and> pg_main p' = mainNext act acts \<and> pg_watch p' = pg_watch p"
proof -
  have nov: "\<not> over p" using assms(3) by (simp add: over_def)
  have ok: "logs_ok p" "app_inv (mn_web M) (pg_app p)" using assms(1) nov by (simp_all add: prog_inv_def)
  obtain cause before where c: "afterWait M cause = before @ act # acts" "phase M p (set before)"
    using assms(1,3) by (auto simp: prog_inv_def main_inv_def)
  have free: "\<not> ls_mu (pg_log p)" using ok(1) assms(4) by (auto simp: logs_ok_def alive_def)
  have direct: ?thesis if "mainDo M act p = Some p1" "pg_watch p1 = pg_watch p" for p1
    using prog_run_one [OF prog_step.did [OF assms(3) that(1), of f]] that(2)
    by (intro exI [of _ "[Did act]"] exI [of _ "p1\<lparr>pg_main := mainNext act acts\<rparr>"]) simp
  show ?thesis
  proof (cases act)
    case (LogLine level msg args)
    obtain s where "slogDefault (mn_log M) level msg args (pg_log p) = Some s"
      using alive_logs [of "pg_watch p" "pg_log p"] ok(1) assms(4) unfolding logs_ok_def by blast
    then show ?thesis using LogLine by (intro direct [of "p\<lparr>pg_log := s\<rparr>"]) simp_all
  next
    case StopScheduler
    have "act \<notin> set before" using acts_distinct [of M cause] c(1) by auto
    then have "sys_inv (mn_web M) (pg_app p)" using c(2) StopScheduler by (auto simp: phase_def)
    from stop_app_inv [OF assms(2) this ok(2)] obtain sc where "stop (we_cron (mn_web M)) (ap_sched (pg_app p)) = Some sc" by blast
    then show ?thesis using StopScheduler by (intro direct [of "p\<lparr>pg_app := (pg_app p)\<lparr>ap_sched := sc\<rparr>\<rparr>"]) simp_all
  next
    case DetachLogs
    have "\<exists>p1. detachLogs p = Some p1 \<and> pg_watch p1 = pg_watch p"
      using free by (simp add: detachLogs_def lockMu_def withStopping_def)
    then show ?thesis using DetachLogs direct by auto
  next
    case ReleaseLogs
    then have "DetachLogs \<in> set before" using acts_last(2) [OF c(1)] by auto
    then obtain ws gone where d: "pg_draining p = Some (ws, gone)" using c(2) by (auto simp: phase_def)
    let ?st = "stoppingOf p (ws, gone)"
    have "er_tail (ring_of (sp_log ?st)) \<le> er_head (ring_of (sp_log ?st))"
      "\<forall>i < length (sp_workers ?st). i \<notin> sp_exited ?st \<longrightarrow> sw_nextSeq (sp_workers ?st ! i) \<le> er_head (ring_of (sp_log ?st))"
      using ok(1) d by (auto simp: stoppingOf_def logs_ok_def alive_def caught_up_def ring_ok_def)
    from workers_exit [OF this, of "mn_log M"] obtain evs st where
      st: "stop_run (mn_log M) ?st evs st" "stopped st" "\<not> ls_mu (sp_log st)" using free by (auto simp: stoppingOf_def)
    have same: "withStopping ?st p = p" using d by (simp add: withStopping_def stoppingOf_def)
    have run: "prog_run M f p (map Drain evs) (withStopping st p)"
      using drain_prog [OF st(1) _ nov, of f] free same by (simp add: stoppingOf_def)
    have main: "pg_main (withStopping st p) = Finishing (act # acts)" "pg_watch (withStopping st p) = pg_watch p"
      using assms(3) by (simp_all add: withStopping_def)
    obtain p1 where p1: "releaseLogs (mn_log M) (withStopping st p) = Some p1" "pg_watch p1 = pg_watch p"
      using st(2,3) stopping_view [of st p] by (simp add: releaseLogs_def Let_def withStopping_def)
    then have "prog_step M f (withStopping st p) (Did act) (p1\<lparr>pg_main := mainNext act acts\<rparr>)"
      using ReleaseLogs by (intro prog_step.did [OF main(1)]) simp
    from prog_run_trans [OF prog_run_one [OF this] run] show ?thesis using p1(2)
      by (intro exI [of _ "map Drain evs @ [Did act]"] exI [of _ "p1\<lparr>pg_main := mainNext act acts\<rparr>"])
        (simp add: list_all_iff)
  next
    case ShutdownServer
    then show ?thesis
      by (intro direct [of "p\<lparr>pg_requests := pg_requests p \<and> mn_shutdownErr M \<noteq> None\<rparr>"]) simp_all
  next
    case CloseStore
    then show ?thesis by (intro direct [of "p\<lparr>pg_db := closeStore (pg_db p)\<rparr>"]) simp_all
  next
    case (Exit n)
    then show ?thesis by (intro direct [of p]) simp_all
  qed
qed

lemma prog_run_inv:
  "prog_run M f p evs p' \<Longrightarrow> prog_inv M tr p \<Longrightarrow> cron_ok (we_cron (mn_web M)) \<Longrightarrow> prog_inv M (tr @ evs) p'"
proof (induction rule: prog_run.induct)
  case (onward evs p1 ev p2)
  then show ?case using step_inv [OF onward(2), of "tr @ evs"] by simp
qed simp

lemma acts_end:
  "prog_inv M tr p \<Longrightarrow> cron_ok (we_cron (mn_web M)) \<Longrightarrow> pg_main p = Finishing acts \<Longrightarrow> pg_watch p = Waiting \<or> pg_watch p = Left \<Longrightarrow>
     \<exists>evs p'. prog_run M f p evs p' \<and> list_all own evs \<and> over p'"
proof (induction acts arbitrary: tr p)
  case Nil
  then show ?case by (simp add: prog_inv_def main_inv_def)
next
  case (Cons act acts)
  from act_possible [OF Cons.prems, of f] obtain evs p1 where
    p1: "prog_run M f p evs p1" "list_all own evs" "pg_main p1 = mainNext act acts" "pg_watch p1 = pg_watch p" by blast
  have inv: "prog_inv M (tr @ evs) p1" by (rule prog_run_inv [OF p1(1) Cons.prems(1,2)])
  show ?case
  proof (cases "over p1")
    case True
    then show ?thesis using p1 by blast
  next
    case False
    then have "pg_main p1 = Finishing acts" using p1(3) by (cases act; cases acts) (auto simp: over_def)
    from Cons.IH [OF inv Cons.prems(2) this] p1(4) Cons.prems(4) obtain evs' p2 where
      "prog_run M f p1 evs' p2" "list_all own evs'" "over p2" by auto
    then show ?thesis using prog_run_trans [OF _ p1(1)] p1(2) by (metis list_all_append)
  qed
qed

lemma can_end:
  assumes "prog_inv M tr p" and "cron_ok (we_cron (mn_web M))" and "\<not> over p" and "pg_watch p = Waiting \<or> pg_watch p = Left"
  shows "\<exists>evs p'. prog_run M f p evs p' \<and> list_all own evs \<and> over p'"
proof (cases "pg_main p")
  case Serving
  let ?p = "p\<lparr>pg_main := Finishing (afterWait M (Signalled ''interrupt''))\<rparr>"
  have step: "prog_step M f p (Woken (Signalled ''interrupt'')) ?p" by (rule prog_step.woken [OF Serving]) simp
  have "prog_inv M (tr @ [Woken (Signalled ''interrupt'')]) ?p" by (rule step_inv [OF step assms(1,2)])
  from acts_end [OF this assms(2), of _ f] assms(4) obtain evs p' where
    "prog_run M f ?p evs p'" "list_all own evs" "over p'" by auto
  then show ?thesis using prog_run_trans [OF _ prog_run_one [OF step]]
    by (intro exI [of _ "[Woken (Signalled ''interrupt'')] @ evs"] exI [of _ p']) simp
next
  case (Finishing acts)
  from acts_end [OF assms(1,2) this assms(4)] show ?thesis .
next
  case (Ended x)
  then show ?thesis using assms(3) by (simp add: over_def)
qed

lemma logs_prog:
  "watch_run (mn_log M) c tr c' \<Longrightarrow> c = (pg_watch p, pg_log p) \<Longrightarrow> \<not> over p \<Longrightarrow>
     prog_run M f p (map Logs tr) (p\<lparr>pg_watch := fst c', pg_log := snd c'\<rparr>)"
proof (induction rule: watch_run.induct)
  case begun
  then have "p\<lparr>pg_watch := fst c, pg_log := snd c\<rparr> = p" by simp
  then show ?case using prog_run.entered by simp
next
  case (further tr c1 ev c2)
  let ?p = "\<lambda>c. p\<lparr>pg_watch := fst c, pg_log := snd c\<rparr>"
  have "prog_step M f (?p c1) (Logs ev) ((?p c1)\<lparr>pg_watch := fst c2, pg_log := snd c2\<rparr>)"
    by (rule prog_step.logs) (use further in \<open>simp_all add: over_def\<close>)
  then show ?case using prog_run.onward [OF further.IH [OF further.prems]] by simp
qed

lemma rotation_ends:
  assumes "prog_inv M tr p" and "\<not> over p" and "pg_watch p \<noteq> Waiting" and "pg_watch p \<noteq> Left"
  shows "\<exists>evs c. prog_run M f p (map Logs evs) (p\<lparr>pg_watch := fst c, pg_log := snd c\<rparr>) \<and> (\<forall>ev. Other ev \<notin> set evs) \<and>
    (fst c = Waiting \<or> stuck c)"
proof -
  have "alive (pg_watch p, pg_log p)" using assms(1,2) by (simp add: prog_inv_def logs_ok_def)
  from rotation_settles [OF this, of "mn_log M"] assms(3,4) obtain r where
    "comes_to (mn_log M) (pg_watch p, pg_log p) r" by auto
  then obtain evs c where "watch_run (mn_log M) (pg_watch p, pg_log p) evs c" "\<forall>ev. Other ev \<notin> set evs"
    "case r of None \<Rightarrow> stuck c | Some s \<Rightarrow> c = (Waiting, s)" unfolding comes_to_def by blast
  then show ?thesis using logs_prog [OF _ refl assms(2), of M evs c f]
    by (intro exI [of _ evs] exI [of _ c]) (auto split: option.splits)
qed

subsection \<open>Frozen\<close>

text \<open>The watcher is stuck with the mutex, and \<^verbatim>\<open>main\<close> needs the mutex before it can end.\<close>

fun needsMutex :: "main_act \<Rightarrow> bool" where
  "needsMutex (LogLine level msg args) = True"
| "needsMutex DetachLogs = True"
| "needsMutex ReleaseLogs = True"
| "needsMutex _ = False"

fun blocked :: "main_act list \<Rightarrow> bool" where
  "blocked [] = False"
| "blocked (Exit n # acts) = False"
| "blocked (act # acts) = (needsMutex act \<or> blocked acts)"

definition frozen :: "('w, 'c) program \<Rightarrow> bool" where
  "frozen p \<longleftrightarrow> stuck (pg_watch p, pg_log p) \<and>
     (case pg_main p of Serving \<Rightarrow> True | Finishing acts \<Rightarrow> blocked acts | Ended x \<Rightarrow> False)"

lemma stuck_held: "stuck (pc, s) \<Longrightarrow> slogDefault E LevelInfo msg args s = None"
  "stuck (pc, s) \<Longrightarrow> slogDefault E LevelError msg args s = None"
  by (auto simp: stuck_def slogDefault_def slogLog_def levelEnabled_def ringEnabled_def level_defs enqueue_def lockMu_def)

lemma blocked_act:
  assumes "blocked (act # acts)" and "mainDo M act p = Some p'" and "stuck (pg_watch p, pg_log p)"
    and "\<forall>level msg args. act = LogLine level msg args \<longrightarrow> level = LevelInfo \<or> level = LevelError"
  shows "mainNext act acts = Finishing acts \<and> blocked acts \<and> pg_watch p' = pg_watch p \<and> pg_log p' = pg_log p"
proof -
  have mu: "ls_mu (pg_log p)" using assms(3) by (simp add: stuck_def)
  show ?thesis using assms mu
    by (cases act; cases acts) (auto simp: stuck_held detachLogs_def releaseLogs_def lockMu_def split: option.splits)
qed

text \<open>What \<^verbatim>\<open>main\<close> still has to log is logged at these levels.\<close>

definition plain_levels :: "('w, 'c) program \<Rightarrow> bool" where
  "plain_levels p \<longleftrightarrow> (\<forall>acts. pg_main p = Finishing acts \<longrightarrow>
     (\<forall>level msg args. LogLine level msg args \<in> set acts \<longrightarrow> level = LevelInfo \<or> level = LevelError))"

lemma afterWait_levels: "LogLine level msg args \<in> set (afterWait M cause) \<Longrightarrow> level = LevelInfo \<or> level = LevelError"
  by (cases cause) (auto simp: shutdownLine_def split: option.splits)

lemma afterWait_blocked: "blocked (afterWait M cause)"
  by (cases cause) simp_all

lemma frozen_step:
  assumes "prog_step M f p ev p'" and "frozen p" and "plain_levels p"
  shows "frozen p' \<and> plain_levels p'"
  using assms(1)
proof (cases rule: prog_step.cases)
  case (logs ev' pc s)
  then show ?thesis using assms(2,3) stuck_step [OF logs(4)] by (auto simp: frozen_def plain_levels_def)
next
  case (drain d ev' st)
  have "ls_mu (pg_log p)" using assms(2) by (simp add: frozen_def stuck_def)
  then obtain i e where "ev' = Emitted i e" using drain(6) by blast
  then have "ls_mgr (sp_log st) = ls_mgr (pg_log p)" "ls_mu (sp_log st) = ls_mu (pg_log p)"
    using drain(5) by (auto simp: stoppingOf_def elim: stop_step.cases)
  then show ?thesis using assms(2,3) drain(2) by (simp add: frozen_def stuck_def plain_levels_def withStopping_def)
next
  case (announced s)
  then show ?thesis using assms(2) stuck_held(1) [of "pg_watch p" "pg_log p"] by (simp add: frozen_def)
next
  case (woken cause)
  then show ?thesis using assms(2) afterWait_levels [of _ _ _ M cause] by (simp add: frozen_def plain_levels_def afterWait_blocked)
next
  case (did act acts p1)
  have "blocked (act # acts)" "stuck (pg_watch p, pg_log p)" using assms(2) did(3) by (simp_all add: frozen_def)
  moreover have "\<forall>level msg args. act = LogLine level msg args \<longrightarrow> level = LevelInfo \<or> level = LevelError"
    using assms(3) did(3) by (auto simp: plain_levels_def)
  ultimately have "mainNext act acts = Finishing acts \<and> blocked acts \<and> pg_watch p1 = pg_watch p \<and> pg_log p1 = pg_log p"
    using blocked_act [OF _ did(4)] by blast
  then show ?thesis using assms(2,3) did by (auto simp: frozen_def plain_levels_def)
qed (use assms(2,3) in \<open>simp add: frozen_def plain_levels_def\<close>)

lemma frozen_run:
  "prog_run M f p evs p' \<Longrightarrow> frozen p \<Longrightarrow> plain_levels p \<Longrightarrow> frozen p' \<and> plain_levels p'"
  by (induction rule: prog_run.induct) (auto dest: frozen_step)

lemma suffix_blocked:
  assumes "afterWait M cause = before @ acts" and "acts \<noteq> []" and "acts \<noteq> [Exit 1]"
  shows "blocked acts"
  using assms by (cases cause) (auto simp: Cons_eq_append_conv shutdownLine_def split: option.splits)

lemma stuck_forever:
  assumes "prog_inv M tr p" and "stuck (pg_watch p, pg_log p)" and "\<not> over p" and "pg_main p \<noteq> Finishing [Exit 1]"
    and "prog_run M f p evs p'"
  shows "\<not> over p'"
proof -
  have "frozen p \<and> plain_levels p"
  proof (cases "pg_main p")
    case Serving
    then show ?thesis using assms(2) by (simp add: frozen_def plain_levels_def)
  next
    case (Finishing acts)
    then obtain cause before where c: "afterWait M cause = before @ acts" "acts \<noteq> []"
      using assms(1) by (auto simp: prog_inv_def main_inv_def)
    have "level = LevelInfo \<or> level = LevelError" if "LogLine level msg args \<in> set acts" for level msg args
      by (rule afterWait_levels [of level msg args M cause]) (use that c(1) in simp)
    then show ?thesis using suffix_blocked [OF c] Finishing assms(2,4)
      by (simp add: frozen_def plain_levels_def)
  qed (use assms(3) in \<open>simp add: over_def\<close>)
  with frozen_run [OF assms(5)] show ?thesis by (auto simp: frozen_def over_def split: main_at.splits)
qed

subsection \<open>The program as a whole\<close>

text \<open>
  C3: The program runs and ends as it should, unless a rotation freezes it. With a database that opens
  and does not fail, and whatever log outputs could be opened, \<^verbatim>\<open>main\<close> comes to its wait. Take any course
  of events from there: requests, triggers, runs of jobs, log lines, workers, rotations, a signal or a
  failing server, in any order. If \<^verbatim>\<open>main\<close> has returned, there was a signal, and then all workers have exited,
  the log outputs and the database are closed, the scheduler has stopped, and each job is planned exactly as its
  row asks; if the program has exited, it was with status 1 after the server failed. Otherwise, as long
  as no rotation is under way, a signal, \<^verbatim>\<open>main\<close> and the workers it waits for can bring it to its end. A
  rotation under way can come to its end or to a point where it is stuck with the mutex; once it is stuck,
  nothing ends the program any more, but a failure of the server that has been logged already.
\<close>
theorem main_runs:
  assumes "cron_ok (we_cron (mn_web M))" and "db_ok (w_db w)" and "\<not> fl_version f"
    and "newStore (dbOf (mn_web M)) (mn_openErr M) (w_db w) = (Inr (), d)"
    and "db_calm (dbOf (mn_web M)) d" and "mn_uiErr M = None"
  shows "\<exists>s a. runProgram M f w x = Some (StillServing, s, True, Some a) \<and>
    (\<forall>tr p. prog_run M f (launched s a) tr p \<longrightarrow>
      (pg_main p = Ended MainReturned \<longrightarrow> (\<exists>sig. Woken (Signalled sig) \<in> set tr) \<and> ended M p) \<and>
      (\<forall>y. pg_main p = Ended y \<and> y \<noteq> MainReturned \<longrightarrow> y = OSExit 1 \<and> (\<exists>err. Woken (ServerFailed err) \<in> set tr)) \<and>
      (\<not> over p \<and> pg_watch p \<in> {Waiting, Left} \<longrightarrow> (\<exists>evs p'. prog_run M f p evs p' \<and> list_all own evs \<and> over p')) \<and>
      (\<not> over p \<and> pg_watch p \<notin> {Waiting, Left} \<longrightarrow>
         (\<exists>evs c. prog_run M f p (map Logs evs) (p\<lparr>pg_watch := fst c, pg_log := snd c\<rparr>) \<and> (\<forall>ev. Other ev \<notin> set evs) \<and>
            (fst c = Waiting \<or> stuck c))) \<and>
      (\<not> over p \<and> stuck (pg_watch p, pg_log p) \<and> pg_main p \<noteq> Finishing [Exit 1] \<longrightarrow>
         (\<forall>evs p'. prog_run M f p evs p' \<longrightarrow> \<not> over p')))"
proof -
  obtain s a where s: "runProgram M f w x = Some (StillServing, s, True, Some a)" "log_ready (mn_log M) (logConfig f) s"
    "sys_inv (mn_web M) a" "app_inv (mn_web M) a" using main_serves [OF assms, of x] by blast
  have inv: "prog_inv M tr p" if "prog_run M f (launched s a) tr p" for tr p
    by (rule run_inv [OF that s(2-4) assms(1)])
  have over_inv: "x = MainReturned \<and> (\<exists>sig. Woken (Signalled sig) \<in> set tr) \<and> ended M p \<or>
      x = OSExit 1 \<and> (\<exists>err. Woken (ServerFailed err) \<in> set tr)" if "prog_run M f (launched s a) tr p" "pg_main p = Ended x" for tr p x
    using inv [OF that(1)] that(2) by (simp add: prog_inv_def main_inv_def)
  show ?thesis
  proof (intro exI [of _ s] exI [of _ a] conjI allI impI; (elim conjE)?)
    show "runProgram M f w x = Some (StillServing, s, True, Some a)" by (rule s(1))
  next
    fix tr p assume r: "prog_run M f (launched s a) tr p" "pg_main p = Ended MainReturned"
    then show "\<exists>sig. Woken (Signalled sig) \<in> set tr" "ended M p" using over_inv [OF r] by simp_all
  next
    fix tr p y assume r: "prog_run M f (launched s a) tr p" "pg_main p = Ended y" "y \<noteq> MainReturned"
    then show "y = OSExit 1" "\<exists>err. Woken (ServerFailed err) \<in> set tr" using over_inv [OF r(1,2)] by simp_all
  next
    fix tr p assume r: "prog_run M f (launched s a) tr p" "\<not> over p" "pg_watch p \<in> {Waiting, Left}"
    then show "\<exists>evs p'. prog_run M f p evs p' \<and> list_all own evs \<and> over p'"
      using can_end [OF inv [OF r(1)] assms(1) r(2)] by simp
  next
    fix tr p assume r: "prog_run M f (launched s a) tr p" "\<not> over p" "pg_watch p \<notin> {Waiting, Left}"
    then show "\<exists>evs c. prog_run M f p (map Logs evs) (p\<lparr>pg_watch := fst c, pg_log := snd c\<rparr>) \<and>
        (\<forall>ev. Other ev \<notin> set evs) \<and> (fst c = Waiting \<or> stuck c)"
      using rotation_ends [OF inv [OF r(1)] r(2)] by simp
  next
    fix tr p evs p'
    assume r: "prog_run M f (launched s a) tr p" "\<not> over p" "stuck (pg_watch p, pg_log p)" "pg_main p \<noteq> Finishing [Exit 1]"
      "prog_run M f p evs p'"
    show "\<not> over p'" by (rule stuck_forever [OF inv [OF r(1)] r(3,2,4,5)])
  qed
qed

theorem main_runs_witness:
  "\<exists>s a. runProgram (demo_main None) defaultFlags (demo_world\<lparr>w_db := empty_db\<rparr>) [] = Some (StillServing, s, True, Some a) \<and>
     (\<exists>evs p. prog_run (demo_main None) defaultFlags (launched s a) evs p \<and> list_all own evs \<and>
        pg_main p = Ended MainReturned \<and> ended (demo_main None) p)"
proof -
  obtain d where d: "newStore (demo_db True) None empty_db = (Inr (), d)"
    and sub: "{''controllers'', ''sync_jobs'', ''sync_jobs.observed_ip_ttl_hours'', ''run_logs''} \<subseteq> set (schema d)"
    using demo_opens by (auto split: prod.splits)
  let ?M = "demo_main None" and ?f = defaultFlags
  have "db_calm (dbOf (mn_web ?M)) d" using sub by (simp add: demo_main_def db_calm_def demo_db_def)
  then have hyps: "cron_ok (we_cron (mn_web ?M))" "db_ok (w_db (demo_world\<lparr>w_db := empty_db\<rparr>))" "\<not> fl_version ?f"
    "newStore (dbOf (mn_web ?M)) (mn_openErr ?M) (w_db (demo_world\<lparr>w_db := empty_db\<rparr>)) = (Inr (), d)"
    "db_calm (dbOf (mn_web ?M)) d" "mn_uiErr ?M = None"
    by (simp_all add: demo_main_def d demo_cron_ok db_ok_empty defaultFlags_def)
  have "\<exists>s a. runProgram ?M ?f (demo_world\<lparr>w_db := empty_db\<rparr>) [] = Some (StillServing, s, True, Some a) \<and>
     (\<forall>tr p. prog_run ?M ?f (launched s a) tr p \<longrightarrow>
      (pg_main p = Ended MainReturned \<longrightarrow> (\<exists>sig. Woken (Signalled sig) \<in> set tr) \<and> ended ?M p) \<and>
      (\<forall>y. pg_main p = Ended y \<and> y \<noteq> MainReturned \<longrightarrow> y = OSExit 1 \<and> (\<exists>err. Woken (ServerFailed err) \<in> set tr)) \<and>
      (\<not> over p \<and> pg_watch p \<in> {Waiting, Left} \<longrightarrow> (\<exists>evs p'. prog_run ?M ?f p evs p' \<and> list_all own evs \<and> over p')))"
    (is "\<exists>s a. ?A s a \<and> (\<forall>tr p. ?R s a tr p \<longrightarrow> ?X tr p \<and> ?Y tr p \<and> ?Z p)")
    by (rule ex_forward [OF main_runs [OF hyps, of "[]"]], erule ex_forward, erule conjE, rule conjI, assumption,
      intro allI impI, (drule spec)+, drule (1) mp, elim conjE, intro conjI; assumption)
  then obtain s a where s: "?A s a" and all: "\<forall>tr p. ?R s a tr p \<longrightarrow> ?X tr p \<and> ?Y tr p \<and> ?Z p"
    by (elim exE conjE) (rule that)
  have "\<not> over (launched s a)" "pg_watch (launched s a) \<in> {Waiting, Left}" by (simp_all add: over_def launched_def)
  then obtain evs p where p: "prog_run ?M ?f (launched s a) evs p" "list_all own evs" "over p"
    using all [rule_format, OF prog_run.entered] by blast
  have "Woken (ServerFailed err) \<notin> set evs" for err using p(2) by (auto simp: list_all_iff)
  then have "pg_main p = Ended MainReturned" using all [rule_format, OF p(1)] p(3) by (auto simp: over_def split: main_at.splits)
  then show ?thesis using s p all [rule_format, OF p(1)] by blast
qed

end
