(* ===== verification/Spec2Isabelle.thy ===== *)
theory Spec2Isabelle
  imports Resolver_Props Store_Props Unifi_Props Sync_Props Syncer_Props Sync_Converge Syncer_Lock Scheduler_Props
    Web_Props Web_More Log_Props Log_Text Log_Configure Log_Stopping Log_Rotation App_Run
begin

text \<open>
  Verification of go-unifi-network-list-sync.

  The program keeps the network lists (traffic matching lists) of UniFi controllers up to date. A
  sync job names a controller, one of its lists and a set of hosts. When the job runs, its hosts are
  resolved to addresses, recently seen addresses are added, the list is read from the controller
  and, if it differs, written back; the outcome is recorded. Jobs run on a cron schedule or when
  they are triggered by hand; an HTTP interface manages controllers, jobs, DNS servers and logs.

  The program's parts and the theories that model them, in the order they build on each other:

    \<^item> Prelude, Go_Strings, Go_Time, Buffers: results of fallible functions (\<open>string +
      'a\<close>), the functions of strings, strconv and time that the source calls, sorting by a
      comparison function (locale \<open>slice_order\<close>), RFC 3339 texts and their order, and the
      contract of bounded buffers (locales \<open>bounded_buffer\<close>,
      \<open>refusing_buffer\<close>, \<open>evicting_buffer\<close>).
    \<^item> Net_IP, Resolver_Text, Dns_Resolver, Resolver_Props: internal/syncer/resolver.go. Parsing
      and printing of IPv4 addresses and networks over 32-bit words, canonical entries and their
      order, host lists, DNS lookups that follow CNAME records, discovery of authoritative servers,
      and the resolution of a host list. The network is a function from the history of exchanges to
      the next answer; the history is threaded through in the order the code makes its queries.
    \<^item> Store, Store_Laws, Store_Crud, Store_Cache, Store_Props: internal/store/store.go. The
      tables as lists of rows with AUTOINCREMENT counters, one definition per SQL statement and per
      method. Any statement may fail, and each runs on a connection that enforces foreign keys or does
      not. The locale \<open>crud\<close> is the contract of a table with create, read, update and
      delete; it is interpreted on controllers, jobs and DNS servers.
    \<^item> Unifi_Client, Unifi_Props: internal/unifi/client.go. The requests, the detection of the
      API path and of the site, and the decoding and encoding of JSON values into the structs. The
      client sets no redirect policy, so one call of http.Client.Do is up to ten requests
      (\<open>clientDo\<close>, the loop of net/http); an entry of the HTTP history is a call with all
      its requests.
    \<^item> Sync_Lists, Sync_Props, Syncer, Syncer_Laws, Syncer_Push, Syncer_Props, Sync_Converge,
      Syncer_Lock: internal/syncer/syncer.go. The pure functions on lists of addresses, the execution
      of a job over a \<open>world\<close> of database, DNS history and HTTP history, the run log, and
      (Syncer_Lock) concurrent calls of Run as an inductive step relation.
    \<^item> Scheduler, Scheduler_Props: internal/scheduler/scheduler.go. Cron entries, the bounded
      queue of triggered jobs (an interpretation of \<open>refusing_buffer\<close>), its worker, and a
      step relation of reloads, removals, triggers and work.
    \<^item> Web, Web_Props, Web_More: internal/web/handler.go. The routes, every handler, request
      decoding and reply encoding, and the middleware's response recorder.
    \<^item> Log_Attrs, Log_Console, Log_Ring, Log_Manager, Log_Outputs, Log_Workers, Log_Props,
      Log_Control, Log_Configure, Log_Stopping, Log_Rotation, Log_Text: internal/logging/logging.go.
      Attributes and their texts, the console handler, the event ring (an interpretation of
      \<open>evicting_buffer\<close>), configuration, the sink workers, opening, closing and rotating
      outputs. Log_Workers is the step relation of producers and workers; its steps are the critical
      sections of the manager's mutex. Log_Stopping is the step relation of the time in which
      stopWorkersLocked waits without the mutex; Log_Outputs computes the run of it in which nobody
      logs. Log_Rotation is the step relation of the rotation watcher beside them; rotateFileIfNeeded
      is the run of it that nobody disturbs. An operation that locks the mutex while its caller holds
      it blocks for ever and has the value None.
    \<^item> App_System: the running program, in which requests, triggers of the cron runner, the
      queue's worker and the goroutines of POST /api/jobs/{id}/run act on one database and one
      scheduler (\<open>appDo\<close>).
    \<^item> App_Main: main.go up to its wait, and the init of the logging package. The flags, the
      start of the parts, and the exits that skip the deferred calls.
    \<^item> App_Run: main.go from its wait to its end, beside everything else that runs: a step
      relation of the events of App_System, producers, sink workers and the rotation watcher, the
      goroutine of the server, and main with its log lines, the shutdown and the deferred calls.
      Closing the log manager is two critical sections with the draining of Log_Stopping between them.

  What the lemmas show. Resolver_Props: resolution is sound and complete for the answers it got,
  robust against single failures, and bounded in the number of queries. Store_Props: invariants of
  every reachable database, tables as maps, atomic recording of addresses, the lists, and what
  opening a database does. Unifi_Props: reading never writes, an update is one PUT, what redirects
  make of both, and encoded items are read back. Sync_Props and Syncer_Props: the difference of
  lists, where the addresses of a written list come from, what failures leave alone, the retention
  window and the run log. Sync_Converge: against a controller that keeps what it is sent
  (\<open>keeps_list\<close>) syncing converges. Syncer_Lock: a job is never run by two goroutines
  at once. Scheduler_Props: one entry per job, the queue is first-in first-out, the worker drains.
  Web_Props and Web_More: no API key in a reply, reads and errors change nothing, the schedule
  follows the jobs, replies are well formed. Log_Props: sinks write in order and lose nothing unless
  the ring overflows. Log_Control: closing drains, rotation keeps the newest files, and where it
  blocks. Log_Configure: the sinks that run after configuring. Log_Stopping: stopping loses nothing
  that was logged before, but an event that is logged meanwhile may be written by no sink.
  Log_Rotation: when a rotation stops all logging for good, and how it loses an event that a worker
  has in hand. Log_Text: colours and verbose fields. App_System: whatever the order of events, the
  database changes by store operations only, so the invariants of the store hold of the whole
  program, and the schedule follows the jobs. App_Main: what is left unwritten when the program does
  not come up. App_Run: what is cleaned up when main has returned, that it can always be brought to
  its end while no rotation is under way, and that it cannot once a rotation is stuck.

  Outside code is an argument everywhere: the SQLite driver (faults, clock, order of ties, foreign
  keys), the DNS package and the network, the HTTP transport, the parsers of JSON texts and URLs,
  the cron library, the operating system, the text handler of slog, and the iteration order of maps.
  What is relied on is a named hypothesis (\<open>cron_ok\<close>, \<open>log_ready\<close>,
  \<dots>), and a witness instantiates the argument with a concrete function.

  Bounds. The recursion of CNAME following is on the depth argument that the code has, and the
  resolution of a LogValuer on the 100 rounds after which slog gives up. Every other loop is
  structural or has a termination proof. Durations are int64 nanoseconds with their wrap-around
  (\<open>observedIPRetention\<close>); addresses are 32-bit words. Numbers of log events are uint64
  in the code and natural numbers here: 2 ^ 64 events are not reached. Row numbers are integers,
  with the exhaustion of AUTOINCREMENT as the error that SQLite reports.

  Not modelled: the user interface under ui/, the build and container files, the tests; the loop of
  the HTTP server, the parsers of JSON texts and the text handler of slog; the formatting of Debugf
  and Verbosef (their arguments are the finished messages); the branch for a manager without a ring,
  which the package excludes; the lines that the scheduler, the store and the requests write to the
  log, which no other part reads (App_Run has them as events that some producer logs); what is still
  running when the database is closed; a tick of the rotation watcher during the start, whose first
  comes after 15 seconds; the interleaving of two requests, or of a request and a run, inside one
  step of App_System (the invariants of the store hold after every single store operation). Two
  accesses the code leaves unsynchronised, the handler of a sink being replaced while its worker
  writes, are taken as atomic. Lists that are nil and lists that are empty are one value, as the
  handlers replace nil by an empty list; only the lists of a controller are passed on as they are,
  and there nil is the value None.
\<close>

end
